(* ===== verification/Prelude.thy ===== *)
theory Prelude
  imports Main "HOL-Library.Word" "HOL-Library.Multiset"
begin

text \<open>
  What the components share: the names of Go's machine types, the collections of rewrite
  rules the component proofs use, the interface of a stream codec, and generic lemmas on
  lists, association lists and signed words.

  Go's \<open>int\<close> is 64 bits wide on every platform the server is built for (windows/amd64,
  darwin), so it is \<^typ>\<open>64 word\<close> read with \<^term>\<open>sint\<close>; \<open>int32\<close>, \<open>uint32\<close>,
  \<open>uint16\<close> and \<open>uint64\<close> are words of their width.  A Go string is a sequence of bytes, which
  is what \<^typ>\<open>string\<close> (a list of 8-bit characters) is.
\<close>

type_synonym goint = "64 word"
type_synonym int32 = "32 word"
type_synonym uint32 = "32 word"
type_synonym uint16 = "16 word"
type_synonym uint64 = "64 word"

named_theorems codec_simps \<open>round trips of the encoders\<close>
named_theorems inv_intros \<open>operations keep the invariants of their component\<close>
named_theorems step_simps \<open>what one operation does to each field of its state\<close>

subsection \<open>Bytes\<close>

abbreviation byte_val :: "char \<Rightarrow> nat" where
  "byte_val c \<equiv> of_char c"

abbreviation byte_chr :: "nat \<Rightarrow> char" where
  "byte_chr n \<equiv> char_of n"

text \<open>The characters that clash with the quotes of a string literal, and the line end.\<close>

abbreviation dquote :: char where "dquote \<equiv> CHR 0x22"
abbreviation backslash :: char where "backslash \<equiv> CHR 0x5C"
abbreviation newline :: char where "newline \<equiv> CHR 0x0A"
abbreviation creturn :: char where "creturn \<equiv> CHR 0x0D"

lemma byte_val_less [simp]: "byte_val c < 256"
  by (rule nat_of_char_less_256)

lemma byte_chr_offset:
  assumes "k \<le> byte_val c"
  shows "byte_chr (k + (byte_val c - k)) = c"
  using assms by simp

lemma byte_val_eq_iff: "byte_val c = byte_val d \<longleftrightarrow> c = d"
  by (metis char_of_char)

subsection \<open>Stream codecs\<close>

text \<open>
  An encoder turns a value into a block of symbols; a decoder reads a whole stream of
  blocks.  The contract: the decoder reads one encoded block and goes on with the rest,
  and what it reads is the value up to \<open>norm\<close> (the identity for a lossless codec).
  Three layers of the program have this shape: UTF-8, UTF-16 and the newline-framed
  messages on the sockets and pipes.
\<close>

locale stream_codec =
  fixes enc :: "'a \<Rightarrow> 'b list"
    and dec_all :: "'b list \<Rightarrow> 'c list"
    and ok :: "'a \<Rightarrow> bool"
    and norm :: "'a \<Rightarrow> 'c"
  assumes dec_nil: "dec_all [] = []"
    and dec_block: "ok a \<Longrightarrow> dec_all (enc a @ rest) = norm a # dec_all rest"
begin

lemma dec_blocks:
  "(\<And>a. a \<in> set as \<Longrightarrow> ok a) \<Longrightarrow>
     dec_all (concat (map enc as) @ rest) = map norm as @ dec_all rest"
  by (induction as) (simp_all add: dec_block)

lemma dec_stream:
  "(\<And>a. a \<in> set as \<Longrightarrow> ok a) \<Longrightarrow> dec_all (concat (map enc as)) = map norm as"
  using dec_blocks [of as "[]"] by (simp add: dec_nil)

text \<open>Two streams of good blocks that look the same carry the same values.\<close>

lemma enc_stream_inject:
  assumes "\<And>a. a \<in> set as \<Longrightarrow> ok a" and "\<And>b. b \<in> set bs \<Longrightarrow> ok b"
    and "concat (map enc as) = concat (map enc bs)"
  shows "map norm as = map norm bs"
  using assms dec_stream [of as] dec_stream [of bs] by metis

end

subsection \<open>Lists\<close>

lemma takeWhile_block [simp]:
  "\<not> P x \<Longrightarrow> (\<And>y. y \<in> set xs \<Longrightarrow> P y) \<Longrightarrow> takeWhile P (xs @ x # ys) = xs"
  by (simp add: takeWhile_append2)

lemma dropWhile_block [simp]:
  "\<not> P x \<Longrightarrow> (\<And>y. y \<in> set xs \<Longrightarrow> P y) \<Longrightarrow> dropWhile P (xs @ x # ys) = x # ys"
  by (simp add: dropWhile_append2)

lemma map_of_filter_key:
  "map_of (filter (\<lambda>p. fst p \<noteq> k) xs) = (map_of xs)(k := None)"
  by (induction xs) (auto simp: fun_eq_iff)

lemma distinct_fst_filter:
  "distinct (map fst xs) \<Longrightarrow> distinct (map fst (filter P xs))"
  by (induction xs) auto

subsection \<open>Signed words\<close>

lemma sint_of_int_range:
  assumes "- (2 ^ (LENGTH('a::len) - 1)) \<le> i" and "i < 2 ^ (LENGTH('a) - 1)"
  shows "sint (word_of_int i :: 'a word) = i"
  using assms by (simp add: sint_sbintrunc' signed_take_bit_int_eq_self)

lemma sint64_range: "- (2 ^ 63) \<le> sint (w :: 64 word)" "sint (w :: 64 word) < 2 ^ 63"
  using sint_ge [of w] sint_lt [of w] by simp_all

lemma sint32_range: "- (2 ^ 31) \<le> sint (w :: 32 word)" "sint (w :: 32 word) < 2 ^ 31"
  using sint_ge [of w] sint_lt [of w] by simp_all

lemma sint_add_exact:
  fixes a b :: "'a::len word"
  assumes "- (2 ^ (LENGTH('a) - 1)) \<le> sint a + sint b" and "sint a + sint b < 2 ^ (LENGTH('a) - 1)"
  shows "sint (a + b) = sint a + sint b"
  using assms by (simp add: sint_word_add signed_take_bit_int_eq_self)

lemma sint_diff_exact:
  fixes a b :: "'a::len word"
  assumes "- (2 ^ (LENGTH('a) - 1)) \<le> sint a - sint b" and "sint a - sint b < 2 ^ (LENGTH('a) - 1)"
  shows "sint (a - b) = sint a - sint b"
  using assms by (simp add: sint_word_diff signed_take_bit_int_eq_self)

lemma sint_mult_exact:
  fixes a b :: "'a::len word"
  assumes "- (2 ^ (LENGTH('a) - 1)) \<le> sint a * sint b" and "sint a * sint b < 2 ^ (LENGTH('a) - 1)"
  shows "sint (a * b) = sint a * sint b"
  using assms by (simp add: sint_word_mult signed_take_bit_int_eq_self)

lemma sint_scast_up: "sint (scast (w :: int32) :: 64 word) = sint w"
  by (rule sint_up_scast) (simp add: is_up)

lemma sint_ucast_down:
  assumes "- (2 ^ 31) \<le> sint (w :: 64 word)" and "sint w < 2 ^ 31"
  shows "sint (ucast w :: int32) = sint w"
proof -
  have "(ucast w :: int32) = word_of_int (sint w)"
    by transfer (simp add: take_bit_signed_take_bit)
  moreover have "sint (word_of_int (sint w) :: int32) = sint w"
    by (rule sint_of_int_range) (use assms in simp_all)
  ultimately show ?thesis by (simp only:)
qed

end
