(* ===== verification/Utf.thy ===== *)
theory Utf
  imports Prelude
begin

text \<open>
  UTF-8 and UTF-16 as the Go program sees them.  \<open>decode_rune\<close> is the step of a
  \<open>for _, r := range s\<close> loop: an ill-formed byte yields U+FFFD and consumes one byte.
  \<open>chunks\<close> is the whole loop, keeping the bytes each rune came from; \<open>to_valid\<close> is what
  \<open>encoding/json\<close> makes of a string it writes.  \<open>utf16Units\<close> is the function of
  injector_windows.go that splits a rune into the UTF-16 units SendInput wants, and
  \<open>utf16_read\<close> is the reader on the other side (a Windows text control), used only to state
  that nothing is lost.
\<close>

subsection \<open>Decoding and encoding one rune\<close>

definition rune_error :: nat where
  "rune_error = 0xFFFD"

definition is_cont :: "nat \<Rightarrow> bool" where
  "is_cont b \<longleftrightarrow> 0x80 \<le> b \<and> b \<le> 0xBF"

definition lo3 :: "nat \<Rightarrow> nat" where "lo3 b = (if b = 0xE0 then 0xA0 else 0x80)"
definition hi3 :: "nat \<Rightarrow> nat" where "hi3 b = (if b = 0xED then 0x9F else 0xBF)"
definition lo4 :: "nat \<Rightarrow> nat" where "lo4 b = (if b = 0xF0 then 0x90 else 0x80)"
definition hi4 :: "nat \<Rightarrow> nat" where "hi4 b = (if b = 0xF4 then 0x8F else 0xBF)"

fun decode_rune :: "string \<Rightarrow> nat \<times> nat" where
  "decode_rune [] = (rune_error, 0)"
| "decode_rune (c0 # cs) =
    (let b0 = byte_val c0 in
     if b0 < 0x80 then (b0, 1)
     else if 0xC2 \<le> b0 \<and> b0 \<le> 0xDF then
       (case cs of
          c1 # _ \<Rightarrow>
            (if is_cont (byte_val c1)
             then ((b0 - 0xC0) * 64 + (byte_val c1 - 0x80), 2) else (rune_error, 1))
        | _ \<Rightarrow> (rune_error, 1))
     else if 0xE0 \<le> b0 \<and> b0 \<le> 0xEF then
       (case cs of
          c1 # c2 # _ \<Rightarrow>
            (if lo3 b0 \<le> byte_val c1 \<and> byte_val c1 \<le> hi3 b0 \<and> is_cont (byte_val c2)
             then ((b0 - 0xE0) * 4096 + (byte_val c1 - 0x80) * 64 + (byte_val c2 - 0x80), 3)
             else (rune_error, 1))
        | _ \<Rightarrow> (rune_error, 1))
     else if 0xF0 \<le> b0 \<and> b0 \<le> 0xF4 then
       (case cs of
          c1 # c2 # c3 # _ \<Rightarrow>
            (if lo4 b0 \<le> byte_val c1 \<and> byte_val c1 \<le> hi4 b0
                \<and> is_cont (byte_val c2) \<and> is_cont (byte_val c3)
             then ((b0 - 0xF0) * 262144 + (byte_val c1 - 0x80) * 4096
                   + (byte_val c2 - 0x80) * 64 + (byte_val c3 - 0x80), 4)
             else (rune_error, 1))
        | _ \<Rightarrow> (rune_error, 1))
     else (rune_error, 1))"

definition scalar :: "nat \<Rightarrow> bool" where
  "scalar r \<longleftrightarrow> r < 0xD800 \<or> (0xDFFF < r \<and> r \<le> 0x10FFFF)"

definition encode_rune :: "nat \<Rightarrow> string" where
  "encode_rune r =
    (if r < 0x80 then [byte_chr r]
     else if r < 0x800 then [byte_chr (0xC0 + r div 64), byte_chr (0x80 + r mod 64)]
     else if \<not> scalar r then [byte_chr 0xEF, byte_chr 0xBF, byte_chr 0xBD]
     else if r < 0x10000 then
       [byte_chr (0xE0 + r div 4096), byte_chr (0x80 + r div 64 mod 64), byte_chr (0x80 + r mod 64)]
     else
       [byte_chr (0xF0 + r div 262144), byte_chr (0x80 + r div 4096 mod 64),
        byte_chr (0x80 + r div 64 mod 64), byte_chr (0x80 + r mod 64)])"

lemma div_4096: "r div 4096 = r div 64 div (64::nat)"
  by (simp add: div_mult2_eq [symmetric])

lemma div_262144: "r div 262144 = r div 64 div 64 div (64::nat)"
  by (simp add: div_mult2_eq [symmetric])

lemma decode_encode_rune:
  assumes "scalar r"
  shows "decode_rune (encode_rune r @ s) = (r, length (encode_rune r))"
proof -
  define q where "q = r div 64"
  define p where "p = q div 64"
  have r: "q * 64 + r mod 64 = r" and q: "p * 64 + q mod 64 = q"
    and p: "p div 64 * 64 + p mod 64 = p"
    by (simp_all add: q_def p_def)
  have m: "r mod 64 \<le> 63" "q mod 64 \<le> 63" "p mod 64 \<le> 63"
    by (simp_all add: less_Suc_eq_le [symmetric])
  note d = div_4096 div_262144 q_def [symmetric] p_def [symmetric]
  consider (a) "r < 0x80" | (b) "0x80 \<le> r" "r < 0x800" | (c) "0x800 \<le> r" "r < 0x10000"
    | (d) "0x10000 \<le> r" "r \<le> 0x10FFFF"
    using assms by (force simp: scalar_def)
  then show ?thesis
  proof cases
    case a
    then show ?thesis by (simp add: encode_rune_def Let_def)
  next
    case b
    have "q < 32" "2 \<le> q" using b r m by linarith+
    then show ?thesis using b r m
      by (simp add: encode_rune_def Let_def is_cont_def d)
  next
    case c
    have "p < 16" using c r q m by linarith
    moreover have "p = 0 \<Longrightarrow> 32 \<le> q mod 64" using c r q m by linarith
    moreover have "p = 13 \<Longrightarrow> q mod 64 \<le> 31" using c r q m assms
      unfolding scalar_def by linarith
    moreover have "p * 4096 + q mod 64 * 64 + r mod 64 = r" using r q by linarith
    ultimately show ?thesis using c assms m
      by (simp add: encode_rune_def Let_def is_cont_def lo3_def hi3_def d)
  next
    case d4: d
    let ?k = "p div 64"
    have "?k \<le> 4" using d4 r q p m by linarith
    moreover have "?k = 0 \<Longrightarrow> 16 \<le> p mod 64" using d4 r q p m by linarith
    moreover have "?k = 4 \<Longrightarrow> p mod 64 \<le> 15" using d4 r q p m by linarith
    moreover have "?k * 262144 + p mod 64 * 4096 + q mod 64 * 64 + r mod 64 = r"
      using r q p by linarith
    ultimately show ?thesis using d4 assms m
      by (simp add: encode_rune_def Let_def is_cont_def lo4_def hi4_def d)
  qed
qed

lemma decode_rune_size: "s \<noteq> [] \<Longrightarrow> 1 \<le> snd (decode_rune s) \<and> snd (decode_rune s) \<le> length s"
  by (cases s) (auto simp: Let_def split: list.splits)

lemma decode_rune_progress:
  assumes "decode_rune s = (r, n)" and "s \<noteq> []"
  shows "length (drop n s) < length s"
  using assms decode_rune_size [OF assms(2)] by simp

lemma decode_rune_progress_Cons:
  "decode_rune (c # cs) = (r, n) \<Longrightarrow> length (drop n (c # cs)) < Suc (length cs)"
  using decode_rune_progress [of "c # cs"] by simp

lemma decode_rune_ascii:
  "byte_val c < (0x80::nat) \<Longrightarrow> decode_rune (c # cs) = (byte_val c, 1)"
  by simp

lemma encode_rune_2:
  assumes "2 \<le> a" "a < 32" "b < 64"
  shows "encode_rune (a * 64 + b) = [byte_chr (0xC0 + a), byte_chr (0x80 + b)]"
  using assms by (simp add: encode_rune_def)

lemma div_mod_64:
  assumes "c < (64::nat)"
  shows "(x * 64 + c) div 64 = x" "(x * 64 + c) mod 64 = c"
  using assms by simp_all

lemma encode_rune_3:
  assumes "a < 16" "b < 64" "c < 64" "a = 0 \<Longrightarrow> 32 \<le> b" "a = 13 \<Longrightarrow> b < 32"
  shows "encode_rune (a * 4096 + b * 64 + c)
           = [byte_chr (0xE0 + a), byte_chr (0x80 + b), byte_chr (0x80 + c)]
         \<and> scalar (a * 4096 + b * 64 + c)"
proof -
  let ?r = "a * 4096 + b * 64 + c"
  have r: "?r = (a * 64 + b) * 64 + c" by simp
  have "?r div 64 = a * 64 + b" "?r mod 64 = c"
    unfolding r using assms(3) by (rule div_mod_64)+
  moreover have "(a * 64 + b) div 64 = a" "(a * 64 + b) mod 64 = b"
    using assms(2) by (rule div_mod_64)+
  moreover have "scalar ?r"
  proof (cases "a \<le> 13")
    case True
    then have "a \<le> 12 \<or> a = 13" by arith
    then have "?r < 0xD800" using assms(2,3,5) by auto
    then show ?thesis by (simp add: scalar_def)
  next
    case False
    then have "0xDFFF < ?r" "?r \<le> 0x10FFFF" using assms(1-3) by auto
    then show ?thesis by (simp add: scalar_def)
  qed
  moreover have "0x800 \<le> ?r" using assms(4) by (cases "a = 0") auto
  moreover have "?r < 0x10000" using assms(1-3) by linarith
  ultimately show ?thesis
    by (simp add: encode_rune_def div_4096)
qed

lemma encode_rune_4:
  assumes "a \<le> 4" "b < 64" "c < 64" "d < 64" "a = 0 \<Longrightarrow> 16 \<le> b" "a = 4 \<Longrightarrow> b < 16"
  shows "encode_rune (a * 262144 + b * 4096 + c * 64 + d)
           = [byte_chr (0xF0 + a), byte_chr (0x80 + b), byte_chr (0x80 + c), byte_chr (0x80 + d)]
         \<and> scalar (a * 262144 + b * 4096 + c * 64 + d)"
proof -
  let ?r = "a * 262144 + b * 4096 + c * 64 + d"
  have r: "?r = (a * 4096 + b * 64 + c) * 64 + d" "a * 4096 + b * 64 + c = (a * 64 + b) * 64 + c"
    by simp_all
  have "?r div 64 = a * 4096 + b * 64 + c" "?r mod 64 = d"
    unfolding r(1) using assms(4) by (rule div_mod_64)+
  moreover have "(a * 4096 + b * 64 + c) div 64 = a * 64 + b" "(a * 4096 + b * 64 + c) mod 64 = c"
    unfolding r(2) using assms(3) by (rule div_mod_64)+
  moreover have "(a * 64 + b) div 64 = a" "(a * 64 + b) mod 64 = b"
    using assms(2) by (rule div_mod_64)+
  moreover have ge: "0x10000 \<le> ?r" using assms(5) by (cases "a = 0") auto
  moreover have "?r \<le> 0x10FFFF"
  proof (cases "a = 4")
    case True
    with assms show ?thesis by simp
  next
    case False
    then have "a \<le> 3" using assms(1) by simp
    with assms(2-4) show ?thesis by linarith
  qed
  then have "scalar ?r" using ge by (simp add: scalar_def)
  ultimately show ?thesis
    by (simp add: encode_rune_def div_4096 div_262144)
qed

lemma decode_rune_cases:
  assumes "decode_rune (c0 # cs) = (r, n)" and "r \<noteq> rune_error \<or> n \<noteq> 1"
  obtains (one) "byte_val c0 < (0x80::nat)" "r = byte_val c0" "n = 1"
    | (two) c1 t where "0xC2 \<le> (byte_val c0::nat)" "byte_val c0 \<le> (0xDF::nat)" "cs = c1 # t"
        "is_cont (byte_val c1)"
        "r = (byte_val c0 - 0xC0) * 64 + (byte_val c1 - 0x80)" "n = 2"
    | (three) c1 c2 t where "0xE0 \<le> (byte_val c0::nat)" "byte_val c0 \<le> (0xEF::nat)" "cs = c1 # c2 # t"
        "lo3 (byte_val c0) \<le> byte_val c1" "byte_val c1 \<le> hi3 (byte_val c0)" "is_cont (byte_val c2)"
        "r = (byte_val c0 - 0xE0) * 4096 + (byte_val c1 - 0x80) * 64 + (byte_val c2 - 0x80)" "n = 3"
    | (four) c1 c2 c3 t where "0xF0 \<le> (byte_val c0::nat)" "byte_val c0 \<le> (0xF4::nat)"
        "cs = c1 # c2 # c3 # t"
        "lo4 (byte_val c0) \<le> byte_val c1" "byte_val c1 \<le> hi4 (byte_val c0)" "is_cont (byte_val c2)"
        "is_cont (byte_val c3)"
        "r = (byte_val c0 - 0xF0) * 262144 + (byte_val c1 - 0x80) * 4096
             + (byte_val c2 - 0x80) * 64 + (byte_val c3 - 0x80)" "n = 4"
  using assms by (auto simp: Let_def split: list.splits if_splits)

lemma cont_range:
  assumes "0x80 \<le> v" "v \<le> (0xBF::nat)"
  shows "v - 0x80 < 64"
  using assms by linarith

lemma decode_rune_take:
  assumes "decode_rune s = (r, n)" and "s \<noteq> []" and "r \<noteq> rune_error \<or> n \<noteq> 1"
  shows "encode_rune r = take n s \<and> scalar r"
proof -
  obtain c0 cs where s: "s = c0 # cs" using assms(2) by (cases s) auto
  from assms(1) have "decode_rune (c0 # cs) = (r, n)" by (simp add: s)
  then show ?thesis using assms(3)
  proof (cases rule: decode_rune_cases)
    case one
    then show ?thesis by (simp add: s encode_rune_def scalar_def)
  next
    case (two c1 t)
    have v1: "0x80 \<le> (byte_val c1::nat)" "byte_val c1 - 0x80 < (64::nat)"
      using two(4) by (auto simp: is_cont_def intro: cont_range)
    have "encode_rune r = [c0, c1]"
      using two(1,2) v1 unfolding two(5) by (subst encode_rune_2) (auto simp: byte_chr_offset)
    moreover have "r < 0x800" using two(1,2) v1 unfolding two(5) by linarith
    ultimately show ?thesis by (simp add: s two scalar_def)
  next
    case (three c1 c2 t)
    have v: "0x80 \<le> (byte_val c1::nat)" "byte_val c1 \<le> (0xBF::nat)" "0x80 \<le> (byte_val c2::nat)"
        "byte_val c2 \<le> (0xBF::nat)"
      using three(4-6) by (auto simp: is_cont_def lo3_def hi3_def split: if_splits)
    have lim: "byte_val c0 = (0xE0::nat) \<Longrightarrow> 0xA0 \<le> (byte_val c1::nat)"
        "byte_val c0 = (0xED::nat) \<Longrightarrow> byte_val c1 \<le> (0x9F::nat)"
      using three(4,5) by (simp_all add: lo3_def hi3_def)
    have "encode_rune r = [byte_chr (0xE0 + (byte_val c0 - 0xE0)), byte_chr (0x80 + (byte_val c1 - 0x80)),
        byte_chr (0x80 + (byte_val c2 - 0x80))] \<and> scalar r"
      unfolding three(7)
      by (rule encode_rune_3) (use three(1,2) v lim in linarith)+
    then show ?thesis using three(1) v by (simp only: byte_chr_offset) (simp add: s three)
  next
    case (four c1 c2 c3 t)
    have v: "0x80 \<le> (byte_val c1::nat)" "byte_val c1 \<le> (0xBF::nat)" "0x80 \<le> (byte_val c2::nat)"
        "byte_val c2 \<le> (0xBF::nat)" "0x80 \<le> (byte_val c3::nat)" "byte_val c3 \<le> (0xBF::nat)"
      using four(4-7) by (auto simp: is_cont_def lo4_def hi4_def split: if_splits)
    have lim: "byte_val c0 = (0xF0::nat) \<Longrightarrow> 0x90 \<le> (byte_val c1::nat)"
        "byte_val c0 = (0xF4::nat) \<Longrightarrow> byte_val c1 \<le> (0x8F::nat)"
      using four(4,5) by (simp_all add: lo4_def hi4_def)
    have "encode_rune r = [byte_chr (0xF0 + (byte_val c0 - 0xF0)), byte_chr (0x80 + (byte_val c1 - 0x80)),
        byte_chr (0x80 + (byte_val c2 - 0x80)), byte_chr (0x80 + (byte_val c3 - 0x80))] \<and> scalar r"
      unfolding four(8)
      by (rule encode_rune_4) (use four(1,2) v lim in linarith)+
    then show ?thesis using four(1) v by (simp only: byte_chr_offset) (simp add: s four)
  qed
qed

lemma decode_rune_ill_formed:
  assumes "decode_rune (c # cs) = (r, n)" and "r = rune_error" and "n = 1"
  shows "0x80 \<le> (byte_val c :: nat)"
  using assms by (auto simp: Let_def rune_error_def split: if_splits)

declare decode_rune.simps [simp del]

subsection \<open>The range loop over a string\<close>

function chunks :: "string \<Rightarrow> (nat \<times> string) list" where
  "chunks s =
    (if s = [] then []
     else let (r, n) = decode_rune s in (r, take n s) # chunks (drop n s))"
  by pat_completeness auto
termination
  by (relation "measure length") (auto simp: decode_rune_progress [OF sym] simp del: length_drop)

declare chunks.simps [simp del]

definition runes :: "string \<Rightarrow> nat list" where
  "runes s = map fst (chunks s)"

definition to_valid :: "string \<Rightarrow> string" where
  "to_valid s = concat (map encode_rune (runes s))"

lemma chunks_Nil [simp]: "chunks [] = []"
  by (simp add: chunks.simps)

lemma chunks_step:
  assumes "decode_rune s = (r, n)" and "s \<noteq> []"
  shows "chunks s = (r, take n s) # chunks (drop n s)"
  using assms by (subst chunks.simps) simp

lemma chunks_ascii_Cons: "byte_val c < (0x80 :: nat) \<Longrightarrow> chunks (c # s) = (byte_val c, [c]) # chunks s"
  using chunks_step [of "c # s"] by (simp add: decode_rune_ascii)

lemma scalar_rune_error [simp]: "scalar rune_error"
  by (simp add: scalar_def rune_error_def)

lemma encode_rune_not_Nil [simp]: "encode_rune r \<noteq> []"
  by (simp add: encode_rune_def)

lemma chunks_encode_rune [codec_simps]:
  assumes "scalar r"
  shows "chunks (encode_rune r @ s) = (r, encode_rune r) # chunks s"
  by (subst chunks_step [OF decode_encode_rune [OF assms]]) simp_all

text \<open>A chunk is a well-formed rune with its encoding, or one stray byte read as U+FFFD.\<close>

lemma chunks_cases:
  assumes "(r, b) \<in> set (chunks s)"
  shows "scalar r \<and> (b = encode_rune r \<or> r = rune_error \<and> (\<exists>c. b = [c] \<and> 0x80 \<le> (byte_val c :: nat)))"
  using assms
proof (induction s rule: chunks.induct)
  case (1 s)
  obtain r' n where d: "decode_rune s = (r', n)" by fastforce
  from "1.prems" have s: "s \<noteq> []" by auto
  then obtain c cs where cs: "s = c # cs" by (cases s) auto
  from "1.prems" chunks_step [OF d s]
  consider "r = r'" "b = take n s" | "(r, b) \<in> set (chunks (drop n s))" by auto
  then show ?case
  proof cases
    case 1
    show ?thesis
    proof (cases "r' = rune_error \<and> n = 1")
      case True
      with d 1 cs show ?thesis
        using decode_rune_ill_formed [of c cs r' n] by auto
    next
      case False
      with decode_rune_take [OF d s] 1 show ?thesis by auto
    qed
  next
    case 2
    with "1.IH" [OF s d [symmetric]] show ?thesis by simp
  qed
qed

lemma concat_chunks [codec_simps]: "concat (map snd (chunks s)) = s"
proof (induction s rule: chunks.induct)
  case (1 s)
  show ?case
  proof (cases "s = []")
    case False
    obtain r n where d: "decode_rune s = (r, n)" by fastforce
    with chunks_step [OF d False] "1.IH" [OF False d [symmetric]] show ?thesis by simp
  qed simp
qed

lemma runes_scalar: "r \<in> set (runes s) \<Longrightarrow> scalar r"
  by (auto simp: runes_def dest: chunks_cases)

interpretation utf8: stream_codec encode_rune runes scalar id
proof
  show "runes [] = []" by (simp add: runes_def)
next
  fix r rest assume "scalar r"
  then show "runes (encode_rune r @ rest) = id r # runes rest"
    by (simp add: runes_def chunks_encode_rune)
qed

text \<open>Rewriting a string to valid UTF-8 does not change the runes a loop over it sees.\<close>

lemma runes_to_valid [codec_simps]: "runes (to_valid s) = runes s"
  unfolding to_valid_def using utf8.dec_stream [of "runes s"] runes_scalar by simp

lemma to_valid_idem [codec_simps]: "to_valid (to_valid s) = to_valid s"
  by (simp add: to_valid_def [of "to_valid s"] runes_to_valid) (simp add: to_valid_def)

subsection \<open>UTF-16\<close>

definition utf16Units :: "nat \<Rightarrow> uint16 list" where
  "utf16Units r =
    (if 0xFFFF < r
     then let r' = r - 0x10000
          in [word_of_nat (0xD800 + r' div 1024), word_of_nat (0xDC00 + r' mod 1024)]
     else [word_of_nat r])"

fun utf16_read :: "uint16 list \<Rightarrow> nat list" where
  "utf16_read [] = []"
| "utf16_read [u] = [unat u]"
| "utf16_read (u # v # us) =
    (if 0xD800 \<le> unat u \<and> unat u \<le> 0xDBFF \<and> 0xDC00 \<le> unat v \<and> unat v \<le> 0xDFFF
     then (0x10000 + (unat u - 0xD800) * 1024 + (unat v - 0xDC00)) # utf16_read us
     else unat u # utf16_read (v # us))"

lemma unat_word16: "n < 65536 \<Longrightarrow> unat (word_of_nat n :: uint16) = n"
  by (simp add: unat_of_nat)

lemma utf16_read_bmp:
  assumes "r < 0xD800 \<or> 0xDFFF < r" and "r \<le> 0xFFFF"
  shows "utf16_read (word_of_nat r # us) = r # utf16_read us"
  using assms by (cases us) (auto simp: unat_word16)

lemma utf16_read_pair:
  assumes "0xFFFF < r" and "r \<le> 0x10FFFF"
  shows "utf16_read (utf16Units r @ us) = r # utf16_read us"
proof -
  let ?r = "r - 0x10000"
  define u :: uint16 where "u = word_of_nat (0xD800 + ?r div 1024)"
  define v :: uint16 where "v = word_of_nat (0xDC00 + ?r mod 1024)"
  have hi: "?r div 1024 < 1024" using assms by auto
  have lo: "?r mod 1024 < 1024" by simp
  have sum: "?r div 1024 * 1024 + ?r mod 1024 = ?r" by (rule div_mult_mod_eq)
  have u: "unat u = 0xD800 + ?r div 1024" and v: "unat v = 0xDC00 + ?r mod 1024"
    unfolding u_def v_def using hi lo by (simp_all only: unat_word16)
  have units: "utf16Units r = [u, v]"
    using assms(1) unfolding utf16Units_def Let_def u_def v_def by simp
  have "0x10000 + ?r div 1024 * 1024 + ?r mod 1024 = r" using sum assms(1) by linarith
  moreover have "?r div 1024 \<le> 1023" "?r mod 1024 \<le> 1023" using hi lo by simp_all
  ultimately show ?thesis
    by (simp add: units u v)
qed

interpretation utf16: stream_codec utf16Units utf16_read scalar id
proof
  fix r us assume "scalar r"
  then show "utf16_read (utf16Units r @ us) = id r # utf16_read us"
    using utf16_read_bmp [of r us] utf16_read_pair [of r us]
    by (auto simp: scalar_def utf16Units_def)
qed simp

lemma utf16_read_runes [codec_simps]:
  "utf16_read (concat (map utf16Units (runes s))) = runes s"
  using utf16.dec_stream [of "runes s"] runes_scalar by simp

end
