(* ===== verification/Json.thy ===== *)
theory Json
  imports Utf "HOL-Library.Monad_Syntax"
begin

text \<open>
  The part of Go's \<open>encoding/json\<close> the program uses, written out so that what crosses the
  socket and the pipe is bytes: \<open>enc_json\<close> is \<open>Marshal\<close> (HTML-safe escapes, one
  \<open>\ufffd\<close> per ill-formed byte, members in the order given), \<open>parse_json\<close> is the reader
  behind \<open>Unmarshal\<close> (grammar, escapes, surrogate pairs, nesting limit 10000).  Numbers are
  kept as text, as the package does until it knows the field's type.  The readers take fuel;
  \<open>parse_json\<close> gives \<open>2 * length s + 2\<close>, and \<open>parse_json_complete\<close> shows that no text is
  rejected for want of it.
\<close>

datatype json =
    JNull
  | JBool bool
  | JNum string
  | JStr string
  | JArr "json list"
  | JObj "(string \<times> json) list"

subsection \<open>Writing\<close>

definition hex_digit :: "nat \<Rightarrow> char" where
  "hex_digit n = (if n < 10 then byte_chr (48 + n) else byte_chr (87 + n))"

definition esc_u00 :: "nat \<Rightarrow> string" where
  "esc_u00 b = [backslash, CHR ''u'', CHR ''0'', CHR ''0'', hex_digit (b div 16), hex_digit (b mod 16)]"

definition esc_ascii :: "nat \<Rightarrow> string" where
  "esc_ascii b =
    (if b = 0x22 then [backslash, dquote]
     else if b = 0x5C then [backslash, backslash]
     else if b = 0x08 then [backslash, CHR ''b'']
     else if b = 0x0C then [backslash, CHR ''f'']
     else if b = 0x0A then [backslash, CHR ''n'']
     else if b = 0x0D then [backslash, CHR ''r'']
     else if b = 0x09 then [backslash, CHR ''t'']
     else if b < 0x20 \<or> b = 0x3C \<or> b = 0x3E \<or> b = 0x26 then esc_u00 b
     else [byte_chr b])"

definition esc_chunk :: "nat \<times> string \<Rightarrow> string" where
  "esc_chunk = (\<lambda>(r, b).
     if r < 0x80 then esc_ascii r
     else if r = rune_error \<and> length b = 1 then backslash # ''ufffd''
     else if r = 0x2028 then backslash # ''u2028''
     else if r = 0x2029 then backslash # ''u2029''
     else b)"

definition enc_str :: "string \<Rightarrow> string" where
  "enc_str s = dquote # concat (map esc_chunk (chunks s)) @ [dquote]"

fun join :: "string list \<Rightarrow> string" where
  "join [] = []"
| "join [s] = s"
| "join (s # ss) = s @ CHR '','' # join ss"

fun enc_json :: "json \<Rightarrow> string" where
  "enc_json JNull = ''null''"
| "enc_json (JBool b) = (if b then ''true'' else ''false'')"
| "enc_json (JNum n) = n"
| "enc_json (JStr s) = enc_str s"
| "enc_json (JArr js) = CHR ''['' # join (map enc_json js) @ '']''"
| "enc_json (JObj kvs) =
     CHR ''{'' # join (map (\<lambda>(k, v). enc_str k @ CHR '':'' # enc_json v) kvs) @ ''}''"

subsection \<open>Reading\<close>

definition is_ws :: "char \<Rightarrow> bool" where
  "is_ws c \<longleftrightarrow> c = CHR '' '' \<or> c = CHR 0x09 \<or> c = creturn \<or> c = newline"

definition skip_ws :: "string \<Rightarrow> string" where
  "skip_ws s = dropWhile is_ws s"

definition expect :: "char \<Rightarrow> string \<Rightarrow> string option" where
  "expect c s = (case skip_ws s of [] \<Rightarrow> None | c' # r \<Rightarrow> if c' = c then Some r else None)"

definition hex_val :: "char \<Rightarrow> nat option" where
  "hex_val c =
    (let b = byte_val c in
     if 48 \<le> b \<and> b \<le> 57 then Some (b - 48)
     else if 97 \<le> b \<and> b \<le> 102 then Some (b - 87)
     else if 65 \<le> b \<and> b \<le> 70 then Some (b - 55)
     else None)"

fun getu4 :: "string \<Rightarrow> (nat \<times> string) option" where
  "getu4 (a # b # c # d # r) =
     do { h3 \<leftarrow> hex_val a; h2 \<leftarrow> hex_val b; h1 \<leftarrow> hex_val c; h0 \<leftarrow> hex_val d;
          Some (h3 * 4096 + h2 * 256 + h1 * 16 + h0, r) }"
| "getu4 _ = None"

text \<open>A high surrogate pairs with an escaped low one right after it, or becomes U+FFFD.\<close>

definition low_surrogate :: "string \<Rightarrow> (nat \<times> string) option" where
  "low_surrogate s =
    (case s of
       c # c' # r \<Rightarrow> if c = backslash \<and> c' = CHR ''u'' then
           (case getu4 r of
              Some (v, r') \<Rightarrow> if 0xDC00 \<le> v \<and> v \<le> 0xDFFF then Some (v, r') else None
            | None \<Rightarrow> None)
         else None
     | _ \<Rightarrow> None)"

definition read_u :: "string \<Rightarrow> (string \<times> string) option" where
  "read_u s =
    (case getu4 s of
       None \<Rightarrow> None
     | Some (v, r) \<Rightarrow>
         if 0xD800 \<le> v \<and> v \<le> 0xDFFF then
           (case (if v \<le> 0xDBFF then low_surrogate r else None) of
              Some (w, r') \<Rightarrow> Some (encode_rune (0x10000 + (v - 0xD800) * 1024 + (w - 0xDC00)), r')
            | None \<Rightarrow> Some (encode_rune rune_error, r))
         else Some (encode_rune v, r))"

definition read_escape :: "string \<Rightarrow> (string \<times> string) option" where
  "read_escape s =
    (case s of
       [] \<Rightarrow> None
     | c # cs \<Rightarrow>
         if c = dquote \<or> c = backslash \<or> c = CHR ''/'' then Some ([c], cs)
         else if c = CHR ''b'' then Some ([CHR 0x08], cs)
         else if c = CHR ''f'' then Some ([CHR 0x0C], cs)
         else if c = CHR ''n'' then Some ([newline], cs)
         else if c = CHR ''r'' then Some ([creturn], cs)
         else if c = CHR ''t'' then Some ([CHR 0x09], cs)
         else if c = CHR ''u'' then read_u cs
         else None)"

lemma getu4_length: "getu4 s = Some (v, r) \<Longrightarrow> length r < length s"
  by (induction s rule: getu4.induct) (auto split: Option.bind_splits)

lemma low_surrogate_length: "low_surrogate s = Some (v, r) \<Longrightarrow> length r < length s"
  by (auto simp: low_surrogate_def split: list.splits if_splits option.splits dest!: getu4_length)

lemma read_u_length:
  assumes "read_u s = Some (v, r)"
  shows "length r < length s"
proof (cases "getu4 s")
  case None
  with assms show ?thesis by (simp add: read_u_def)
next
  case (Some p)
  obtain w r' where p: "p = (w, r')" by (cases p)
  with Some have l: "length r' < length s" by (simp add: getu4_length)
  show ?thesis
  proof (cases "low_surrogate r'")
    case None
    with assms Some p l show ?thesis by (simp add: read_u_def split: if_splits)
  next
    case (Some q)
    obtain x r'' where "q = (x, r'')" by (cases q)
    with Some have "length r'' < length r'" by (simp add: low_surrogate_length)
    with assms Some \<open>getu4 s = Some p\<close> \<open>q = _\<close> p l show ?thesis
      by (simp add: read_u_def split: if_splits)
  qed
qed

lemma read_escape_length: "read_escape s = Some (v, r) \<Longrightarrow> length r < length s"
  by (auto simp: read_escape_def split: list.splits if_splits dest!: read_u_length)

function read_str :: "string \<Rightarrow> (string \<times> string) option" where
  "read_str s =
    (case s of
       [] \<Rightarrow> None
     | c # cs \<Rightarrow>
         if c = dquote then Some ([], cs)
         else if c = backslash then
           (case read_escape cs of
              None \<Rightarrow> None
            | Some (out, r) \<Rightarrow> map_option (apfst ((@) out)) (read_str r))
         else if byte_val c < (0x20::nat) then None
         else if byte_val c < (0x80::nat) then map_option (apfst ((#) c)) (read_str cs)
         else (case decode_rune s of (v, n) \<Rightarrow> map_option (apfst ((@) (encode_rune v))) (read_str (drop n s))))"
  by pat_completeness auto
termination
  by (relation "measure length")
    (auto simp: decode_rune_progress_Cons [OF sym] simp del: length_drop dest!: read_escape_length)

declare read_str.simps [simp del]

definition is_digit :: "char \<Rightarrow> bool" where
  "is_digit c \<longleftrightarrow> 48 \<le> (byte_val c :: nat) \<and> byte_val c \<le> (57 :: nat)"

definition read_digits :: "string \<Rightarrow> (string \<times> string) option" where
  "read_digits s =
    (case s of
       [] \<Rightarrow> None
     | c # _ \<Rightarrow> if is_digit c then Some (takeWhile is_digit s, dropWhile is_digit s) else None)"

definition read_int_part :: "string \<Rightarrow> (string \<times> string) option" where
  "read_int_part s =
    (case s of
       [] \<Rightarrow> None
     | c # cs \<Rightarrow> if c = CHR ''0'' then Some ([c], cs) else read_digits s)"

definition read_frac :: "string \<Rightarrow> (string \<times> string) option" where
  "read_frac s =
    (case s of
       c # cs \<Rightarrow> if c = CHR ''.'' then map_option (apfst ((#) c)) (read_digits cs) else Some ([], s)
     | [] \<Rightarrow> Some ([], []))"

definition read_exp :: "string \<Rightarrow> (string \<times> string) option" where
  "read_exp s =
    (case s of
       c # cs \<Rightarrow>
         if c = CHR ''e'' \<or> c = CHR ''E'' then
           (case cs of
              g # ds \<Rightarrow>
                if g = CHR ''+'' \<or> g = CHR ''-''
                then map_option (apfst (\<lambda>d. c # g # d)) (read_digits ds)
                else map_option (apfst ((#) c)) (read_digits cs)
            | [] \<Rightarrow> None)
         else Some ([], s)
     | [] \<Rightarrow> Some ([], []))"

definition read_num :: "string \<Rightarrow> (string \<times> string) option" where
  "read_num s =
    (let (sign, s1) = (case s of c # cs \<Rightarrow> if c = CHR ''-'' then ([c], cs) else ([], s) | [] \<Rightarrow> ([], s))
     in do {
       (i, s2) \<leftarrow> read_int_part s1;
       (f, s3) \<leftarrow> read_frac s2;
       (e, s4) \<leftarrow> read_exp s3;
       Some (sign @ i @ f @ e, s4)
     })"

fun read_lit :: "string \<Rightarrow> json \<Rightarrow> string \<Rightarrow> (json \<times> string) option" where
  "read_lit [] v s = Some (v, s)"
| "read_lit (c # cs) v s = (case s of [] \<Rightarrow> None | c' # r \<Rightarrow> if c' = c then read_lit cs v r else None)"

fun read_value :: "nat \<Rightarrow> nat \<Rightarrow> string \<Rightarrow> (json \<times> string) option"
  and read_elems :: "nat \<Rightarrow> nat \<Rightarrow> string \<Rightarrow> (json list \<times> string) option"
  and read_members :: "nat \<Rightarrow> nat \<Rightarrow> string \<Rightarrow> ((string \<times> json) list \<times> string) option"
where
  "read_value 0 d s = None"
| "read_value (Suc f) d s =
    (case skip_ws s of
       [] \<Rightarrow> None
     | c # cs \<Rightarrow>
         if c = CHR ''{'' then
           (if d = 0 then None
            else case expect (CHR ''}'') cs of
                Some r \<Rightarrow> Some (JObj [], r)
              | None \<Rightarrow> map_option (apfst JObj) (read_members f (d - 1) cs))
         else if c = CHR ''['' then
           (if d = 0 then None
            else case expect (CHR '']'') cs of
                Some r \<Rightarrow> Some (JArr [], r)
              | None \<Rightarrow> map_option (apfst JArr) (read_elems f (d - 1) cs))
         else if c = dquote then map_option (apfst JStr) (read_str cs)
         else if c = CHR ''t'' then read_lit ''true'' (JBool True) (c # cs)
         else if c = CHR ''f'' then read_lit ''false'' (JBool False) (c # cs)
         else if c = CHR ''n'' then read_lit ''null'' JNull (c # cs)
         else map_option (apfst JNum) (read_num (c # cs)))"
| "read_elems 0 d s = None"
| "read_elems (Suc f) d s =
     do {
       (v, r) \<leftarrow> read_value f d s;
       case expect (CHR '','') r of
         Some r' \<Rightarrow> map_option (apfst ((#) v)) (read_elems f d r')
       | None \<Rightarrow> map_option (Pair [v]) (expect (CHR '']'') r)
     }"
| "read_members 0 d s = None"
| "read_members (Suc f) d s =
     do {
       s1 \<leftarrow> expect dquote s;
       (k, s2) \<leftarrow> read_str s1;
       s3 \<leftarrow> expect (CHR '':'') s2;
       (v, r) \<leftarrow> read_value f d s3;
       case expect (CHR '','') r of
         Some r' \<Rightarrow> map_option (apfst ((#) (k, v))) (read_members f d r')
       | None \<Rightarrow> map_option (Pair [(k, v)]) (expect (CHR ''}'') r)
     }"

definition max_depth :: nat where
  "max_depth = 10000"

definition parse_json :: "string \<Rightarrow> json option" where
  "parse_json s =
    (case read_value (2 * length s + 2) max_depth s of
       Some (v, r) \<Rightarrow> if skip_ws r = [] then Some v else None
     | None \<Rightarrow> None)"

subsection \<open>Strings round trip\<close>

lemma hex_val_digit: "n < 16 \<Longrightarrow> hex_val (hex_digit n) = Some n"
  by (auto simp: hex_val_def hex_digit_def Let_def)

lemma read_str_plain:
  assumes "c \<noteq> dquote" "c \<noteq> backslash" "0x20 \<le> (byte_val c :: nat)" "byte_val c < (0x80 :: nat)"
  shows "read_str (c # t) = map_option (apfst ((#) c)) (read_str t)"
  using assms by (subst read_str.simps) simp

lemma read_str_escape:
  assumes "read_escape cs = Some (out, t)"
  shows "read_str (backslash # cs) = map_option (apfst ((@) out)) (read_str t)"
  using assms by (subst read_str.simps) simp

lemma read_str_quote: "read_str (dquote # t) = Some ([], t)"
  by (subst read_str.simps) simp

lemma read_str_rune:
  assumes "scalar r" "0x80 \<le> r"
  shows "read_str (encode_rune r @ t) = map_option (apfst ((@) (encode_rune r))) (read_str t)"
proof -
  obtain c cs where c: "encode_rune r @ t = c # cs"
    by (metis append_is_Nil_conv encode_rune_not_Nil list.exhaust)
  have "0x80 \<le> (byte_val c :: nat)"
  proof (rule ccontr)
    assume "\<not> ?thesis"
    then have "decode_rune (c # cs) = (byte_val c, 1)" by (simp add: decode_rune_ascii)
    with decode_encode_rune [OF assms(1), of t] assms(2) \<open>\<not> ?thesis\<close> show False
      unfolding c by simp
  qed
  then have "read_str (c # cs) =
      map_option (apfst ((@) (encode_rune r))) (read_str (drop (length (encode_rune r)) (c # cs)))"
    using decode_encode_rune [OF assms(1), of t] unfolding c
    by (subst read_str.simps) auto
  then show ?thesis by (simp flip: c)
qed

lemma read_u_plain:
  assumes "getu4 s = Some (v, t)" "v < 0xD800 \<or> 0xDFFF < v"
  shows "read_u s = Some (encode_rune v, t)"
  using assms by (auto simp: read_u_def)

lemma read_esc_u00:
  assumes "b < 0x80"
  shows "read_str (esc_u00 b @ t) = map_option (apfst ((@) (encode_rune b))) (read_str t)"
proof -
  have "getu4 (CHR ''0'' # CHR ''0'' # hex_digit (b div 16) # hex_digit (b mod 16) # t) = Some (b, t)"
    using assms by (simp add: hex_val_digit) (simp add: hex_val_def)
  then have "read_escape (CHR ''u'' # CHR ''0'' # CHR ''0'' # hex_digit (b div 16) # hex_digit (b mod 16) # t)
      = Some (encode_rune b, t)"
    using assms by (simp add: read_escape_def read_u_plain)
  then show ?thesis by (simp add: esc_u00_def read_str_escape)
qed

lemma append_single: "(@) [c] = (#) c"
  by (simp add: fun_eq_iff)

lemma encode_rune_ascii: "b < 0x80 \<Longrightarrow> encode_rune b = [byte_chr b]"
  by (simp add: encode_rune_def)

lemma read_esc_ascii:
  assumes "b < 0x80"
  shows "read_str (esc_ascii b @ t) = map_option (apfst ((@) (encode_rune b))) (read_str t)"
proof (cases "b = 0x22 \<or> b = 0x5C \<or> b = 0x08 \<or> b = 0x0C \<or> b = 0x0A \<or> b = 0x0D \<or> b = 0x09")
  case True
  then show ?thesis
    by (elim disjE) (simp_all add: esc_ascii_def read_str_escape read_escape_def encode_rune_def
        char_of_def bit_numeral_rec bit_0)
next
  case False
  show ?thesis
  proof (cases "b < 0x20 \<or> b = 0x3C \<or> b = 0x3E \<or> b = 0x26")
    case True
    with False show ?thesis by (simp add: esc_ascii_def read_esc_u00 [OF assms])
  next
    case small: False
    have bv: "(byte_val (byte_chr b) :: nat) = b" using assms by simp
    have "byte_chr b \<noteq> dquote" "byte_chr b \<noteq> backslash"
      using False bv by (auto simp flip: byte_val_eq_iff)
    with False small bv assms show ?thesis
      by (simp add: esc_ascii_def read_str_plain encode_rune_ascii append_single)
  qed
qed

lemma read_esc_fffd:
  "read_str (backslash # ''ufffd'' @ t) = map_option (apfst ((@) (encode_rune rune_error))) (read_str t)"
proof -
  have "getu4 (''fffd'' @ t) = Some (rune_error, t)" by (simp add: hex_val_def rune_error_def)
  then have "read_escape (CHR ''u'' # ''fffd'' @ t) = Some (encode_rune rune_error, t)"
    using read_u_plain [of "''fffd'' @ t" rune_error t] by (simp add: read_escape_def rune_error_def)
  then show ?thesis by (simp add: read_str_escape)
qed

lemma read_esc_separator:
  assumes "r = 0x2028 \<and> d = CHR ''8'' \<or> r = 0x2029 \<and> d = CHR ''9''"
  shows "read_str (backslash # ''u202'' @ d # t) = map_option (apfst ((@) (encode_rune r))) (read_str t)"
proof -
  have "getu4 (''202'' @ d # t) = Some (r, t)" using assms by (auto simp: hex_val_def)
  then have "read_escape (CHR ''u'' # ''202'' @ d # t) = Some (encode_rune r, t)"
    using read_u_plain [of "''202'' @ d # t" r t] assms by (auto simp: read_escape_def)
  then show ?thesis by (simp add: read_str_escape)
qed

lemma read_esc_chunk:
  assumes "(r, b) \<in> set (chunks s)"
  shows "read_str (esc_chunk (r, b) @ t) = map_option (apfst ((@) (encode_rune r))) (read_str t)"
proof -
  from chunks_cases [OF assms]
  have r: "scalar r" and b: "b = encode_rune r \<or> r = rune_error \<and> length b = 1" by auto
  consider (ascii) "r < 0x80" | (bad) "0x80 \<le> r" "r = rune_error" "length b = 1"
    | (sep) "r = 0x2028 \<or> r = 0x2029" | (copy) "0x80 \<le> r" "\<not> (r = rune_error \<and> length b = 1)"
        "r \<noteq> 0x2028" "r \<noteq> 0x2029"
    by linarith
  then show ?thesis
  proof cases
    case ascii
    then show ?thesis by (simp add: esc_chunk_def read_esc_ascii)
  next
    case bad
    then show ?thesis using read_esc_fffd [of t] by (simp add: esc_chunk_def)
  next
    case sep
    then show ?thesis
      using read_esc_separator [of r "CHR ''8''" t] read_esc_separator [of r "CHR ''9''" t]
      by (auto simp: esc_chunk_def rune_error_def)
  next
    case copy
    with b have "b = encode_rune r" by blast
    with copy(1,2) have "\<not> (r = rune_error \<and> length b = 1)" by simp
    with copy r \<open>b = _\<close> show ?thesis
      by (simp only: esc_chunk_def prod.case if_not_P not_less) (simp add: read_str_rune)
  qed
qed

lemma read_enc_str_chunks:
  assumes "set ps \<subseteq> set (chunks s)"
  shows "read_str (concat (map esc_chunk ps) @ dquote # t) = Some (concat (map (encode_rune \<circ> fst) ps), t)"
  using assms
proof (induction ps)
  case Nil
  show ?case by (simp add: read_str_quote)
next
  case (Cons p ps)
  obtain r b where p: "p = (r, b)" by (cases p)
  with Cons show ?case by (simp add: read_esc_chunk [of r b s])
qed

lemma read_enc_str [codec_simps]:
  "read_str (concat (map esc_chunk (chunks s)) @ dquote # t) = Some (to_valid s, t)"
  using read_enc_str_chunks [of "chunks s" s t]
  by (simp add: to_valid_def runes_def comp_def)

subsection \<open>Integers\<close>

fun dec_digits :: "nat \<Rightarrow> string" where
  "dec_digits n =
    (if n < 10 then [byte_chr (48 + n)] else dec_digits (n div 10) @ [byte_chr (48 + n mod 10)])"

declare dec_digits.simps [simp del]

definition fmt_int :: "int \<Rightarrow> string" where
  "fmt_int i = (if i < 0 then CHR ''-'' # dec_digits (nat (- i)) else dec_digits (nat i))"

definition digits_val :: "string \<Rightarrow> nat" where
  "digits_val s = foldl (\<lambda>a c. a * 10 + (byte_val c - 48)) 0 s"

definition parse_int :: "string \<Rightarrow> int option" where
  "parse_int s =
    (let neg = (s \<noteq> [] \<and> hd s = CHR ''-'');
         ds = (if s \<noteq> [] \<and> (hd s = CHR ''-'' \<or> hd s = CHR ''+'') then tl s else s)
     in if ds = [] \<or> \<not> list_all is_digit ds then None
        else let v = int (digits_val ds)
             in if neg then (if v \<le> 2 ^ 63 then Some (- v) else None)
                else if v < 2 ^ 63 then Some v else None)"

lemma is_digit_chr: "n < 10 \<Longrightarrow> is_digit (byte_chr (48 + n))"
  by (simp add: is_digit_def)

lemma dec_digits_digits: "c \<in> set (dec_digits n) \<Longrightarrow> is_digit c"
proof (induction n rule: dec_digits.induct)
  case (1 n)
  then show ?case
    by (subst (asm) dec_digits.simps) (auto simp: is_digit_chr simp del: of_char_of split: if_splits)
qed

lemma dec_digits_not_Nil [simp]: "dec_digits n \<noteq> []"
  by (subst dec_digits.simps) simp

lemma dec_digits_zero: "hd (dec_digits n) = CHR ''0'' \<Longrightarrow> n = 0"
proof (induction n rule: dec_digits.induct)
  case (1 n)
  show ?case
  proof (cases "n < 10")
    case True
    with "1.prems" have "byte_chr (48 + n) = CHR ''0''" by (subst (asm) dec_digits.simps) simp
    then have "(byte_val (byte_chr (48 + n)) :: nat) = byte_val (CHR ''0'')" by simp
    with True show ?thesis by simp
  next
    case False
    with "1.prems" have "hd (dec_digits (n div 10)) = CHR ''0''" by (subst (asm) dec_digits.simps) simp
    with "1.IH" [OF False] False show ?thesis by simp
  qed
qed

lemma digits_val_snoc: "digits_val (s @ [c]) = digits_val s * 10 + (byte_val c - 48)"
  by (simp add: digits_val_def)

lemma digits_val_dec [codec_simps]: "digits_val (dec_digits n) = n"
proof (induction n rule: dec_digits.induct)
  case (1 n)
  show ?case
  proof (cases "n < 10")
    case True
    then show ?thesis by (subst dec_digits.simps) (simp add: digits_val_def)
  next
    case False
    with 1 show ?thesis by (subst dec_digits.simps) (simp add: digits_val_snoc)
  qed
qed

lemma dec_digits_hd: "\<exists>c cs. dec_digits n = c # cs \<and> is_digit c"
  by (metis dec_digits_digits dec_digits_not_Nil list.exhaust list.set_intros(1))

lemma is_digit_sign: "is_digit c \<Longrightarrow> c \<noteq> CHR ''-'' \<and> c \<noteq> CHR ''+'' \<and> c \<noteq> CHR ''.'' \<and> c \<noteq> CHR ''e'' \<and> c \<noteq> CHR ''E''"
  by (auto simp: is_digit_def)

lemma parse_fmt_int [codec_simps]:
  assumes "- (2 ^ 63) \<le> i" "i < 2 ^ 63"
  shows "parse_int (fmt_int i) = Some i"
proof -
  have all: "list_all is_digit (dec_digits n)" for n
    by (auto simp: list_all_iff dec_digits_digits)
  obtain c cs where c: "dec_digits (nat i) = c # cs" "is_digit c" using dec_digits_hd by blast
  show ?thesis
  proof (cases "i < 0")
    case True
    with assms(1) all show ?thesis
      by (simp add: parse_int_def fmt_int_def Let_def digits_val_dec)
  next
    case False
    with assms(2) all [of "nat i"] c is_digit_sign [of c] digits_val_dec [of "nat i"] show ?thesis
      by (simp add: parse_int_def fmt_int_def Let_def)
  qed
qed

definition num_end :: "string \<Rightarrow> bool" where
  "num_end t \<longleftrightarrow> (case t of [] \<Rightarrow> True
     | c # _ \<Rightarrow> \<not> is_digit c \<and> c \<noteq> CHR ''.'' \<and> c \<noteq> CHR ''e'' \<and> c \<noteq> CHR ''E'')"

lemma read_frac_end: "num_end t \<Longrightarrow> read_frac t = Some ([], t)"
  by (cases t) (auto simp: read_frac_def num_end_def)

lemma read_exp_end: "num_end t \<Longrightarrow> read_exp t = Some ([], t)"
  by (cases t) (auto simp: read_exp_def num_end_def)

lemma read_int_dec:
  assumes "num_end t"
  shows "read_int_part (dec_digits n @ t) = Some (dec_digits n, t)"
proof -
  obtain c cs where c: "dec_digits n = c # cs" "is_digit c" using dec_digits_hd by blast
  show ?thesis
  proof (cases "c = CHR ''0''")
    case True
    then have "n = 0" using dec_digits_zero [of n] c by simp
    then have "dec_digits n = ''0''" by (subst dec_digits.simps) (simp add: char_of_def bit_numeral_rec bit_0)
    then show ?thesis by (simp add: read_int_part_def)
  next
    case False
    have "takeWhile is_digit (dec_digits n @ t) = dec_digits n"
      and "dropWhile is_digit (dec_digits n @ t) = t"
      using assms dec_digits_digits [of _ n]
      by (cases t; simp add: takeWhile_append2 dropWhile_append2 num_end_def)+
    with c False show ?thesis by (simp add: read_int_part_def read_digits_def)
  qed
qed

lemma read_num_int [codec_simps]:
  assumes "num_end t"
  shows "read_num (fmt_int i @ t) = Some (fmt_int i, t)"
proof -
  obtain c cs where c: "dec_digits (nat i) = c # cs" "is_digit c" using dec_digits_hd by blast
  with is_digit_sign [OF c(2)] read_int_dec [OF assms, of "nat i"] show ?thesis
    by (simp add: read_num_def fmt_int_def read_int_dec [OF assms] read_frac_end [OF assms]
        read_exp_end [OF assms])
qed


subsection \<open>Values\<close>

fun wf_json :: "json \<Rightarrow> bool" where
  "wf_json (JNum n) \<longleftrightarrow> (\<exists>i. n = fmt_int i)"
| "wf_json (JArr js) \<longleftrightarrow> (\<forall>j \<in> set js. wf_json j)"
| "wf_json (JObj kvs) \<longleftrightarrow> (\<forall>(k, v) \<in> set kvs. wf_json v)"
| "wf_json _ \<longleftrightarrow> True"

fun clean :: "json \<Rightarrow> json" where
  "clean (JStr s) = JStr (to_valid s)"
| "clean (JArr js) = JArr (map clean js)"
| "clean (JObj kvs) = JObj (map (\<lambda>(k, v). (to_valid k, clean v)) kvs)"
| "clean j = j"

fun jdepth :: "json \<Rightarrow> nat" where
  "jdepth (JArr js) = Suc (foldr (max \<circ> jdepth) js 0)"
| "jdepth (JObj kvs) = Suc (foldr (\<lambda>(k, v). max (jdepth v)) kvs 0)"
| "jdepth _ = 0"

lemma foldr_max_le: "j \<in> set js \<Longrightarrow> f j \<le> foldr (max \<circ> f) js (0::nat)"
  by (induction js) auto

lemma foldr_max_snd_le: "(k, v) \<in> set kvs \<Longrightarrow> f v \<le> foldr (\<lambda>(k, v). max (f v)) kvs (0::nat)"
  by (induction kvs) auto

lemma skip_ws_Cons [simp]: "\<not> is_ws c \<Longrightarrow> skip_ws (c # cs) = c # cs"
  by (simp add: skip_ws_def)

lemma skip_ws_Nil [simp]: "skip_ws [] = []"
  by (simp add: skip_ws_def)

lemma expect_hit [simp]: "\<not> is_ws c \<Longrightarrow> expect c (c # t) = Some t"
  by (simp add: expect_def)

lemma expect_miss [simp]: "\<not> is_ws c' \<Longrightarrow> c' \<noteq> c \<Longrightarrow> expect c (c' # t) = None"
  by (simp add: expect_def)

lemma is_ws_punct [simp]:
  "\<not> is_ws dquote" "\<not> is_ws (CHR '','')" "\<not> is_ws (CHR '':'')" "\<not> is_ws (CHR ''{'')"
  "\<not> is_ws (CHR ''}'')" "\<not> is_ws (CHR ''['')" "\<not> is_ws (CHR '']'')"
  "\<not> is_ws (CHR ''n'')" "\<not> is_ws (CHR ''t'')" "\<not> is_ws (CHR ''f'')" "\<not> is_ws (CHR ''-'')"
  by (simp_all add: is_ws_def)

lemma is_ws_digit [simp]: "is_digit c \<Longrightarrow> \<not> is_ws c"
  by (auto simp: is_ws_def is_digit_def)

lemma num_end_punct [simp]: "num_end (CHR '','' # t)" "num_end (CHR ''}'' # t)" "num_end (CHR '']'' # t)"
    "num_end []"
  by (simp_all add: num_end_def is_digit_def)

lemma fmt_int_hd: "\<exists>c cs. fmt_int i = c # cs \<and> (c = CHR ''-'' \<or> is_digit c)"
  using dec_digits_hd [of "nat i"] by (auto simp: fmt_int_def)

lemma read_value_num:
  assumes "num_end t"
  shows "read_value (Suc f) d (fmt_int i @ t) = Some (JNum (fmt_int i), t)"
proof -
  obtain c cs where c: "fmt_int i = c # cs" "c = CHR ''-'' \<or> is_digit c" using fmt_int_hd by blast
  then have ws: "\<not> is_ws c" and ne: "c \<noteq> CHR ''{''" "c \<noteq> CHR ''[''" "c \<noteq> dquote" "c \<noteq> CHR ''t''"
      "c \<noteq> CHR ''f''" "c \<noteq> CHR ''n''"
    by (auto simp: is_digit_def)
  have "read_num (c # cs @ t) = Some (fmt_int i, t)"
    using read_num_int [OF assms, of i] by (simp add: c)
  with ws ne c show ?thesis by simp
qed

text \<open>The value readers agree with the writer, list elements and object members included.\<close>

definition reads_back :: "json \<Rightarrow> bool" where
  "reads_back j \<longleftrightarrow> (\<forall>f d t. wf_json j \<longrightarrow> jdepth j \<le> d \<longrightarrow> 2 * length (enc_json j) + 1 \<le> f \<longrightarrow>
     num_end t \<longrightarrow> read_value f d (enc_json j @ t) = Some (clean j, t))"

lemma reads_backD:
  assumes "reads_back j" "wf_json j" "jdepth j \<le> d" "2 * length (enc_json j) + 1 \<le> f" "num_end t"
  shows "read_value f d (enc_json j @ t) = Some (clean j, t)"
  using assms by (simp add: reads_back_def)

lemma read_elems_join:
  assumes "js \<noteq> []" "\<And>j. j \<in> set js \<Longrightarrow> reads_back j \<and> wf_json j \<and> jdepth j \<le> d"
    and "2 * length (join (map enc_json js)) + 2 \<le> f"
  shows "read_elems f d (join (map enc_json js) @ CHR '']'' # t) = Some (map clean js, t)"
  using assms
proof (induction js arbitrary: f)
  case (Cons j js)
  obtain f' where f: "f = Suc f'" using Cons.prems(3) by (cases f) auto
  have j: "reads_back j" "wf_json j" "jdepth j \<le> d" using Cons.prems(2) by auto
  show ?case
  proof (cases js)
    case Nil
    with Cons.prems(3) f reads_backD [OF j, of f' "CHR '']'' # t"] show ?thesis by simp
  next
    case (Cons j' js')
    let ?rest = "join (map enc_json js) @ CHR '']'' # t"
    have len: "2 * length (enc_json j) + 2 * length (join (map enc_json js)) + 4 \<le> f"
      using Cons.prems(3) Cons by simp
    have "read_value f' d (enc_json j @ CHR '','' # ?rest) = Some (clean j, CHR '','' # ?rest)"
      using len f by (intro reads_backD j) simp_all
    moreover have "read_elems f' d ?rest = Some (map clean js, t)"
      using len f Cons by (intro Cons.IH) (use Cons.prems(2) in auto)
    ultimately show ?thesis using f Cons by simp
  qed
qed simp

lemma read_members_join:
  assumes "kvs \<noteq> []" "\<And>k v. (k, v) \<in> set kvs \<Longrightarrow> reads_back v \<and> wf_json v \<and> jdepth v \<le> d"
    and "2 * length (join (map (\<lambda>(k, v). enc_str k @ CHR '':'' # enc_json v) kvs)) + 2 \<le> f"
  shows "read_members f d (join (map (\<lambda>(k, v). enc_str k @ CHR '':'' # enc_json v) kvs) @ CHR ''}'' # t)
           = Some (map (\<lambda>(k, v). (to_valid k, clean v)) kvs, t)"
  using assms
proof (induction kvs arbitrary: f)
  case (Cons kv kvs)
  obtain k v where kv: "kv = (k, v)" by (cases kv)
  obtain f' where f: "f = Suc f'" using Cons.prems(3) by (cases f) auto
  have j: "reads_back v" "wf_json v" "jdepth v \<le> d" using Cons.prems(2) [of k v] kv by auto
  note key = enc_str_def expect_hit read_enc_str
  show ?case
  proof (cases kvs)
    case Nil
    have "read_value f' d (enc_json v @ CHR ''}'' # t) = Some (clean v, CHR ''}'' # t)"
      using Cons.prems(3) f Nil by (intro reads_backD j) (simp_all add: kv)
    then show ?thesis using f Nil by (simp add: kv enc_str_def read_enc_str)
  next
    case more: (Cons kv' kvs')
    let ?rest = "join (map (\<lambda>(k, v). enc_str k @ CHR '':'' # enc_json v) kvs) @ CHR ''}'' # t"
    have len: "2 * length (enc_json v)
        + 2 * length (join (map (\<lambda>(k, v). enc_str k @ CHR '':'' # enc_json v) kvs)) + 4 \<le> f"
      using Cons.prems(3) more by (simp add: kv)
    have "read_value f' d (enc_json v @ CHR '','' # ?rest) = Some (clean v, CHR '','' # ?rest)"
      using len f by (intro reads_backD j) simp_all
    moreover have "read_members f' d ?rest = Some (map (\<lambda>(k, v). (to_valid k, clean v)) kvs, t)"
      using len f more by (intro Cons.IH) (use Cons.prems(2) in auto)
    ultimately show ?thesis using f more by (simp add: kv enc_str_def read_enc_str)
  qed
qed simp

lemma enc_json_hd:
  assumes "wf_json j"
  shows "\<exists>c cs. enc_json j = c # cs \<and> \<not> is_ws c \<and> c \<noteq> CHR '']''"
proof (cases j)
  case (JNum n)
  then obtain i where "n = fmt_int i" using assms by auto
  then show ?thesis using fmt_int_hd [of i] JNum by (auto simp: is_digit_def is_ws_def)
qed (simp_all add: enc_str_def)

lemma join_Cons_hd: "s = c # cs \<Longrightarrow> \<exists>cs'. join (s # ss) = c # cs'"
  by (cases ss) auto

lemma expect_other:
  "s = c' # cs \<Longrightarrow> \<not> is_ws c' \<Longrightarrow> c' \<noteq> c \<Longrightarrow> expect c (s @ t) = None"
  by simp

lemma reads_back_arr:
  assumes "\<And>j. j \<in> set js \<Longrightarrow> reads_back j"
  shows "reads_back (JArr js)"
  unfolding reads_back_def
proof (intro allI impI)
  fix f d t
  assume wf: "wf_json (JArr js)" and d: "jdepth (JArr js) \<le> d"
    and f: "2 * length (enc_json (JArr js)) + 1 \<le> f" and "num_end t"
  obtain f' where f': "f = Suc f'" using f by (cases f) auto
  obtain d' where d': "d = Suc d'" using d by (cases d) auto
  show "read_value f d (enc_json (JArr js) @ t) = Some (clean (JArr js), t)"
  proof (cases js)
    case Nil
    then show ?thesis by (simp add: f' d')
  next
    case (Cons j js')
    have "read_elems f' d' (join (map enc_json js) @ CHR '']'' # t) = Some (map clean js, t)"
    proof (rule read_elems_join)
      fix k assume "k \<in> set js"
      then show "reads_back k \<and> wf_json k \<and> jdepth k \<le> d'"
        using assms wf d foldr_max_le [of k js jdepth] by (auto simp: d')
    qed (use f f' Cons in auto)
    moreover have "expect (CHR '']'') (join (map enc_json js) @ CHR '']'' # t) = None"
    proof -
      have "wf_json j" using wf Cons by simp
      then obtain c cs where c: "enc_json j = c # cs" "\<not> is_ws c" "c \<noteq> CHR '']''"
        using enc_json_hd by blast
      then obtain cs' where "join (enc_json j # map enc_json js') = c # cs'"
        using join_Cons_hd by blast
      then have "join (map enc_json js) = c # cs'" using Cons by simp
      then show ?thesis using c(2,3) by (rule expect_other)
    qed
    ultimately show ?thesis by (simp add: f' d')
  qed
qed

lemma reads_back_obj:
  assumes "\<And>k v. (k, v) \<in> set kvs \<Longrightarrow> reads_back v"
  shows "reads_back (JObj kvs)"
  unfolding reads_back_def
proof (intro allI impI)
  fix f d t
  assume wf: "wf_json (JObj kvs)" and d: "jdepth (JObj kvs) \<le> d"
    and f: "2 * length (enc_json (JObj kvs)) + 1 \<le> f" and "num_end t"
  let ?enc = "\<lambda>(k, v). enc_str k @ CHR '':'' # enc_json v"
  obtain f' where f': "f = Suc f'" using f by (cases f) auto
  obtain d' where d': "d = Suc d'" using d by (cases d) auto
  show "read_value f d (enc_json (JObj kvs) @ t) = Some (clean (JObj kvs), t)"
  proof (cases kvs)
    case Nil
    then show ?thesis by (simp add: f' d')
  next
    case (Cons kv kvs')
    have "read_members f' d' (join (map ?enc kvs) @ CHR ''}'' # t)
        = Some (map (\<lambda>(k, v). (to_valid k, clean v)) kvs, t)"
    proof (rule read_members_join)
      fix k v assume "(k, v) \<in> set kvs"
      then show "reads_back v \<and> wf_json v \<and> jdepth v \<le> d'"
        using assms wf d foldr_max_snd_le [of k v kvs jdepth] by (auto simp: d')
    qed (use f f' Cons in auto)
    moreover have "expect (CHR ''}'') (join (map ?enc kvs) @ CHR ''}'' # t) = None"
    proof -
      obtain k v where kv: "kv = (k, v)" by (cases kv)
      obtain cs where "enc_str k @ CHR '':'' # enc_json v = dquote # cs" by (simp add: enc_str_def)
      then obtain cs' where "join (map ?enc kvs) = dquote # cs'"
        using join_Cons_hd [of _ dquote cs] Cons kv by fastforce
      then show ?thesis by (rule expect_other) simp_all
    qed
    ultimately show ?thesis by (simp add: f' d')
  qed
qed

lemma reads_back_leaf:
  assumes "\<And>f d t. wf_json j \<Longrightarrow> num_end t \<Longrightarrow> read_value (Suc f) d (enc_json j @ t) = Some (clean j, t)"
  shows "reads_back j"
  unfolding reads_back_def
proof (intro allI impI)
  fix f d t
  assume "wf_json j" "2 * length (enc_json j) + 1 \<le> f" "num_end t"
  then show "read_value f d (enc_json j @ t) = Some (clean j, t)"
    using assms [of t "f - 1" d] by (cases f) simp_all
qed

lemma reads_back_all: "reads_back j"
proof (induction j)
  case JNull
  show ?case by (rule reads_back_leaf) simp
next
  case (JBool b)
  show ?case by (rule reads_back_leaf) simp
next
  case (JNum n)
  show ?case by (rule reads_back_leaf) (auto simp: read_value_num simp del: read_value.simps)
next
  case (JStr s)
  show ?case by (rule reads_back_leaf) (simp add: enc_str_def read_enc_str)
next
  case (JArr js)
  then show ?case by (rule reads_back_arr)
next
  case (JObj kvs)
  then show ?case by (intro reads_back_obj) fastforce
qed

theorem parse_enc_json:
  assumes "wf_json j" and "jdepth j \<le> max_depth"
  shows "parse_json (enc_json j) = Some (clean j)"
  using reads_backD [OF reads_back_all assms, of "2 * length (enc_json j) + 2" "[]"]
  by (simp add: parse_json_def)


subsection \<open>The fuel is enough\<close>

lemma skip_ws_length: "length (skip_ws s) \<le> length s"
  by (simp add: skip_ws_def length_dropWhile_le)

lemma skip_ws_length_Cons: "skip_ws s = c # cs \<Longrightarrow> length cs < length s"
  using skip_ws_length [of s] by simp

lemma expect_length: "expect c s = Some r \<Longrightarrow> length r < length s"
  by (auto simp: expect_def split: list.splits if_splits dest: skip_ws_length_Cons)

lemma read_str_length: "read_str s = Some (v, r) \<Longrightarrow> length r < length s"
proof (induction s arbitrary: v r rule: read_str.induct)
  case (1 s)
  show ?case
  proof (cases s)
    case Nil
    with "1.prems" show ?thesis by (subst (asm) read_str.simps) simp
  next
    case (Cons c cs)
    obtain w n where d: "decode_rune (c # cs) = (w, n)" by fastforce
    note IH = "1.IH" [OF Cons]
    consider "c = dquote" | out t where "c \<noteq> dquote" "c = backslash" "read_escape cs = Some (out, t)"
      | "c \<noteq> dquote" "c = backslash" "read_escape cs = None"
      | "c \<noteq> dquote" "c \<noteq> backslash" "byte_val c < (0x20::nat)"
      | "c \<noteq> dquote" "c \<noteq> backslash" "\<not> byte_val c < (0x20::nat)" "byte_val c < (0x80::nat)"
      | "c \<noteq> dquote" "c \<noteq> backslash" "\<not> byte_val c < (0x20::nat)" "\<not> byte_val c < (0x80::nat)"
      by (cases "read_escape cs") fastforce+
    then show ?thesis
    proof cases
      case 1
      with "1.prems" Cons show ?thesis by (subst (asm) read_str.simps) simp
    next
      case (2 out t)
      with "1.prems" Cons obtain v' where "read_str t = Some (v', r)"
        by (subst (asm) read_str.simps) (auto split: option.splits)
      with IH(1) 2 have "length r < length t" by blast
      with read_escape_length [OF 2(3)] Cons show ?thesis by simp
    next
      case 3
      with "1.prems" Cons show ?thesis by (subst (asm) read_str.simps) simp
    next
      case 4
      with "1.prems" Cons show ?thesis by (subst (asm) read_str.simps) simp
    next
      case 5
      with "1.prems" Cons obtain v' where "read_str cs = Some (v', r)"
        by (subst (asm) read_str.simps) auto
      with IH(2) 5 have "length r < length cs" by blast
      with Cons show ?thesis by simp
    next
      case 6
      with "1.prems" Cons d obtain v' where "read_str (drop n (c # cs)) = Some (v', r)"
        by (subst (asm) read_str.simps) auto
      with IH(3) [of w n] 6 d Cons have "length r < length (drop n (c # cs))" by simp
      with decode_rune_progress [OF d] Cons show ?thesis by simp
    qed
  qed
qed

lemma read_digits_length: "read_digits s = Some (d, r) \<Longrightarrow> length r < length s"
  by (auto simp: read_digits_def length_dropWhile_le less_Suc_eq_le split: list.splits if_splits)

lemma read_int_part_length: "read_int_part s = Some (d, r) \<Longrightarrow> length r < length s"
  by (auto simp: read_int_part_def split: list.splits if_splits dest: read_digits_length)

lemma read_frac_length: "read_frac s = Some (d, r) \<Longrightarrow> length r \<le> length s"
  by (auto simp: read_frac_def split: list.splits if_splits dest!: read_digits_length)

lemma read_exp_length: "read_exp s = Some (d, r) \<Longrightarrow> length r \<le> length s"
  by (auto simp: read_exp_def split: list.splits if_splits dest!: read_digits_length)

lemma read_num_length: "read_num s = Some (d, r) \<Longrightarrow> length r < length s"
  by (auto simp: read_num_def Let_def split: list.splits if_splits Option.bind_splits prod.splits
      dest!: read_int_part_length read_frac_length read_exp_length)

lemma read_lit_length: "read_lit p v s = Some (w, r) \<Longrightarrow> length r + length p = length s"
  by (induction p v s rule: read_lit.induct) (auto split: list.splits if_splits)

lemma reader_length:
  "read_value f d s = Some (v, r) \<Longrightarrow> length r < length s"
  "read_elems f d s = Some (vs, r) \<Longrightarrow> length r < length s"
  "read_members f d s = Some (ms, r) \<Longrightarrow> length r < length s"
proof (induction f d s and f d s and f d s arbitrary: v r and vs r and ms r
    rule: read_value_read_elems_read_members.induct)
  case (2 f d s)
  from "2.prems" obtain c cs where c: "skip_ws s = c # cs" by (auto split: list.splits)
  have cs: "length cs < length s" using c by (rule skip_ws_length_Cons)
  have "length r < length (c # cs)"
    using "2.prems" c "2.IH"
    by (auto split: if_splits option.splits list.splits
        dest!: expect_length read_str_length read_lit_length read_num_length) force+
  with skip_ws_length [of s] c show ?case by simp
next
  case (4 f d s)
  from "4.prems" obtain w t where w: "read_value f d s = Some (w, t)"
    by (auto split: Option.bind_splits)
  show ?case
  proof (cases "expect (CHR '','') t")
    case None
    with "4.prems" w "4.IH"(1) [OF w] show ?thesis by (auto dest!: expect_length)
  next
    case (Some t')
    with "4.prems" w obtain vs' where "read_elems f d t' = Some (vs', r)" by auto
    with "4.IH"(2) [OF w refl Some] "4.IH"(1) [OF w] expect_length [OF Some] show ?thesis by fastforce
  qed
next
  case (6 f d s)
  from "6.prems" obtain s1 k s2 s3 w t where
    s1: "expect dquote s = Some s1" and s2: "read_str s1 = Some (k, s2)"
    and s3: "expect (CHR '':'') s2 = Some s3" and w: "read_value f d s3 = Some (w, t)"
    by (auto split: Option.bind_splits)
  have t: "length t < length s"
    using "6.IH"(1) [OF s1 s2 refl s3 w] expect_length [OF s1] read_str_length [OF s2] expect_length [OF s3]
    by simp
  show ?case
  proof (cases "expect (CHR '','') t")
    case None
    with "6.prems" s1 s2 s3 w t show ?thesis by (auto dest!: expect_length)
  next
    case (Some t')
    with "6.prems" s1 s2 s3 w obtain ms' where "read_members f d t' = Some (ms', r)" by auto
    with "6.IH"(2) [OF s1 s2 refl s3 w refl Some] t expect_length [OF Some] show ?thesis by fastforce
  qed
qed simp_all

lemma reader_fuel:
  "2 * length s + 1 \<le> f \<Longrightarrow> read_value (Suc f) d s = read_value f d s"
  "2 * length s + 2 \<le> f \<Longrightarrow> read_elems (Suc f) d s = read_elems f d s"
  "2 * length s + 2 \<le> f \<Longrightarrow> read_members (Suc f) d s = read_members f d s"
proof (induction f arbitrary: d s)
  case (Suc f)
  { case 1
    show ?case
    proof (cases "skip_ws s")
      case (Cons c cs)
      have "2 * length cs + 2 \<le> f" using skip_ws_length_Cons [OF Cons] 1 by simp
      with Suc.IH(2,3) [of cs] Cons show ?thesis
        by (simp only: read_value.simps Cons list.case)
    qed simp }
  { case 2
    have v: "read_value (Suc f) d s = read_value f d s" using Suc.IH(1) 2 by simp
    have e: "read_elems (Suc f) d r' = read_elems f d r'"
      if "read_value f d s = Some (w, r)" "expect c r = Some r'" for w r c r'
      using reader_length(1) [OF that(1)] expect_length [OF that(2)] 2 by (intro Suc.IH(2)) simp
    show ?case
      unfolding read_elems.simps(2) [of "Suc f" d s] read_elems.simps(2) [of f d s] v
      by (intro Option.bind_cong refl)
        (auto simp: e simp del: read_elems.simps read_value.simps split: option.splits) }
  { case 3
    have v: "read_value (Suc f) d s3 = read_value f d s3"
      if "expect c s = Some s1" "read_str s1 = Some (k, s2)" "expect c' s2 = Some s3" for s1 k s2 s3 c c'
      using expect_length [OF that(1)] read_str_length [OF that(2)] expect_length [OF that(3)] 3
      by (intro Suc.IH(1)) simp
    have m: "read_members (Suc f) d r' = read_members f d r'"
      if "expect c s = Some s1" "read_str s1 = Some (k, s2)" "expect c' s2 = Some s3"
        "read_value f d s3 = Some (w, r)" "expect c'' r = Some r'" for s1 k s2 s3 w r r' c c' c''
      using expect_length [OF that(1)] read_str_length [OF that(2)] expect_length [OF that(3)]
        reader_length(1) [OF that(4)] expect_length [OF that(5)] 3
      by (intro Suc.IH(3)) simp
    show ?case
      unfolding read_members.simps(2) [of "Suc f" d s] read_members.simps(2) [of f d s]
      by (intro Option.bind_cong refl)
        (auto simp: v m simp del: read_members.simps read_value.simps split: option.splits Option.bind_splits) }
qed simp_all

lemma reader_fuel_enough:
  assumes "2 * length s + 1 \<le> f" and "f \<le> f'"
  shows "read_value f' d s = read_value f d s"
  using assms(2)
proof (induction f' rule: dec_induct)
  case (step n)
  with assms(1) show ?case using reader_fuel(1) [of s n d] by simp
qed simp

text \<open>No value that can be read at all is lost to the fuel bound of \<open>parse_json\<close>.\<close>

lemma reader_mono:
  "read_value f d s = Some x \<Longrightarrow> read_value (Suc f) d s = Some x"
  "read_elems f d s = Some y \<Longrightarrow> read_elems (Suc f) d s = Some y"
  "read_members f d s = Some z \<Longrightarrow> read_members (Suc f) d s = Some z"
proof (induction f arbitrary: d s x y z)
  case (Suc f)
  { case 1
    then obtain c cs where c: "skip_ws s = c # cs" by (auto split: list.splits)
    from 1 c show ?case
      unfolding read_value.simps(2) [of "Suc f" d s] read_value.simps(2) [of f d s] c list.case
      by (auto simp del: read_elems.simps read_members.simps read_lit.simps
          split: if_splits option.splits intro: Suc.IH) }
  { case 2
    then obtain w r where w: "read_value f d s = Some (w, r)" by (auto split: Option.bind_splits)
    note w' = Suc.IH(1) [OF w]
    show ?case
      using 2 unfolding read_elems.simps(2) [of "Suc f" d s] read_elems.simps(2) [of f d s] w w'
      by (auto simp del: read_elems.simps dest: Suc.IH(2) split: option.splits) }
  { case 3
    then obtain s1 k s2 s3 w r where
      s: "expect dquote s = Some s1" "read_str s1 = Some (k, s2)" "expect (CHR '':'') s2 = Some s3"
      and w: "read_value f d s3 = Some (w, r)"
      by (auto split: Option.bind_splits)
    note w' = Suc.IH(1) [OF w]
    show ?case
      using 3 unfolding read_members.simps(2) [of "Suc f" d s] read_members.simps(2) [of f d s]
      by (auto simp: s w w' simp del: read_members.simps read_value.simps dest: Suc.IH(3) split: option.splits) }
qed simp_all

lemma reader_mono_le:
  assumes "read_value f d s = Some x" and "f \<le> g"
  shows "read_value g d s = Some x"
  using assms(2,1) by (induction g rule: dec_induct) (auto intro: reader_mono(1) simp del: read_value.simps)

theorem parse_json_complete:
  assumes "read_value f max_depth s = Some (v, r)" and "skip_ws r = []"
  shows "parse_json s = Some v"
proof -
  have "read_value (max f (2 * length s + 2)) max_depth s = Some (v, r)"
    using assms(1) by (rule reader_mono_le) simp
  then have "read_value (2 * length s + 2) max_depth s = Some (v, r)"
    using reader_fuel_enough [of s "2 * length s + 2" "max f (2 * length s + 2)" max_depth] by simp
  with assms(2) show ?thesis by (simp add: parse_json_def)
qed


subsection \<open>The writer never emits a line end\<close>

lemma encode_rune_high:
  assumes "0x80 \<le> r" "r \<le> 0x10FFFF" "c \<in> set (encode_rune r)"
  shows "0x80 \<le> (byte_val c :: nat)"
proof -
  have "r div 64 < 32" if "r < 0x800" using that by auto
  moreover have "r div 4096 < 16" if "r < 0x10000" using that by auto
  moreover have "r div 262144 < 5" using assms(2) by auto
  ultimately show ?thesis using assms(1,3)
    by (auto simp: encode_rune_def split: if_splits)
qed

lemma esc_chunk_printable:
  assumes "(r, b) \<in> set (chunks s)" and "c \<in> set (esc_chunk (r, b))"
  shows "0x20 \<le> (byte_val c :: nat)"
proof -
  from chunks_cases [OF assms(1)]
  have r: "scalar r" and b: "b = encode_rune r \<or> r = rune_error \<and> length b = 1" by auto
  have hex: "n < 16 \<Longrightarrow> 0x20 \<le> (byte_val (hex_digit n) :: nat)" for n by (simp add: hex_digit_def)
  show ?thesis
  proof (cases "r < 0x80")
    case True
    then show ?thesis using assms(2) hex [of "r div 16"] hex [of "r mod 16"]
      by (auto simp: esc_chunk_def esc_ascii_def esc_u00_def split: if_splits)
  next
    case False
    show ?thesis
    proof (cases "b = encode_rune r \<and> c \<in> set b")
      case True
      with False r have "0x80 \<le> (byte_val c :: nat)"
        by (intro encode_rune_high [of r]) (auto simp: scalar_def)
      then show ?thesis by simp
    next
      case other: False
      with False b assms(2) show ?thesis by (auto simp: esc_chunk_def split: if_splits)
    qed
  qed
qed

lemma enc_str_printable: "c \<in> set (enc_str s) \<Longrightarrow> 0x20 \<le> (byte_val c :: nat)"
  by (auto simp: enc_str_def simp del: UN_iff dest: esc_chunk_printable)

lemma fmt_int_printable: "c \<in> set (fmt_int i) \<Longrightarrow> 0x20 \<le> (byte_val c :: nat)"
  by (auto simp: fmt_int_def is_digit_def dest: dec_digits_digits split: if_splits)

lemma join_set: "set (join ss) \<subseteq> insert (CHR '','') (\<Union> (set ` set ss))"
  by (induction ss rule: join.induct) auto

lemma enc_json_printable:
  "wf_json j \<Longrightarrow> c \<in> set (enc_json j) \<Longrightarrow> 0x20 \<le> (byte_val c :: nat)"
proof (induction j)
  case (JNum n)
  then show ?case using fmt_int_printable by auto
next
  case (JStr s)
  then show ?case using enc_str_printable by simp
next
  case (JArr js)
  then show ?case using join_set [of "map enc_json js"] by fastforce
next
  case (JObj kvs)
  have "0x20 \<le> (byte_val c :: nat)" if "(k, v) \<in> set kvs" "c \<in> set (enc_str k @ CHR '':'' # enc_json v)" for k v
    using that JObj.IH [of "(k, v)" v] JObj.prems(1) enc_str_printable [of c k] by fastforce
  then show ?case using JObj.prems(2) join_set [of "map (\<lambda>(k, v). enc_str k @ CHR '':'' # enc_json v) kvs"]
    by fastforce
qed (auto split: if_splits)

end
