(* ===== verification/Proto.thy ===== *)
theory Proto
  imports Json
begin

text \<open>
  proto.go: the message record \<open>In\<close>, its JSON form, and \<open>encode\<close>, which appends the line
  end.  \<open>unmarshal_in\<close> is \<open>json.Unmarshal(line, &m)\<close> on a fresh \<open>m\<close>: it returns what was
  stored in \<open>m\<close> and whether the error is nil.  A text that is not JSON stores nothing; a
  member of the wrong type is skipped, its error remembered and the rest still stored, which
  the handshake relies on because it ignores the error.  Member names match a field exactly
  or up to case folding.
\<close>

record inmsg =
  m_T :: string
  m_Devid :: string
  m_Name :: string
  m_Plat :: string
  m_Ver :: string
  m_Proof :: string
  m_Dx :: goint
  m_Dy :: goint
  m_X :: goint
  m_Y :: goint
  m_B :: string
  m_Down :: "bool option"
  m_S :: string
  m_Code :: goint
  m_Mods :: goint
  m_Ts :: "64 word"

definition zero_in :: inmsg where
  "zero_in = \<lparr>m_T = [], m_Devid = [], m_Name = [], m_Plat = [], m_Ver = [], m_Proof = [],
     m_Dx = 0, m_Dy = 0, m_X = 0, m_Y = 0, m_B = [], m_Down = None, m_S = [],
     m_Code = 0, m_Mods = 0, m_Ts = 0\<rparr>"

subsection \<open>Marshalling\<close>

definition opt_str :: "string \<Rightarrow> string \<Rightarrow> (string \<times> json) list" where
  "opt_str k s = (if s = [] then [] else [(k, JStr s)])"

definition opt_int :: "string \<Rightarrow> goint \<Rightarrow> (string \<times> json) list" where
  "opt_int k i = (if i = 0 then [] else [(k, JNum (fmt_int (sint i)))])"

definition opt_bool :: "string \<Rightarrow> bool option \<Rightarrow> (string \<times> json) list" where
  "opt_bool k b = (case b of None \<Rightarrow> [] | Some v \<Rightarrow> [(k, JBool v)])"

definition in_fields :: "inmsg \<Rightarrow> (string \<times> json) list" where
  "in_fields m =
     [(''t'', JStr (m_T m))] @ opt_str ''devid'' (m_Devid m) @ opt_str ''name'' (m_Name m)
     @ opt_str ''platform'' (m_Plat m) @ opt_str ''ver'' (m_Ver m) @ opt_str ''proof'' (m_Proof m)
     @ opt_int ''dx'' (m_Dx m) @ opt_int ''dy'' (m_Dy m) @ opt_int ''x'' (m_X m) @ opt_int ''y'' (m_Y m)
     @ opt_str ''b'' (m_B m) @ opt_bool ''down'' (m_Down m) @ opt_str ''s'' (m_S m)
     @ opt_int ''code'' (m_Code m) @ opt_int ''mods'' (m_Mods m) @ opt_int ''ts'' (m_Ts m)"

definition marshal_in :: "inmsg \<Rightarrow> json" where
  "marshal_in m = JObj (in_fields m)"

definition encode :: "json \<Rightarrow> string" where
  "encode v = enc_json v @ [newline]"

subsection \<open>Unmarshalling\<close>

datatype field_id =
    F_T | F_Devid | F_Name | F_Plat | F_Ver | F_Proof | F_Dx | F_Dy | F_X | F_Y
  | F_B | F_Down | F_S | F_Code | F_Mods | F_Ts

text \<open>
  Case folding of member names: ASCII letters, and the two other runes whose folding is an
  ASCII letter, U+017F (s) and U+212A (k).
\<close>

fun fold_name :: "string \<Rightarrow> string" where
  "fold_name [] = []"
| "fold_name (c # cs) =
    (if 97 \<le> (byte_val c :: nat) \<and> byte_val c \<le> (122 :: nat)
     then byte_chr (byte_val c - 32) # fold_name cs
     else if c = CHR 0xC5 \<and> take 1 cs = [CHR 0xBF] then CHR ''S'' # fold_name (drop 1 cs)
     else if c = CHR 0xE2 \<and> take 2 cs = [CHR 0x84, CHR 0xAA] then CHR ''K'' # fold_name (drop 2 cs)
     else c # fold_name cs)"

definition field_names :: "(string \<times> field_id) list" where
  "field_names =
     [(''T'', F_T), (''DEVID'', F_Devid), (''NAME'', F_Name), (''PLATFORM'', F_Plat), (''VER'', F_Ver),
      (''PROOF'', F_Proof), (''DX'', F_Dx), (''DY'', F_Dy), (''X'', F_X), (''Y'', F_Y), (''B'', F_B),
      (''DOWN'', F_Down), (''S'', F_S), (''CODE'', F_Code), (''MODS'', F_Mods), (''TS'', F_Ts)]"

definition field_of :: "string \<Rightarrow> field_id option" where
  "field_of k = map_of field_names (fold_name k)"

definition get_str :: "json \<Rightarrow> string \<Rightarrow> string \<times> bool" where
  "get_str v old = (case v of JStr s \<Rightarrow> (s, True) | JNull \<Rightarrow> (old, True) | _ \<Rightarrow> (old, False))"

definition get_int :: "json \<Rightarrow> goint \<Rightarrow> goint \<times> bool" where
  "get_int v old =
    (case v of
       JNum n \<Rightarrow> (case parse_int n of Some i \<Rightarrow> (word_of_int i, True) | None \<Rightarrow> (old, False))
     | JNull \<Rightarrow> (old, True)
     | _ \<Rightarrow> (old, False))"

text \<open>A value of the wrong type still makes the decoder allocate the pointer.\<close>

definition get_boolp :: "json \<Rightarrow> bool option \<Rightarrow> bool option \<times> bool" where
  "get_boolp v old =
    (case v of
       JBool b \<Rightarrow> (Some b, True)
     | JNull \<Rightarrow> (None, True)
     | _ \<Rightarrow> (Some (case old of None \<Rightarrow> False | Some b \<Rightarrow> b), False))"

fun set_field :: "field_id \<Rightarrow> json \<Rightarrow> inmsg \<Rightarrow> inmsg \<times> bool" where
  "set_field F_T v m = apfst (\<lambda>x. m\<lparr>m_T := x\<rparr>) (get_str v (m_T m))"
| "set_field F_Devid v m = apfst (\<lambda>x. m\<lparr>m_Devid := x\<rparr>) (get_str v (m_Devid m))"
| "set_field F_Name v m = apfst (\<lambda>x. m\<lparr>m_Name := x\<rparr>) (get_str v (m_Name m))"
| "set_field F_Plat v m = apfst (\<lambda>x. m\<lparr>m_Plat := x\<rparr>) (get_str v (m_Plat m))"
| "set_field F_Ver v m = apfst (\<lambda>x. m\<lparr>m_Ver := x\<rparr>) (get_str v (m_Ver m))"
| "set_field F_Proof v m = apfst (\<lambda>x. m\<lparr>m_Proof := x\<rparr>) (get_str v (m_Proof m))"
| "set_field F_Dx v m = apfst (\<lambda>x. m\<lparr>m_Dx := x\<rparr>) (get_int v (m_Dx m))"
| "set_field F_Dy v m = apfst (\<lambda>x. m\<lparr>m_Dy := x\<rparr>) (get_int v (m_Dy m))"
| "set_field F_X v m = apfst (\<lambda>x. m\<lparr>m_X := x\<rparr>) (get_int v (m_X m))"
| "set_field F_Y v m = apfst (\<lambda>x. m\<lparr>m_Y := x\<rparr>) (get_int v (m_Y m))"
| "set_field F_B v m = apfst (\<lambda>x. m\<lparr>m_B := x\<rparr>) (get_str v (m_B m))"
| "set_field F_Down v m = apfst (\<lambda>x. m\<lparr>m_Down := x\<rparr>) (get_boolp v (m_Down m))"
| "set_field F_S v m = apfst (\<lambda>x. m\<lparr>m_S := x\<rparr>) (get_str v (m_S m))"
| "set_field F_Code v m = apfst (\<lambda>x. m\<lparr>m_Code := x\<rparr>) (get_int v (m_Code m))"
| "set_field F_Mods v m = apfst (\<lambda>x. m\<lparr>m_Mods := x\<rparr>) (get_int v (m_Mods m))"
| "set_field F_Ts v m = apfst (\<lambda>x. m\<lparr>m_Ts := x\<rparr>) (get_int v (m_Ts m))"

fun fill :: "(string \<times> json) list \<Rightarrow> inmsg \<Rightarrow> inmsg \<times> bool" where
  "fill [] m = (m, True)"
| "fill ((k, v) # kvs) m =
    (let (m1, ok1) = (case field_of k of None \<Rightarrow> (m, True) | Some f \<Rightarrow> set_field f v m);
         (m2, ok2) = fill kvs m1
     in (m2, ok1 \<and> ok2))"

definition unmarshal_in :: "string \<Rightarrow> inmsg \<times> bool" where
  "unmarshal_in s =
    (case parse_json s of
       None \<Rightarrow> (zero_in, False)
     | Some (JObj kvs) \<Rightarrow> fill kvs zero_in
     | Some JNull \<Rightarrow> (zero_in, True)
     | Some _ \<Rightarrow> (zero_in, False))"

subsection \<open>Round trip\<close>

text \<open>What is left of a message after a trip over the wire: its strings as valid UTF-8.\<close>

definition norm_in :: "inmsg \<Rightarrow> inmsg" where
  "norm_in m = m\<lparr>m_T := to_valid (m_T m), m_Devid := to_valid (m_Devid m), m_Name := to_valid (m_Name m),
     m_Plat := to_valid (m_Plat m), m_Ver := to_valid (m_Ver m), m_Proof := to_valid (m_Proof m),
     m_B := to_valid (m_B m), m_S := to_valid (m_S m)\<rparr>"

definition clean_fields :: "(string \<times> json) list \<Rightarrow> (string \<times> json) list" where
  "clean_fields kvs = map (\<lambda>(k, v). (to_valid k, clean v)) kvs"

lemma clean_fields_append [simp]: "clean_fields (xs @ ys) = clean_fields xs @ clean_fields ys"
  by (simp add: clean_fields_def)

lemma to_valid_Nil [simp]: "to_valid [] = []"
  by (simp add: to_valid_def runes_def)

lemma to_valid_ascii:
  assumes "\<And>c. c \<in> set s \<Longrightarrow> byte_val c < (0x80::nat)"
  shows "to_valid s = s"
  using assms
proof (induction s)
  case (Cons c s)
  then have "chunks (c # s) = (byte_val c, [c]) # chunks s"
    using chunks_step [OF decode_rune_ascii [of c s]] by simp
  with Cons show ?case
    by (simp add: to_valid_def runes_def encode_rune_ascii)
qed simp

lemma fill_append:
  "fill (xs @ ys) m = (let (m1, ok1) = fill xs m; (m2, ok2) = fill ys m1 in (m2, ok1 \<and> ok2))"
  by (induction xs m rule: fill.induct) (auto simp: Let_def split: prod.splits)

lemma fill_append_ok [simp]:
  "fill xs m = (m1, True) \<Longrightarrow> fill (xs @ ys) m = fill ys m1"
  by (simp add: fill_append split: prod.splits)


lemma fill_opt_str:
  assumes "field_of (to_valid k) = Some f" and "get m = []"
    and "\<And>v. set_field f v m = apfst upd (get_str v (get m))" and "upd [] = m"
  shows "fill (clean_fields (opt_str k s)) m = (upd (to_valid s), True)"
  using assms by (auto simp: opt_str_def clean_fields_def get_str_def)

lemma get_int_fmt: "get_int (JNum (fmt_int (sint w))) old = (w, True)"
  using sint64_range [of w] by (simp add: get_int_def parse_fmt_int)

lemma fill_opt_int:
  assumes "field_of (to_valid k) = Some f" and "get m = 0"
    and "\<And>v. set_field f v m = apfst upd (get_int v (get m))" and "upd 0 = m"
  shows "fill (clean_fields (opt_int k i)) m = (upd i, True)"
  using assms by (auto simp: opt_int_def clean_fields_def get_int_fmt)

lemma fill_opt_bool:
  assumes "field_of (to_valid k) = Some f" and "get m = None"
    and "\<And>v. set_field f v m = apfst upd (get_boolp v (get m))" and "upd None = m"
  shows "fill (clean_fields (opt_bool k b)) m = (upd b, True)"
  using assms by (auto simp: opt_bool_def clean_fields_def get_boolp_def split: option.splits)

lemma field_of_names:
  "field_of (to_valid ''t'') = Some F_T" "field_of (to_valid ''devid'') = Some F_Devid"
  "field_of (to_valid ''name'') = Some F_Name" "field_of (to_valid ''platform'') = Some F_Plat"
  "field_of (to_valid ''ver'') = Some F_Ver" "field_of (to_valid ''proof'') = Some F_Proof"
  "field_of (to_valid ''dx'') = Some F_Dx" "field_of (to_valid ''dy'') = Some F_Dy"
  "field_of (to_valid ''x'') = Some F_X" "field_of (to_valid ''y'') = Some F_Y"
  "field_of (to_valid ''b'') = Some F_B" "field_of (to_valid ''down'') = Some F_Down"
  "field_of (to_valid ''s'') = Some F_S" "field_of (to_valid ''code'') = Some F_Code"
  "field_of (to_valid ''mods'') = Some F_Mods" "field_of (to_valid ''ts'') = Some F_Ts"
  by (subst to_valid_ascii, force, simp add: field_of_def field_names_def char_of_def bit_numeral_rec bit_0)+

lemma fill_Devid [step_simps]:
  "m_Devid m = [] \<Longrightarrow> fill (clean_fields (opt_str ''devid'' s)) m = (m\<lparr>m_Devid := to_valid s\<rparr>, True)"
  by (rule fill_opt_str [where f = F_Devid and get = m_Devid and upd = "\<lambda>x. m\<lparr>m_Devid := x\<rparr>"])
    (simp_all add: field_of_names)

lemma fill_Name [step_simps]:
  "m_Name m = [] \<Longrightarrow> fill (clean_fields (opt_str ''name'' s)) m = (m\<lparr>m_Name := to_valid s\<rparr>, True)"
  by (rule fill_opt_str [where f = F_Name and get = m_Name and upd = "\<lambda>x. m\<lparr>m_Name := x\<rparr>"])
    (simp_all add: field_of_names)

lemma fill_Plat [step_simps]:
  "m_Plat m = [] \<Longrightarrow> fill (clean_fields (opt_str ''platform'' s)) m = (m\<lparr>m_Plat := to_valid s\<rparr>, True)"
  by (rule fill_opt_str [where f = F_Plat and get = m_Plat and upd = "\<lambda>x. m\<lparr>m_Plat := x\<rparr>"])
    (simp_all add: field_of_names)

lemma fill_Ver [step_simps]:
  "m_Ver m = [] \<Longrightarrow> fill (clean_fields (opt_str ''ver'' s)) m = (m\<lparr>m_Ver := to_valid s\<rparr>, True)"
  by (rule fill_opt_str [where f = F_Ver and get = m_Ver and upd = "\<lambda>x. m\<lparr>m_Ver := x\<rparr>"])
    (simp_all add: field_of_names)

lemma fill_Proof [step_simps]:
  "m_Proof m = [] \<Longrightarrow> fill (clean_fields (opt_str ''proof'' s)) m = (m\<lparr>m_Proof := to_valid s\<rparr>, True)"
  by (rule fill_opt_str [where f = F_Proof and get = m_Proof and upd = "\<lambda>x. m\<lparr>m_Proof := x\<rparr>"])
    (simp_all add: field_of_names)

lemma fill_B [step_simps]:
  "m_B m = [] \<Longrightarrow> fill (clean_fields (opt_str ''b'' s)) m = (m\<lparr>m_B := to_valid s\<rparr>, True)"
  by (rule fill_opt_str [where f = F_B and get = m_B and upd = "\<lambda>x. m\<lparr>m_B := x\<rparr>"])
    (simp_all add: field_of_names)

lemma fill_S [step_simps]:
  "m_S m = [] \<Longrightarrow> fill (clean_fields (opt_str ''s'' s)) m = (m\<lparr>m_S := to_valid s\<rparr>, True)"
  by (rule fill_opt_str [where f = F_S and get = m_S and upd = "\<lambda>x. m\<lparr>m_S := x\<rparr>"])
    (simp_all add: field_of_names)

lemma fill_Dx [step_simps]:
  "m_Dx m = 0 \<Longrightarrow> fill (clean_fields (opt_int ''dx'' i)) m = (m\<lparr>m_Dx := i\<rparr>, True)"
  by (rule fill_opt_int [where f = F_Dx and get = m_Dx and upd = "\<lambda>x. m\<lparr>m_Dx := x\<rparr>"])
    (simp_all add: field_of_names)

lemma fill_Dy [step_simps]:
  "m_Dy m = 0 \<Longrightarrow> fill (clean_fields (opt_int ''dy'' i)) m = (m\<lparr>m_Dy := i\<rparr>, True)"
  by (rule fill_opt_int [where f = F_Dy and get = m_Dy and upd = "\<lambda>x. m\<lparr>m_Dy := x\<rparr>"])
    (simp_all add: field_of_names)

lemma fill_X [step_simps]:
  "m_X m = 0 \<Longrightarrow> fill (clean_fields (opt_int ''x'' i)) m = (m\<lparr>m_X := i\<rparr>, True)"
  by (rule fill_opt_int [where f = F_X and get = m_X and upd = "\<lambda>x. m\<lparr>m_X := x\<rparr>"])
    (simp_all add: field_of_names)

lemma fill_Y [step_simps]:
  "m_Y m = 0 \<Longrightarrow> fill (clean_fields (opt_int ''y'' i)) m = (m\<lparr>m_Y := i\<rparr>, True)"
  by (rule fill_opt_int [where f = F_Y and get = m_Y and upd = "\<lambda>x. m\<lparr>m_Y := x\<rparr>"])
    (simp_all add: field_of_names)

lemma fill_Code [step_simps]:
  "m_Code m = 0 \<Longrightarrow> fill (clean_fields (opt_int ''code'' i)) m = (m\<lparr>m_Code := i\<rparr>, True)"
  by (rule fill_opt_int [where f = F_Code and get = m_Code and upd = "\<lambda>x. m\<lparr>m_Code := x\<rparr>"])
    (simp_all add: field_of_names)

lemma fill_Mods [step_simps]:
  "m_Mods m = 0 \<Longrightarrow> fill (clean_fields (opt_int ''mods'' i)) m = (m\<lparr>m_Mods := i\<rparr>, True)"
  by (rule fill_opt_int [where f = F_Mods and get = m_Mods and upd = "\<lambda>x. m\<lparr>m_Mods := x\<rparr>"])
    (simp_all add: field_of_names)

lemma fill_Ts [step_simps]:
  "m_Ts m = 0 \<Longrightarrow> fill (clean_fields (opt_int ''ts'' i)) m = (m\<lparr>m_Ts := i\<rparr>, True)"
  by (rule fill_opt_int [where f = F_Ts and get = m_Ts and upd = "\<lambda>x. m\<lparr>m_Ts := x\<rparr>"])
    (simp_all add: field_of_names)

lemma fill_Down [step_simps]:
  "m_Down m = None \<Longrightarrow> fill (clean_fields (opt_bool ''down'' b)) m = (m\<lparr>m_Down := b\<rparr>, True)"
  by (rule fill_opt_bool [where f = F_Down and get = m_Down and upd = "\<lambda>x. m\<lparr>m_Down := x\<rparr>"])
    (simp_all add: field_of_names)

lemma fill_T [step_simps]:
  "fill (clean_fields ((''t'', JStr s) # kvs)) m = fill (clean_fields kvs) (m\<lparr>m_T := to_valid s\<rparr>)"
  by (simp add: clean_fields_def get_str_def field_of_names)

lemma fill_in_fields [codec_simps]: "fill (clean_fields (in_fields m)) zero_in = (norm_in m, True)"
  unfolding in_fields_def zero_in_def norm_in_def
  by (cases m) (simp add: step_simps)

definition flat_field :: "string \<times> json \<Rightarrow> bool" where
  "flat_field = (\<lambda>(k, v). wf_json v \<and> jdepth v = 0)"

lemma flat_opt:
  "list_all flat_field (opt_str k s)" "list_all flat_field (opt_int k i)" "list_all flat_field (opt_bool k b)"
  by (auto simp: flat_field_def opt_str_def opt_int_def opt_bool_def split: option.split)

lemma flat_in_fields: "list_all flat_field (in_fields m)"
  by (simp add: in_fields_def flat_opt) (simp add: flat_field_def)

lemma wf_in_fields: "(k, v) \<in> set (in_fields m) \<Longrightarrow> wf_json v \<and> jdepth v = 0"
  using flat_in_fields [of m] by (auto simp: list_all_iff flat_field_def)

lemma wf_marshal_in: "wf_json (marshal_in m)"
  using wf_in_fields by (auto simp: marshal_in_def)

lemma foldr_max_zero: "(\<And>k v. (k, v) \<in> set kvs \<Longrightarrow> f v = 0) \<Longrightarrow> foldr (\<lambda>(k, v). max (f v)) kvs (0::nat) = 0"
  by (induction kvs) fastforce+

lemma jdepth_marshal_in: "jdepth (marshal_in m) = 1"
  using wf_in_fields [of _ _ m] by (simp add: marshal_in_def foldr_max_zero)

theorem unmarshal_marshal [codec_simps]: "unmarshal_in (enc_json (marshal_in m)) = (norm_in m, True)"
proof -
  have "parse_json (enc_json (marshal_in m)) = Some (clean (marshal_in m))"
    using wf_marshal_in jdepth_marshal_in [of m] by (intro parse_enc_json) (simp_all add: max_depth_def)
  then show ?thesis
    using fill_in_fields [of m] by (simp add: unmarshal_in_def marshal_in_def clean_fields_def)
qed

end
