(* ===== verification/Frames.thy ===== *)
theory Frames
  imports Proto
begin

text \<open>
  The newline framing of the control socket and of the agent pipe.  Both ends read with a
  \<open>bufio.Scanner\<close> whose buffer is capped at 1 MiB (server.go and pipe_inject.go set the same
  limit): \<open>scan_lines\<close> is the list of lines \<open>Scan\<close> delivers before it returns false.  A line
  of 1 MiB or more ends the scan, and everything after it is never read.
\<close>

definition max_token :: nat where
  "max_token = 1048576"

definition drop_cr :: "string \<Rightarrow> string" where
  "drop_cr l = (if l \<noteq> [] \<and> last l = creturn then butlast l else l)"

function scan_lines :: "string \<Rightarrow> string list" where
  "scan_lines s =
    (if s = [] then []
     else let l = takeWhile (\<lambda>c. c \<noteq> newline) s; rest = dropWhile (\<lambda>c. c \<noteq> newline) s
          in if max_token \<le> length l then []
             else drop_cr l # (case rest of [] \<Rightarrow> [] | _ # r \<Rightarrow> scan_lines r))"
  by pat_completeness auto
termination
proof (relation "measure length")
  fix s l rest c :: string and x r
  assume "rest = dropWhile (\<lambda>c. c \<noteq> newline) s" "rest = x # r"
  then have "length (x # r) \<le> length s" by (metis length_dropWhile_le)
  then show "(r, s) \<in> measure length" by simp
qed simp

declare scan_lines.simps [simp del]

lemma scan_lines_Nil [simp]: "scan_lines [] = []"
  by (simp add: scan_lines.simps)

definition line_ok :: "string \<Rightarrow> bool" where
  "line_ok l \<longleftrightarrow> newline \<notin> set l \<and> length l < max_token"

lemma scan_lines_line:
  assumes "newline \<notin> set l"
  shows "scan_lines (l @ newline # rest) = (if length l < max_token then drop_cr l # scan_lines rest else [])"
proof -
  have "takeWhile (\<lambda>c. c \<noteq> newline) (l @ newline # rest) = l"
    and "dropWhile (\<lambda>c. c \<noteq> newline) (l @ newline # rest) = newline # rest"
    using assms by (auto intro!: takeWhile_block dropWhile_block)
  then show ?thesis by (subst scan_lines.simps) (simp add: Let_def)
qed

interpretation lines: stream_codec "\<lambda>l. l @ [newline]" scan_lines line_ok drop_cr
  by unfold_locales (simp_all add: line_ok_def scan_lines_line)

subsection \<open>Messages one per line\<close>

text \<open>
  A codec of single messages that prints no line end gives a codec of streams once the
  messages are framed: the contract of the sockets and pipes.
\<close>

locale line_codec =
  fixes enc_line :: "'a \<Rightarrow> string"
    and dec_line :: "string \<Rightarrow> 'c"
    and ok :: "'a \<Rightarrow> bool"
    and norm :: "'a \<Rightarrow> 'c"
  assumes dec_enc: "dec_line (enc_line a) = norm a"
    and no_newline: "newline \<notin> set (enc_line a)"
    and no_cr: "drop_cr (enc_line a) = enc_line a"
    and short: "ok a \<Longrightarrow> length (enc_line a) < max_token"
begin

lemma framed_block:
  "ok a \<Longrightarrow> map dec_line (scan_lines ((enc_line a @ [newline]) @ rest)) = norm a # map dec_line (scan_lines rest)"
  using scan_lines_line [OF no_newline, of a rest] short [of a]
  by (simp add: no_cr dec_enc)

text \<open>A message over the limit ends the stream: it and everything after it is lost.\<close>

lemma oversized_block:
  "max_token \<le> length (enc_line a) \<Longrightarrow> map dec_line (scan_lines ((enc_line a @ [newline]) @ rest)) = []"
  using scan_lines_line [OF no_newline, of a rest] by simp

end

sublocale line_codec \<subseteq> stream_codec "\<lambda>a. enc_line a @ [newline]" "\<lambda>s. map dec_line (scan_lines s)" ok norm
  by unfold_locales (simp_all add: framed_block [simplified])

definition in_line :: "inmsg \<Rightarrow> string" where
  "in_line m = enc_json (marshal_in m)"

definition in_short :: "inmsg \<Rightarrow> bool" where
  "in_short m \<longleftrightarrow> length (in_line m) < max_token"

definition read_frames :: "string \<Rightarrow> (inmsg \<times> bool) list" where
  "read_frames s = map unmarshal_in (scan_lines s)"

lemma in_line_no_newline: "newline \<notin> set (in_line m)"
  using enc_json_printable [OF wf_marshal_in, of newline m] by (auto simp: in_line_def)

lemma in_line_no_cr: "drop_cr (in_line m) = in_line m"
  by (simp add: in_line_def marshal_in_def drop_cr_def)

lemma unmarshal_in_line: "unmarshal_in (in_line m) = (norm_in m, True)"
  by (simp add: in_line_def unmarshal_marshal)

interpretation frames: line_codec in_line unmarshal_in in_short "\<lambda>m. (norm_in m, True)"
  by unfold_locales
    (simp_all add: in_line_no_newline in_line_no_cr in_short_def unmarshal_in_line)

lemma encode_in_line: "encode (marshal_in m) = in_line m @ [newline]"
  by (simp add: encode_def in_line_def)

lemma read_frames_encode [codec_simps]:
  assumes "\<And>m. m \<in> set ms \<Longrightarrow> in_short m"
  shows "read_frames (concat (map (\<lambda>m. encode (marshal_in m)) ms)) = map (\<lambda>m. (norm_in m, True)) ms"
  using frames.dec_stream [OF assms] by (simp add: read_frames_def encode_in_line)

subsection \<open>The size of an encoded message\<close>

text \<open>
  A byte of a string costs at most six bytes in JSON, so a message whose strings are short
  enough fits in a line whatever they contain.
\<close>


lemma esc_ascii_length: "length (esc_ascii b) \<le> 6"
  by (simp add: esc_ascii_def esc_u00_def)

lemma esc_chunk_length:
  assumes "(r, b) \<in> set (chunks s)"
  shows "length (esc_chunk (r, b)) \<le> 6 * length b"
proof -
  have ne: "1 \<le> length b" using chunks_cases [OF assms] encode_rune_not_Nil [of r]
    by (cases b) (auto simp del: encode_rune_not_Nil)
  have "length (encode_rune r) = 3" if "r = 0x2028 \<or> r = 0x2029"
    using that by (auto simp: encode_rune_def)
  then show ?thesis
    using ne esc_ascii_length [of r] by (auto simp: esc_chunk_def)
qed

lemma enc_str_length: "length (enc_str s) \<le> 6 * length s + 2"
proof -
  have "length (concat (map esc_chunk cs)) \<le> 6 * length (concat (map snd cs))"
    if "set cs \<subseteq> set (chunks s)" for cs
    using that
  proof (induction cs)
    case (Cons c cs)
    then show ?case using esc_chunk_length [of "fst c" "snd c" s] by (cases c) auto
  qed simp
  from this [OF subset_refl] show ?thesis by (simp add: enc_str_def concat_chunks)
qed

lemma dec_digits_length: "n < 10 ^ k \<Longrightarrow> 1 \<le> k \<Longrightarrow> length (dec_digits n) \<le> k"
proof (induction k arbitrary: n)
  case (Suc k)
  show ?case
  proof (cases "n < 10")
    case True
    then show ?thesis by (subst dec_digits.simps) simp
  next
    case False
    have "n div 10 < 10 ^ k" using Suc.prems by (simp add: div_less_iff_less_mult)
    moreover have "1 \<le> k" using False Suc.prems by (cases k) auto
    ultimately have "length (dec_digits (n div 10)) \<le> k" by (rule Suc.IH)
    then show ?thesis using False by (subst dec_digits.simps) simp
  qed
qed simp

lemma fmt_int_length: "length (fmt_int (sint (w :: goint))) \<le> 20"
proof -
  have "length (dec_digits (nat (sint w))) \<le> 19" "length (dec_digits (nat (- sint w))) \<le> 19"
    by (rule dec_digits_length; use sint64_range [of w] in simp)+
  then show ?thesis by (simp add: fmt_int_def)
qed

lemma join_length: "length (join ss) \<le> sum_list (map (\<lambda>s. length s + 1) ss)"
  by (induction ss rule: join.induct) auto

definition member_size :: "string \<times> json \<Rightarrow> nat" where
  "member_size kv = 6 * length (fst kv) + 4 + length (enc_json (snd kv))"

lemma enc_obj_length: "length (enc_json (JObj kvs)) \<le> 2 + sum_list (map member_size kvs)"
proof -
  have "sum_list (map (\<lambda>s. length s + 1) (map (\<lambda>(k, v). enc_str k @ CHR '':'' # enc_json v) kvs))
      \<le> sum_list (map member_size kvs)"
  proof (induction kvs)
    case (Cons kv kvs)
    then show ?case using enc_str_length [of "fst kv"] by (cases kv) (simp add: member_size_def)
  qed simp
  then show ?thesis
    using join_length [of "map (\<lambda>(k, v). enc_str k @ CHR '':'' # enc_json v) kvs"] by simp
qed

lemma opt_sizes:
  "sum_list (map member_size (opt_str k s)) \<le> 6 * length k + 6 * length s + 6"
  "sum_list (map member_size (opt_int k i)) \<le> 6 * length k + 24"
  "sum_list (map member_size (opt_bool k b)) \<le> 6 * length k + 9"
  using enc_str_length [of s] fmt_int_length [of i]
  by (auto simp: opt_str_def opt_int_def opt_bool_def member_size_def split: option.splits)

definition string_size :: "inmsg \<Rightarrow> nat" where
  "string_size m = length (m_T m) + length (m_Devid m) + length (m_Name m) + length (m_Plat m)
     + length (m_Ver m) + length (m_Proof m) + length (m_B m) + length (m_S m)"

lemma in_line_length: "length (in_line m) \<le> 6 * string_size m + 600"
proof -
  have "length (in_line m) \<le> 2 + sum_list (map member_size (in_fields m))"
    unfolding in_line_def marshal_in_def by (rule enc_obj_length)
  also have "sum_list (map member_size (in_fields m)) \<le> 6 * string_size m + 598"
    unfolding in_fields_def map_append sum_list_append string_size_def
    using opt_sizes(1) [of "''devid''" "m_Devid m"] opt_sizes(1) [of "''name''" "m_Name m"]
      opt_sizes(1) [of "''platform''" "m_Plat m"] opt_sizes(1) [of "''ver''" "m_Ver m"]
      opt_sizes(1) [of "''proof''" "m_Proof m"] opt_sizes(1) [of "''b''" "m_B m"]
      opt_sizes(1) [of "''s''" "m_S m"]
      opt_sizes(2) [of "''dx''" "m_Dx m"] opt_sizes(2) [of "''dy''" "m_Dy m"]
      opt_sizes(2) [of "''x''" "m_X m"] opt_sizes(2) [of "''y''" "m_Y m"]
      opt_sizes(2) [of "''code''" "m_Code m"] opt_sizes(2) [of "''mods''" "m_Mods m"]
      opt_sizes(2) [of "''ts''" "m_Ts m"] opt_sizes(3) [of "''down''" "m_Down m"]
      enc_str_length [of "m_T m"]
    by (simp add: member_size_def)
  finally show ?thesis by simp
qed

lemma in_short_strings: "6 * string_size m + 600 < max_token \<Longrightarrow> in_short m"
  using in_line_length [of m] by (simp add: in_short_def)

end
