(* ===== verification/Inject.thy ===== *)
theory Inject
  imports Frames
begin

text \<open>
  injector.go and inject_apply.go: the \<open>Injector\<close> interface as the datatype of its calls, and
  \<open>applyEvent\<close> as the calls it makes for one message.  The locale \<open>os_injector\<close> is what the
  server and the agents rely on in an implementation: an injector has a state, sees the
  environment of the moment (screen metrics, cursor) and emits OS events, and it looks at the
  strings of a call only as runes, so that a call whose strings went through JSON has the
  same effect.
\<close>

datatype call =
    MoveRel goint goint
  | MoveAbs goint goint
  | Button string bool
  | Scroll goint goint
  | Text string
  | Key goint goint bool
  | CloseInj

definition down_flag :: "inmsg \<Rightarrow> bool" where
  "down_flag m = (case m_Down m of None \<Rightarrow> False | Some d \<Rightarrow> d)"

definition applyEvent :: "inmsg \<Rightarrow> call list" where
  "applyEvent m =
    (if m_T m = ''move'' then [MoveRel (m_Dx m) (m_Dy m)]
     else if m_T m = ''moveabs'' then [MoveAbs (m_X m) (m_Y m)]
     else if m_T m = ''button'' then [Button (m_B m) (down_flag m)]
     else if m_T m = ''click'' then [Button (m_B m) True, Button (m_B m) False]
     else if m_T m = ''scroll'' then [Scroll (m_Dx m) (m_Dy m)]
     else if m_T m = ''text'' then [Text (m_S m)]
     else if m_T m = ''key'' then [Key (m_Code m) (m_Mods m) (down_flag m)]
     else [])"

definition event_types :: "string list" where
  "event_types = [''move'', ''moveabs'', ''button'', ''click'', ''scroll'', ''text'', ''key'']"

lemma applyEvent_unknown: "m_T m \<notin> set event_types \<Longrightarrow> applyEvent m = []"
  by (simp add: applyEvent_def event_types_def)

lemma applyEvent_no_close: "CloseInj \<notin> set (applyEvent m)"
  by (simp add: applyEvent_def)

fun norm_call :: "call \<Rightarrow> call" where
  "norm_call (Button b d) = Button (to_valid b) d"
| "norm_call (Text s) = Text (to_valid s)"
| "norm_call c = c"

subsection \<open>Strings after the trip\<close>

lemma encode_rune_low:
  assumes "r \<le> 0x10FFFF" and "\<And>c. c \<in> set (encode_rune r) \<Longrightarrow> byte_val c < (0x80::nat)"
  shows "r < 0x80"
proof (rule ccontr)
  assume ge: "\<not> r < 0x80"
  have c: "last (encode_rune r) \<in> set (encode_rune r)"
    by (rule last_in_set) simp
  have "0x80 \<le> (byte_val (last (encode_rune r)) :: nat)"
    by (rule encode_rune_high [OF _ assms(1) c]) (use ge in simp)
  with assms(2) [OF c] show False by linarith
qed

text \<open>An ASCII string that comes out of the trip is the string that went in.\<close>

lemma to_valid_eq_ascii:
  assumes "to_valid s = t" and "\<And>c. c \<in> set t \<Longrightarrow> byte_val c < (0x80::nat)"
  shows "s = t"
proof -
  have "b = encode_rune r" if rb: "(r, b) \<in> set (chunks s)" for r b
  proof -
    have "r \<in> set (runes s)" using rb by (force simp: runes_def)
    then have sub: "set (encode_rune r) \<subseteq> set t" using assms(1) by (auto simp: to_valid_def)
    have "r \<le> 0x10FFFF" using chunks_cases [OF rb] by (auto simp: scalar_def)
    then have "r < 0x80" by (rule encode_rune_low) (use assms(2) sub in blast)
    then have "r \<noteq> rune_error" by (simp add: rune_error_def)
    with chunks_cases [OF rb] show ?thesis by blast
  qed
  then have eq: "map snd (chunks s) = map (encode_rune \<circ> fst) (chunks s)" by auto
  have "s = to_valid s"
    using arg_cong [OF eq, of concat] by (simp only: concat_chunks to_valid_def runes_def map_map)
  then show ?thesis using assms(1) by simp
qed

lemma to_valid_literal_iff:
  assumes "\<And>c. c \<in> set t \<Longrightarrow> byte_val c < (0x80::nat)"
  shows "to_valid s = t \<longleftrightarrow> s = t"
  using to_valid_eq_ascii [OF _ assms] to_valid_ascii [OF assms] by blast

lemma event_type_iff:
  "t \<in> set event_types \<Longrightarrow> to_valid s = t \<longleftrightarrow> s = t"
  by (rule to_valid_literal_iff) (auto simp: event_types_def)

lemma applyEvent_norm: "applyEvent (norm_in m) = map norm_call (applyEvent m)"
proof -
  have t: "m_T (norm_in m) = t \<longleftrightarrow> m_T m = t" if "t \<in> set event_types" for t
    using event_type_iff [OF that] by (simp add: norm_in_def)
  show ?thesis
    by (simp add: applyEvent_def t event_types_def) (simp add: norm_in_def down_flag_def)
qed

subsection \<open>The contract of an injector\<close>

fun inject_all :: "('e \<Rightarrow> 's \<Rightarrow> call \<Rightarrow> 's \<times> 'ev list) \<Rightarrow> 's \<Rightarrow> ('e \<times> call) list \<Rightarrow> 's \<times> 'ev list" where
  "inject_all inject st [] = (st, [])"
| "inject_all inject st ((e, c) # ecs) =
    (let (st1, evs1) = inject e st c; (st2, evs2) = inject_all inject st1 ecs in (st2, evs1 @ evs2))"

locale os_injector =
  fixes inject :: "'e \<Rightarrow> 's \<Rightarrow> call \<Rightarrow> 's \<times> 'ev list"
  assumes inject_norm: "inject e st (norm_call c) = inject e st c"
    and inject_close: "inject e st CloseInj = (st, [])"
begin

lemma inject_all_norm:
  "inject_all inject st (map (\<lambda>(e, c). (e, norm_call c)) ecs) = inject_all inject st ecs"
  by (induction ecs arbitrary: st) (auto simp: inject_norm)

lemma inject_all_zip_norm:
  "inject_all inject st (zip es (map norm_call cs)) = inject_all inject st (zip es cs)"
  using inject_all_norm [of st "zip es cs"] by (simp add: zip_map2)

lemma inject_all_append:
  "inject_all inject st (xs @ ys) =
     (let (st1, e1) = inject_all inject st xs; (st2, e2) = inject_all inject st1 ys in (st2, e1 @ e2))"
  by (induction xs arbitrary: st) (auto simp: Let_def split: prod.splits)

end

end
