(* ===== verification/Keys.thy ===== *)
theory Keys
  imports Inject
begin

unbundle bit_operations_syntax

text \<open>
  keys.go and the two translation tables built on it: \<open>vkFor\<close> (injector_windows.go) to
  Win32 virtual keys, \<open>macKey\<close> and \<open>macFlags\<close> (injector_darwin.go) to CGKeyCodes and
  CGEventFlags.  A neutral key code is a Go \<open>int\<close> from the wire, so the tables are
  functions of all 64-bit integers.
\<close>

subsection \<open>keys.go\<close>

definition ModCtrl :: goint where "ModCtrl = 1"
definition ModAlt :: goint where "ModAlt = 2"
definition ModShift :: goint where "ModShift = 4"
definition ModMeta :: goint where "ModMeta = 8"

datatype neutral_key =
    KeyEnter | KeyBack | KeyTab | KeyEsc | KeyDel
  | KeyArrowUp | KeyArrowDown | KeyArrowLeft | KeyArrowRight
  | KeyHome | KeyEnd | KeyPgUp | KeyPgDn
  | KeyF1
  | KeyVolDown | KeyVolUp | KeyMute | KeyPlayPause | KeyNext | KeyPrev

fun key_code :: "neutral_key \<Rightarrow> int" where
  "key_code KeyEnter = 1"
| "key_code KeyBack = 2"
| "key_code KeyTab = 3"
| "key_code KeyEsc = 4"
| "key_code KeyDel = 5"
| "key_code KeyArrowUp = 10"
| "key_code KeyArrowDown = 11"
| "key_code KeyArrowLeft = 12"
| "key_code KeyArrowRight = 13"
| "key_code KeyHome = 20"
| "key_code KeyEnd = 21"
| "key_code KeyPgUp = 22"
| "key_code KeyPgDn = 23"
| "key_code KeyF1 = 30"
| "key_code KeyVolDown = 200"
| "key_code KeyVolUp = 201"
| "key_code KeyMute = 202"
| "key_code KeyPlayPause = 203"
| "key_code KeyNext = 204"
| "key_code KeyPrev = 205"

text \<open>The codes the protocol documents: letters, digits, F1 to F12 and the named keys.\<close>

definition protocol_codes :: "int set" where
  "protocol_codes = {65..90} \<union> {48..57} \<union> {30..41} \<union> {1..5} \<union> {10..13} \<union> {20..23} \<union> {200..205}"

subsection \<open>Windows virtual keys\<close>

definition vkFor :: "goint \<Rightarrow> uint16" where
  "vkFor c =
    (let code = sint c in
     if 65 \<le> code \<and> code \<le> 90 \<or> 48 \<le> code \<and> code \<le> 57 then word_of_int code
     else if key_code KeyF1 \<le> code \<and> code \<le> key_code KeyF1 + 11
       then word_of_int (0x70 + (code - key_code KeyF1))
     else if code = key_code KeyEnter then 0x0D
     else if code = key_code KeyBack then 0x08
     else if code = key_code KeyTab then 0x09
     else if code = key_code KeyEsc then 0x1B
     else if code = key_code KeyDel then 0x2E
     else if code = key_code KeyArrowLeft then 0x25
     else if code = key_code KeyArrowUp then 0x26
     else if code = key_code KeyArrowRight then 0x27
     else if code = key_code KeyArrowDown then 0x28
     else if code = key_code KeyHome then 0x24
     else if code = key_code KeyEnd then 0x23
     else if code = key_code KeyPgUp then 0x21
     else if code = key_code KeyPgDn then 0x22
     else if code = key_code KeyMute then 0xAD
     else if code = key_code KeyVolDown then 0xAE
     else if code = key_code KeyVolUp then 0xAF
     else if code = key_code KeyNext then 0xB0
     else if code = key_code KeyPrev then 0xB1
     else if code = key_code KeyPlayPause then 0xB3
     else 0)"

text \<open>
  What both tables are for: every code the protocol documents has a key of its own.  The
  facts are about finitely many codes, so they are computed over the list of them.
\<close>

definition protocol_list :: "int list" where
  "protocol_list = [65..90] @ [48..57] @ [30..41] @ [1..5] @ [10..13] @ [20..23] @ [200..205]"

lemma set_protocol_list: "set protocol_list = protocol_codes"
  by (simp only: protocol_list_def protocol_codes_def set_append set_upto Un_assoc)

lemma vkFor_distinct: "distinct (0 # map (\<lambda>k. vkFor (word_of_int k)) protocol_list)"
  by code_simp

lemma word_of_sint64: "(word_of_int (sint (c :: goint)) :: goint) = c"
  by simp

lemma sint64_inject: "sint (c :: goint) = sint d \<Longrightarrow> c = d"
  by (drule arg_cong [of _ _ "word_of_int :: int \<Rightarrow> goint"]) (simp only: word_of_sint64)

lemma vkFor_zero_iff: "vkFor c = 0 \<longleftrightarrow> sint c \<notin> protocol_codes"
proof
  assume z: "vkFor c = 0"
  show "sint c \<notin> protocol_codes"
  proof
    assume "sint c \<in> protocol_codes"
    then have "vkFor (word_of_int (sint c)) \<in> set (map (\<lambda>k. vkFor (word_of_int k)) protocol_list)"
      by (simp only: set_protocol_list [symmetric] set_map image_eqI)
    with z vkFor_distinct show False by simp
  qed
next
  assume "sint c \<notin> protocol_codes"
  then have n: "\<not> (65 \<le> sint c \<and> sint c \<le> 90)" "\<not> (48 \<le> sint c \<and> sint c \<le> 57)"
    "\<not> (30 \<le> sint c \<and> sint c \<le> 41)" "\<not> (1 \<le> sint c \<and> sint c \<le> 5)"
    "\<not> (10 \<le> sint c \<and> sint c \<le> 13)" "\<not> (20 \<le> sint c \<and> sint c \<le> 23)"
    "\<not> (200 \<le> sint c \<and> sint c \<le> 205)"
    by (simp_all only: protocol_codes_def Un_iff atLeastAtMost_iff de_Morgan_disj not_False_eq_True)
  have m: "sint c \<noteq> k" if "1 \<le> k \<and> k \<le> 5 \<or> 10 \<le> k \<and> k \<le> 13 \<or> 20 \<le> k \<and> k \<le> 23 \<or> 200 \<le> k \<and> k \<le> 205" for k
    using that n(4-7) by blast
  show "vkFor c = 0"
    using n(1-3) by (simp only: vkFor_def Let_def key_code.simps) (simp add: m, blast?)
qed

lemma vkFor_inject:
  assumes "vkFor c = vkFor d" and "vkFor c \<noteq> 0"
  shows "c = d"
proof -
  have "sint c \<in> set protocol_list" "sint d \<in> set protocol_list"
    using assms vkFor_zero_iff [of c] vkFor_zero_iff [of d] by (auto simp: set_protocol_list)
  moreover have "inj_on (\<lambda>k. vkFor (word_of_int k)) (set protocol_list)"
    using vkFor_distinct by (simp add: distinct_map)
  moreover have "vkFor (word_of_int (sint c)) = vkFor (word_of_int (sint d))" using assms(1) by simp
  ultimately have "sint c = sint d" by (simp only: inj_on_def)
  then show ?thesis by (rule sint64_inject)
qed

text \<open>No modifier shares its virtual key with a key of the table.\<close>

definition mod_vks :: "uint16 list" where
  "mod_vks = [0x11, 0x10, 0x12, 0x5B]"

lemma vkFor_not_mod: "vkFor c \<notin> set mod_vks"
proof (cases "sint c \<in> protocol_codes")
  case True
  have "\<forall>k \<in> set protocol_list. vkFor (word_of_int k) \<notin> set mod_vks" by code_simp
  with True have "vkFor (word_of_int (sint c)) \<notin> set mod_vks" unfolding set_protocol_list by blast
  then show ?thesis by (simp add: word_of_sint64)
next
  case False
  then show ?thesis using vkFor_zero_iff [of c] by (simp add: mod_vks_def)
qed

subsection \<open>macOS key codes\<close>

definition mac_fkeys :: "int list" where
  "mac_fkeys = [122, 120, 99, 118, 96, 97, 98, 100, 101, 109, 103, 111]"

definition macKey :: "goint \<Rightarrow> int" where
  "macKey c =
    (let code = sint c in
     if code = key_code KeyEnter then 36
     else if code = key_code KeyBack then 51
     else if code = key_code KeyTab then 48
     else if code = key_code KeyEsc then 53
     else if code = key_code KeyDel then 117
     else if code = key_code KeyArrowLeft then 123
     else if code = key_code KeyArrowRight then 124
     else if code = key_code KeyArrowDown then 125
     else if code = key_code KeyArrowUp then 126
     else if code = key_code KeyHome then 115
     else if code = key_code KeyEnd then 119
     else if code = key_code KeyPgUp then 116
     else if code = key_code KeyPgDn then 121
     else if code = 65 then 0
     else if code = 67 then 8
     else if code = 86 then 9
     else if code = 88 then 7
     else if code = 90 then 6
     else if key_code KeyF1 \<le> code \<and> code \<le> key_code KeyF1 + 11
       then mac_fkeys ! nat (code - key_code KeyF1)
     else -1)"

definition macFlags :: "goint \<Rightarrow> uint64" where
  "macFlags mods =
    (let f = 0;
         f = (if mods AND ModMeta \<noteq> 0 then f OR 0x100000 else f);
         f = (if mods AND ModShift \<noteq> 0 then f OR 0x20000 else f);
         f = (if mods AND ModCtrl \<noteq> 0 then f OR 0x40000 else f);
         f = (if mods AND ModAlt \<noteq> 0 then f OR 0x80000 else f)
     in f)"

definition mac_codes :: "int set" where
  "mac_codes = {65, 67, 86, 88, 90} \<union> {30..41} \<union> {1..5} \<union> {10..13} \<union> {20..23}"

definition mac_list :: "int list" where
  "mac_list = [65, 67, 86, 88, 90] @ [30..41] @ [1..5] @ [10..13] @ [20..23]"

lemma set_mac_list: "set mac_list = mac_codes"
  by (simp only: mac_list_def mac_codes_def set_append set_upto Un_assoc list.set)

lemma macKey_distinct: "distinct (map (\<lambda>k. macKey (word_of_int k)) mac_list)"
  by code_simp

lemma macKey_on_list: "\<forall>k \<in> set mac_list. 0 \<le> macKey (word_of_int k)"
  by code_simp

lemma macKey_neg_iff: "macKey c < 0 \<longleftrightarrow> sint c \<notin> mac_codes"
proof
  assume neg: "macKey c < 0"
  show "sint c \<notin> mac_codes"
  proof
    assume "sint c \<in> mac_codes"
    then have "0 \<le> macKey (word_of_int (sint c))" using macKey_on_list by (simp only: set_mac_list)
    with neg show False by simp
  qed
next
  assume "sint c \<notin> mac_codes"
  then show "macKey c < 0" by (auto simp: macKey_def mac_codes_def Let_def)
qed

lemma macKey_inject:
  assumes "macKey c = macKey d" and "0 \<le> macKey c"
  shows "c = d"
proof -
  have "sint c \<in> set mac_list" "sint d \<in> set mac_list"
    using assms macKey_neg_iff [of c] macKey_neg_iff [of d] by (auto simp: set_mac_list)
  moreover have "inj_on (\<lambda>k. macKey (word_of_int k)) (set mac_list)"
    using macKey_distinct by (simp add: distinct_map)
  moreover have "macKey (word_of_int (sint c)) = macKey (word_of_int (sint d))" using assms(1) by simp
  ultimately have "sint c = sint d" by (simp only: inj_on_def)
  then show ?thesis by (rule sint64_inject)
qed

text \<open>The modifier bits a Mac event carries are independent of each other.\<close>

lemma macFlags_bits:
  "macFlags mods AND 0x100000 \<noteq> 0 \<longleftrightarrow> mods AND ModMeta \<noteq> 0"
  "macFlags mods AND 0x20000 \<noteq> 0 \<longleftrightarrow> mods AND ModShift \<noteq> 0"
  "macFlags mods AND 0x40000 \<noteq> 0 \<longleftrightarrow> mods AND ModCtrl \<noteq> 0"
  "macFlags mods AND 0x80000 \<noteq> 0 \<longleftrightarrow> mods AND ModAlt \<noteq> 0"
  by (simp_all add: macFlags_def Let_def)

end
