(* ===== verification/WinInject.thy ===== *)
theory WinInject
  imports Keys "HOL-Library.Signed_Division"
begin

unbundle bit_operations_syntax

text \<open>
  injector_windows.go: \<open>winInjector\<close>, which turns the calls of the \<open>Injector\<close> interface into
  batches of Win32 INPUT records for SendInput.  The screen metrics and the cursor position
  the code asks user32 for are the environment of a call.  A batch of SendInput is one list;
  what SendInput does with it (and the logging around it) is outside the model.
\<close>

subsection \<open>The INPUT record\<close>

record mouseInput =
  mi_dx :: int32
  mi_dy :: int32
  mi_data :: uint32
  mi_flags :: uint32
  mi_time :: uint32
  mi_extra :: uint64

record keybdInput =
  ki_vk :: uint16
  ki_scan :: uint16
  ki_flags :: uint32
  ki_time :: uint32
  ki_extra :: uint64

text \<open>\<open>input\<close> is a union of the two, told apart by its \<open>typ\<close> field.\<close>

datatype os_input = MouseIn mouseInput | KeybdIn keybdInput

definition moveRelF :: uint32 where "moveRelF = 0x0001"
definition leftDown :: uint32 where "leftDown = 0x0002"
definition leftUp :: uint32 where "leftUp = 0x0004"
definition rightDown :: uint32 where "rightDown = 0x0008"
definition rightUp :: uint32 where "rightUp = 0x0010"
definition midDown :: uint32 where "midDown = 0x0020"
definition midUp :: uint32 where "midUp = 0x0040"
definition wheel :: uint32 where "wheel = 0x0800"
definition hwheel :: uint32 where "hwheel = 0x1000"
definition absoluteF :: uint32 where "absoluteF = 0x8000"
definition virtualDesk :: uint32 where "virtualDesk = 0x4000"
definition keyUnicode :: uint32 where "keyUnicode = 0x0004"
definition keyUp :: uint32 where "keyUp = 0x0002"
definition keyExtended :: uint32 where "keyExtended = 0x0001"
definition wheelDelta :: int32 where "wheelDelta = 120"

definition zero_mouse :: mouseInput where
  "zero_mouse = \<lparr>mi_dx = 0, mi_dy = 0, mi_data = 0, mi_flags = 0, mi_time = 0, mi_extra = 0\<rparr>"

definition zero_keybd :: keybdInput where
  "zero_keybd = \<lparr>ki_vk = 0, ki_scan = 0, ki_flags = 0, ki_time = 0, ki_extra = 0\<rparr>"

text \<open>What reaches SendInput: no call for an empty batch.\<close>

definition sendMany :: "os_input list \<Rightarrow> os_input list list" where
  "sendMany ins = (if ins = [] then [] else [ins])"

definition keyVK :: "uint16 \<Rightarrow> bool \<Rightarrow> os_input" where
  "keyVK vk up =
    (let k = zero_keybd\<lparr>ki_vk := vk\<rparr>;
         k = (if vk = 0xAD \<or> (0xAE \<le> vk \<and> vk \<le> 0xB3) then k\<lparr>ki_flags := ki_flags k OR keyExtended\<rparr> else k);
         k = (if up then k\<lparr>ki_flags := ki_flags k OR keyUp\<rparr> else k)
     in KeybdIn k)"

subsection \<open>Screen arithmetic\<close>

definition clampI32 :: "int32 \<Rightarrow> int32 \<Rightarrow> int32 \<Rightarrow> int32" where
  "clampI32 v lo hi = (if sint v < sint lo then lo else if sint hi < sint v then hi else v)"

definition maxI32 :: "int32 \<Rightarrow> int32 \<Rightarrow> int32" where
  "maxI32 a b = (if sint b < sint a then a else b)"

text \<open>Go's signed division on \<open>int64\<close> and \<open>int32\<close>: it truncates; the divisors here are positive.\<close>

definition div64 :: "64 word \<Rightarrow> 64 word \<Rightarrow> 64 word" where
  "div64 a b = word_of_int (sint a sdiv sint b)"

definition div32 :: "int32 \<Rightarrow> int32 \<Rightarrow> int32" where
  "div32 a b = word_of_int (sint a sdiv sint b)"

definition norm_axis :: "int32 \<Rightarrow> int32 \<Rightarrow> int32 \<Rightarrow> int32" where
  "norm_axis v org len =
     ucast (div64 (scast (clampI32 v org (org + len - 1) - org) * 65535) (scast (maxI32 (len - 1) 1)))"

definition normAbs :: "int32 \<Rightarrow> int32 \<Rightarrow> int32 \<Rightarrow> int32 \<Rightarrow> int32 \<Rightarrow> int32 \<Rightarrow> int32 \<times> int32" where
  "normAbs x y ox oy cw ch = (norm_axis x ox cw, norm_axis y oy ch)"

record win_env =
  sysMetric :: "nat \<Rightarrow> int32"
  cursorPos :: "(int32 \<times> int32) option"

definition virtualScreen :: "win_env \<Rightarrow> int32 \<times> int32 \<times> int32 \<times> int32" where
  "virtualScreen e =
    (let x = sysMetric e 76; y = sysMetric e 77; w = sysMetric e 78; h = sysMetric e 79;
         w = (if sint w \<le> 0 then sysMetric e 0 else w);
         h = (if sint h \<le> 0 then sysMetric e 1 else h);
         w = (if sint w \<le> 0 then 1 else w);
         h = (if sint h \<le> 0 then 1 else h)
     in (x, y, w, h))"

definition screenSize :: "win_env \<Rightarrow> goint \<times> goint" where
  "screenSize e =
    (let w = sysMetric e 0; h = sysMetric e 1;
         w = (if sint w \<le> 0 then 1 else w);
         h = (if sint h \<le> 0 then 1 else h)
     in (scast w, scast h))"

subsection \<open>The injector\<close>

record winInjector =
  wi_absolute :: bool
  wi_seeded :: bool
  wi_x :: int32
  wi_y :: int32

definition newInjector :: winInjector where
  "newInjector = \<lparr>wi_absolute = False, wi_seeded = False, wi_x = 0, wi_y = 0\<rparr>"

definition newSecureInjector :: winInjector where
  "newSecureInjector = \<lparr>wi_absolute = True, wi_seeded = False, wi_x = 0, wi_y = 0\<rparr>"

definition absMove :: "win_env \<Rightarrow> winInjector \<Rightarrow> goint \<Rightarrow> goint \<Rightarrow> winInjector \<times> os_input" where
  "absMove e w dx dy =
    (let (ox, oy, cw, ch) = virtualScreen e;
         w = (if \<not> wi_seeded w
              then (case cursorPos e of
                      Some (px, py) \<Rightarrow> w\<lparr>wi_x := px, wi_y := py, wi_seeded := True\<rparr>
                    | None \<Rightarrow> w\<lparr>wi_x := ox + div32 cw 2, wi_y := oy + div32 ch 2, wi_seeded := True\<rparr>)
              else w);
         w = w\<lparr>wi_x := clampI32 (wi_x w + ucast dx) ox (ox + cw - 1)\<rparr>;
         w = w\<lparr>wi_y := clampI32 (wi_y w + ucast dy) oy (oy + ch - 1)\<rparr>;
         (nx, ny) = normAbs (wi_x w) (wi_y w) ox oy cw ch
     in (w, MouseIn (zero_mouse\<lparr>mi_dx := nx, mi_dy := ny, mi_flags := moveRelF OR absoluteF OR virtualDesk\<rparr>)))"

definition win_MoveRel :: "win_env \<Rightarrow> winInjector \<Rightarrow> goint \<Rightarrow> goint \<Rightarrow> winInjector \<times> os_input list list" where
  "win_MoveRel e w dx dy =
    (if \<not> wi_absolute w
     then (w, sendMany [MouseIn (zero_mouse\<lparr>mi_dx := ucast dx, mi_dy := ucast dy, mi_flags := moveRelF\<rparr>)])
     else let (w, i) = absMove e w dx dy in (w, sendMany [i]))"

definition win_MoveAbs :: "goint \<Rightarrow> goint \<Rightarrow> os_input list list" where
  "win_MoveAbs nx ny =
    (let x = clampI32 (ucast nx) 0 65535; y = clampI32 (ucast ny) 0 65535
     in sendMany [MouseIn (zero_mouse\<lparr>mi_dx := x, mi_dy := y, mi_flags := moveRelF OR absoluteF\<rparr>)])"

definition buttonFlag :: "string \<Rightarrow> bool \<Rightarrow> uint32" where
  "buttonFlag btn down =
    (if btn = ''right'' then (if down then rightDown else rightUp)
     else if btn = ''middle'' then (if down then midDown else midUp)
     else (if down then leftDown else leftUp))"

definition win_Button :: "win_env \<Rightarrow> winInjector \<Rightarrow> string \<Rightarrow> bool \<Rightarrow> winInjector \<times> os_input list list" where
  "win_Button e w btn down =
    (let f = buttonFlag btn down; b = MouseIn (zero_mouse\<lparr>mi_flags := f\<rparr>) in
     if \<not> wi_absolute w then (w, sendMany [b])
     else let (w, i) = absMove e w 0 0 in (w, sendMany [i, b]))"

definition win_Scroll :: "goint \<Rightarrow> goint \<Rightarrow> os_input list list" where
  "win_Scroll dx dy =
     sendMany
      ((if dy \<noteq> 0 then [MouseIn (zero_mouse\<lparr>mi_data := ucast dy * wheelDelta, mi_flags := wheel\<rparr>)] else []) @
       (if dx \<noteq> 0 then [MouseIn (zero_mouse\<lparr>mi_data := ucast dx * wheelDelta, mi_flags := hwheel\<rparr>)] else []))"

definition unit_events :: "uint16 \<Rightarrow> os_input list" where
  "unit_events u =
    (let d = zero_keybd\<lparr>ki_scan := u, ki_flags := keyUnicode\<rparr>;
         d' = d\<lparr>ki_flags := keyUnicode OR keyUp\<rparr>
     in [KeybdIn d, KeybdIn d'])"

definition win_Text :: "string \<Rightarrow> os_input list list" where
  "win_Text s = sendMany (concat (map (\<lambda>r. concat (map unit_events (utf16Units r))) (runes s)))"

definition modKeys :: "goint \<Rightarrow> bool \<Rightarrow> os_input list" where
  "modKeys mods up =
     (if mods AND ModCtrl \<noteq> 0 then [keyVK 0x11 up] else []) @
     (if mods AND ModShift \<noteq> 0 then [keyVK 0x10 up] else []) @
     (if mods AND ModAlt \<noteq> 0 then [keyVK 0x12 up] else []) @
     (if mods AND ModMeta \<noteq> 0 then [keyVK 0x5B up] else [])"

definition win_Key :: "goint \<Rightarrow> goint \<Rightarrow> bool \<Rightarrow> os_input list list" where
  "win_Key code mods down =
    (let vk = vkFor code in
     if vk = 0 then []
     else sendMany
       (if down then modKeys mods False @ [keyVK vk False]
        else [keyVK vk True] @ modKeys mods True))"

fun win_inject :: "win_env \<Rightarrow> winInjector \<Rightarrow> call \<Rightarrow> winInjector \<times> os_input list list" where
  "win_inject e w (MoveRel dx dy) = win_MoveRel e w dx dy"
| "win_inject e w (MoveAbs nx ny) = (w, win_MoveAbs nx ny)"
| "win_inject e w (Button b d) = win_Button e w b d"
| "win_inject e w (Scroll dx dy) = (w, win_Scroll dx dy)"
| "win_inject e w (Text s) = (w, win_Text s)"
| "win_inject e w (Key c m d) = (w, win_Key c m d)"
| "win_inject e w CloseInj = (w, [])"

text \<open>The Windows injector keeps the contract the service path relies on.\<close>

lemma buttonFlag_norm: "buttonFlag (to_valid b) d = buttonFlag b d"
proof -
  have "to_valid b = ''right'' \<longleftrightarrow> b = ''right''" "to_valid b = ''middle'' \<longleftrightarrow> b = ''middle''"
    by (rule to_valid_literal_iff; force)+
  then show ?thesis by (simp add: buttonFlag_def)
qed

lemma win_inject_norm: "win_inject e w (norm_call c) = win_inject e w c"
  by (cases c) (simp_all add: win_Button_def buttonFlag_norm win_Text_def runes_to_valid)

interpretation win: os_injector win_inject
  by unfold_locales (simp_all add: win_inject_norm)

subsection \<open>Exact screen arithmetic\<close>

text \<open>A monitor layout whose coordinates stay within 32 bits, one axis at a time.\<close>

lemma sint_clampI32: "sint lo \<le> sint hi \<Longrightarrow> sint (clampI32 v lo hi) = max (sint lo) (min (sint v) (sint hi))"
  by (auto simp: clampI32_def)

lemma sint_maxI32: "sint (maxI32 a b) = max (sint a) (sint b)"
  by (auto simp: maxI32_def)

definition axis_ok :: "int32 \<Rightarrow> int32 \<Rightarrow> bool" where
  "axis_ok org len \<longleftrightarrow> 1 \<le> sint len \<and> sint org + sint len \<le> 2 ^ 31"

lemma sint_last:
  assumes "axis_ok org len"
  shows "sint (org + len - 1) = sint org + sint len - 1"
proof -
  have "sint (len - 1) = sint len - 1"
    using assms sint32_range [of len] by (subst sint_diff_exact) (auto simp: axis_ok_def)
  moreover have "sint (org + (len - 1)) = sint org + sint (len - 1)"
    using assms sint32_range [of len] sint32_range [of org]
    by (subst sint_add_exact) (auto simp: axis_ok_def calculation)
  ultimately show ?thesis by (simp add: algebra_simps)
qed

lemma sint_norm_axis:
    assumes "axis_ok org len"
    and p_def: "p = max (sint org) (min (sint v) (sint org + sint len - 1)) - sint org"
  shows "sint (norm_axis v org len) = p * 65535 div max (sint len - 1) 1"
    and "0 \<le> p * 65535 div max (sint len - 1) 1" and "p * 65535 div max (sint len - 1) 1 \<le> 65535"
proof -
  let ?d = "max (sint len - 1) 1"
  have l: "1 \<le> sint len" "sint len < 2 ^ 31" using assms sint32_range [of len] by (auto simp: axis_ok_def)
  have p: "0 \<le> p" "p \<le> sint len - 1" using l by (auto simp: p_def)
  have clamp: "sint (clampI32 v org (org + len - 1) - org) = p"
    using p l sint32_range [of org]
    by (subst sint_diff_exact) (auto simp: sint_clampI32 sint_last [OF assms(1)] p_def)
  have len1: "sint (maxI32 (len - 1) 1) = ?d"
    using l sint_diff_exact [of len 1] by (simp add: sint_maxI32)
  have pm: "p * 65535 \<le> 2147483647 * 65535" "0 \<le> p * 65535" using p l by auto
  have num: "sint (scast (clampI32 v org (org + len - 1) - org) * (65535 :: 64 word)) = p * 65535"
    using pm by (subst sint_mult_exact) (auto simp: sint_scast_up clamp)
  have q: "0 \<le> p * 65535 div ?d" "p * 65535 div ?d \<le> 65535"
  proof -
    show "0 \<le> p * 65535 div ?d" using p by (simp add: pos_imp_zdiv_nonneg_iff)
    have "p * 65535 \<le> ?d * 65535" using p by simp
    then have "p * 65535 div ?d \<le> (?d * 65535) div ?d" by (rule zdiv_mono1) simp
    then show "p * 65535 div ?d \<le> 65535" by simp
  qed
  have "p * 65535 sdiv ?d = p * 65535 div ?d"
    using p by (simp add: signed_divide_int_def sgn_if)
  then have "sint (div64 (scast (clampI32 v org (org + len - 1) - org) * 65535) (scast (maxI32 (len - 1) 1)))
      = p * 65535 div ?d"
    using q by (simp add: div64_def num len1 sint_scast_up sint_of_int_range)
  then show "sint (norm_axis v org len) = p * 65535 div ?d"
    using q by (simp add: norm_axis_def sint_ucast_down)
  show "0 \<le> p * 65535 div ?d" "p * 65535 div ?d \<le> 65535" by (fact q)+
qed


lemma norm_axis_first: "axis_ok org len \<Longrightarrow> sint (norm_axis org org len) = 0"
  using sint_norm_axis(1) [OF _ refl, of org len org] by (simp add: axis_ok_def)

lemma norm_axis_last:
  "axis_ok org len \<Longrightarrow> 2 \<le> sint len \<Longrightarrow> sint (norm_axis (org + len - 1) org len) = 65535"
  using sint_norm_axis(1) [OF _ refl, of org len "org + len - 1"] nonzero_mult_div_cancel_left [of "sint len - 1" 65535]
  by (simp add: sint_last)

lemma norm_axis_mono:
  assumes "axis_ok org len" and "sint v \<le> sint w"
  shows "sint (norm_axis v org len) \<le> sint (norm_axis w org len)"
  unfolding sint_norm_axis(1) [OF assms(1) refl]
  by (rule zdiv_mono1) (use assms(2) in auto)

subsection \<open>The tracked pointer\<close>

definition screen_ok :: "win_env \<Rightarrow> bool" where
  "screen_ok e = (case virtualScreen e of (ox, oy, cw, ch) \<Rightarrow> axis_ok ox cw \<and> axis_ok oy ch)"

definition on_axis :: "int32 \<Rightarrow> int32 \<Rightarrow> int32 \<Rightarrow> bool" where
  "on_axis v org len \<longleftrightarrow> sint org \<le> sint v \<and> sint v < sint org + sint len"

definition on_screen :: "win_env \<Rightarrow> winInjector \<Rightarrow> bool" where
  "on_screen e w = (case virtualScreen e of (ox, oy, cw, ch) \<Rightarrow>
     wi_seeded w \<and> on_axis (wi_x w) ox cw \<and> on_axis (wi_y w) oy ch)"

fun abs_event_ok :: "os_input \<Rightarrow> bool" where
  "abs_event_ok (MouseIn m) \<longleftrightarrow>
     mi_flags m = 0xC001 \<and> 0 \<le> sint (mi_dx m) \<and> sint (mi_dx m) \<le> 65535 \<and> 0 \<le> sint (mi_dy m) \<and> sint (mi_dy m) \<le> 65535"
| "abs_event_ok (KeybdIn _) \<longleftrightarrow> False"

lemma clamp_on_axis: "axis_ok org len \<Longrightarrow> on_axis (clampI32 v org (org + len - 1)) org len"
  by (auto simp: on_axis_def sint_clampI32 sint_last axis_ok_def)

lemma norm_axis_range:
  "axis_ok org len \<Longrightarrow> 0 \<le> sint (norm_axis v org len) \<and> sint (norm_axis v org len) \<le> 65535"
  using sint_norm_axis [OF _ refl, of org len v] by simp

lemma abs_flags: "moveRelF OR absoluteF OR virtualDesk = (0xC001 :: uint32)"
  by (simp add: moveRelF_def absoluteF_def virtualDesk_def)

lemma absMove_on_screen:
  assumes "screen_ok e" and "absMove e w dx dy = (w', i)"
  shows "on_screen e w' \<and> wi_absolute w' = wi_absolute w \<and> abs_event_ok i"
proof -
  obtain ox oy cw ch where v: "virtualScreen e = (ox, oy, cw, ch)" by (cases "virtualScreen e") auto
  with assms(1) have ok: "axis_ok ox cw" "axis_ok oy ch" by (simp_all add: screen_ok_def)
  show ?thesis
    using assms(2) clamp_on_axis [OF ok(1)] clamp_on_axis [OF ok(2)] norm_axis_range [OF ok(1)] norm_axis_range [OF ok(2)]
    by (auto simp: absMove_def v Let_def normAbs_def on_screen_def abs_flags split: if_splits option.splits)
qed

text \<open>Going to 32 bits keeps a number that fits and wraps one that does not.\<close>

definition fits32 :: "int \<Rightarrow> bool" where
  "fits32 i \<longleftrightarrow> - (2 ^ 31) \<le> i \<and> i < 2 ^ 31"

definition wrap32 :: "int \<Rightarrow> int" where
  "wrap32 i = (i + 2 ^ 31) mod 2 ^ 32 - 2 ^ 31"

lemma wrap32_fits: "fits32 i \<Longrightarrow> wrap32 i = i"
  by (simp add: wrap32_def fits32_def)

lemma wrap32_above:
  assumes "2 ^ 31 \<le> i" and "i < 2 ^ 32"
  shows "wrap32 i = i - 2 ^ 32"
proof -
  have "(i + 2 ^ 31) mod 2 ^ 32 = (i + 2 ^ 31 - 2 ^ 32) mod 2 ^ 32" by (simp only: minus_mod_self2)
  also have "\<dots> = i + 2 ^ 31 - 2 ^ 32" by (rule mod_pos_pos_trivial) (use assms in simp_all)
  finally show ?thesis by (simp add: wrap32_def)
qed

lemma sint_int32: "sint (word_of_int i :: int32) = wrap32 i"
  by (simp add: wrap32_def sint_sbintrunc' signed_take_bit_eq_take_bit_shift take_bit_eq_mod)

lemma ucast_goint: "(ucast (n :: goint) :: int32) = word_of_int (sint n)"
  by transfer (simp add: take_bit_signed_take_bit)

lemma sint_ucast_wrap: "sint (ucast (n :: goint) :: int32) = wrap32 (sint n)"
  by (simp only: ucast_goint sint_int32)

lemma sint_add_wrap: "sint (x + ucast (n :: goint) :: int32) = wrap32 (sint x + sint n)"
proof -
  have "x + ucast n = word_of_int (sint x + sint n)" by (simp only: ucast_goint of_int_add of_int_sint scast_id)
  then show ?thesis by (simp only: sint_int32)
qed

text \<open>Where the pointer is before a move: tracked, or asked for, or the middle of the screen.\<close>

definition start_pointer :: "win_env \<Rightarrow> winInjector \<Rightarrow> int32 \<times> int32" where
  "start_pointer e w =
    (if wi_seeded w then (wi_x w, wi_y w)
     else case cursorPos e of
         Some pos \<Rightarrow> pos
       | None \<Rightarrow> (case virtualScreen e of (ox, oy, cw, ch) \<Rightarrow> (ox + div32 cw 2, oy + div32 ch 2)))"

definition axis_pos :: "int \<Rightarrow> int \<Rightarrow> int \<Rightarrow> int" where
  "axis_pos org len i = max org (min (wrap32 i) (org + len - 1))"

definition axis_coord :: "int \<Rightarrow> int \<Rightarrow> int \<Rightarrow> int" where
  "axis_coord org len i = (i - org) * 65535 div max (len - 1) 1"

lemma axis_move:
  assumes "axis_ok org len"
  shows "sint (clampI32 (x + ucast (dx :: goint)) org (org + len - 1)) = axis_pos (sint org) (sint len) (sint x + sint dx)"
    and "sint (norm_axis (clampI32 (x + ucast dx) org (org + len - 1)) org len) =
      axis_coord (sint org) (sint len) (axis_pos (sint org) (sint len) (sint x + sint dx))"
proof -
  have len: "1 \<le> sint len" using assms by (simp add: axis_ok_def)
  show c: "sint (clampI32 (x + ucast dx) org (org + len - 1)) = axis_pos (sint org) (sint len) (sint x + sint dx)"
    using len by (simp add: axis_pos_def sint_clampI32 sint_last [OF assms] sint_add_wrap)
  have "max (sint org) (min (axis_pos (sint org) (sint len) i) (sint org + sint len - 1)) = axis_pos (sint org) (sint len) i" for i
    using len by (auto simp: axis_pos_def)
  then show "sint (norm_axis (clampI32 (x + ucast dx) org (org + len - 1)) org len) =
      axis_coord (sint org) (sint len) (axis_pos (sint org) (sint len) (sint x + sint dx))"
    using sint_norm_axis(1) [OF assms refl] by (simp add: axis_coord_def c)
qed

lemma absMove_exact:
  assumes "virtualScreen e = (ox, oy, cw, ch)" and "axis_ok ox cw" and "axis_ok oy ch" and "start_pointer e w = (x, y)"
    and "x' = axis_pos (sint ox) (sint cw) (sint x + sint dx)" and "y' = axis_pos (sint oy) (sint ch) (sint y + sint dy)"
  shows "\<exists>w' m. absMove e w dx dy = (w', MouseIn m) \<and> start_pointer e' w' = (wi_x w', wi_y w') \<and>
    sint (wi_x w') = x' \<and> sint (wi_y w') = y' \<and>
    sint (mi_dx m) = axis_coord (sint ox) (sint cw) x' \<and> sint (mi_dy m) = axis_coord (sint oy) (sint ch) y'"
  using assms(1,4) axis_move [OF assms(2), of x dx] axis_move [OF assms(3), of y dy]
  by (auto simp: absMove_def start_pointer_def Let_def normAbs_def assms(5,6) split: if_splits option.splits)

subsection \<open>The keyboard\<close>

text \<open>
  What the OS keeps of a keyboard: what is down.  An event with KEYEVENTF_UNICODE presses or releases the
  character of its scan code, any other one its virtual key.
\<close>

datatype pressed = VirtualKey uint16 | UnicodeUnit uint16

definition pressed_by :: "keybdInput \<Rightarrow> pressed" where
  "pressed_by k = (if ki_flags k AND keyUnicode \<noteq> 0 then UnicodeUnit (ki_scan k) else VirtualKey (ki_vk k))"

fun held :: "os_input list \<Rightarrow> pressed set \<Rightarrow> pressed set" where
  "held [] K = K"
| "held (MouseIn _ # is) K = held is K"
| "held (KeybdIn k # is) K =
     held is (if ki_flags k AND keyUp \<noteq> 0 then K - {pressed_by k} else insert (pressed_by k) K)"

definition mods_of :: "goint \<Rightarrow> pressed set" where
  "mods_of mods = (if mods AND ModCtrl \<noteq> 0 then {VirtualKey 0x11} else {}) \<union> (if mods AND ModShift \<noteq> 0 then {VirtualKey 0x10} else {})
     \<union> (if mods AND ModAlt \<noteq> 0 then {VirtualKey 0x12} else {}) \<union> (if mods AND ModMeta \<noteq> 0 then {VirtualKey 0x5B} else {})"

lemma concat_sendMany: "concat (sendMany ins) = ins"
  by (simp add: sendMany_def)

lemma held_append: "held (xs @ ys) K = held ys (held xs K)"
  by (induction xs K rule: held.induct) auto

lemma held_keyVK: "held [keyVK vk up] K = (if up then K - {VirtualKey vk} else insert (VirtualKey vk) K)"
  by (simp add: pressed_by_def keyVK_def zero_keybd_def keyUnicode_def keyUp_def keyExtended_def Let_def)

lemma held_modKeys: "held (modKeys mods up) K = (if up then K - mods_of mods else K \<union> mods_of mods)"
  by (auto simp: modKeys_def held_append held_keyVK mods_of_def)

lemma mods_of_sub: "mods_of mods \<subseteq> VirtualKey ` set mod_vks"
  by (auto simp: mods_of_def mod_vks_def)

lemma win_Key_down:
  "vkFor c \<noteq> 0 \<Longrightarrow> held (concat (win_Key c m True)) K = insert (VirtualKey (vkFor c)) (K \<union> mods_of m)"
  by (simp add: win_Key_def concat_sendMany held_append held_modKeys held_keyVK)

lemma win_Key_up:
  "vkFor c \<noteq> 0 \<Longrightarrow> held (concat (win_Key c m False)) K = K - {VirtualKey (vkFor c)} - mods_of m"
  using held_append [of "[keyVK (vkFor c) True]" "modKeys m True" K]
  by (simp add: win_Key_def sendMany_def held_modKeys held_keyVK)

lemma win_Key_chord:
  assumes "vkFor c \<noteq> 0" and "VirtualKey (vkFor c) \<notin> K" and "K \<inter> mods_of m = {}"
  shows "held (concat (win_Key c m False)) (held (concat (win_Key c m True)) K) = K"
  using assms by (auto simp: win_Key_down win_Key_up)

subsection \<open>Text\<close>

lemma concat_units: "concat (map (\<lambda>r. concat (map unit_events (utf16Units r))) rs) = concat (map unit_events (concat (map utf16Units rs)))"
  by (induction rs) simp_all

lemma unit_events_held: "held (unit_events u) K = K - {UnicodeUnit u}"
  by (simp add: unit_events_def pressed_by_def Let_def zero_keybd_def keyUnicode_def keyUp_def)

lemma concat_units_held: "held (concat (map unit_events us)) K = K - UnicodeUnit ` set us"
  by (induction us arbitrary: K) (auto simp: held_append unit_events_held)

lemma win_Text_held: "held (concat (win_Text s)) K = K - UnicodeUnit ` set (concat (map utf16Units (runes s)))"
  by (simp only: win_Text_def concat_sendMany concat_units concat_units_held)

text \<open>The strokes of a text: each unit goes down and up again before the next one.\<close>

fun strokes :: "os_input list \<Rightarrow> uint16 list option" where
  "strokes [] = Some []"
| "strokes (KeybdIn d # KeybdIn u # is) =
    (if d = zero_keybd\<lparr>ki_scan := ki_scan d, ki_flags := keyUnicode\<rparr> \<and> u = d\<lparr>ki_flags := keyUnicode OR keyUp\<rparr>
     then map_option ((#) (ki_scan d)) (strokes is) else None)"
| "strokes _ = None"

lemma strokes_units: "strokes (concat (map unit_events us)) = Some us"
  by (induction us) (simp_all add: unit_events_def Let_def)

lemma win_Text_strokes: "strokes (concat (win_Text s)) = Some (concat (map utf16Units (runes s)))"
  by (simp only: win_Text_def concat_sendMany concat_units strokes_units)

subsection \<open>Edges of the arithmetic\<close>

definition abs_coord :: "goint \<Rightarrow> int32" where
  "abs_coord n = clampI32 (ucast n) 0 65535"

lemma win_MoveAbs_coord:
  "win_MoveAbs nx ny = [[MouseIn (zero_mouse\<lparr>mi_dx := abs_coord nx, mi_dy := abs_coord ny, mi_flags := 0x8001\<rparr>)]]"
  by (simp add: win_MoveAbs_def abs_coord_def sendMany_def moveRelF_def absoluteF_def)

lemma abs_coord_range: "0 \<le> sint (abs_coord n) \<and> sint (abs_coord n) \<le> 65535"
  by (simp add: abs_coord_def sint_clampI32)

lemma abs_coord_exact: "sint (abs_coord n) = max 0 (min (wrap32 (sint n)) 65535)"
  by (simp add: abs_coord_def sint_clampI32 sint_ucast_wrap)

subsection \<open>Every call\<close>

fun legal_input :: "os_input \<Rightarrow> bool" where
  "legal_input (MouseIn m) \<longleftrightarrow> mi_flags m AND absoluteF \<noteq> 0 \<longrightarrow>
     0 \<le> sint (mi_dx m) \<and> sint (mi_dx m) \<le> 65535 \<and> 0 \<le> sint (mi_dy m) \<and> sint (mi_dy m) \<le> 65535"
| "legal_input (KeybdIn _) \<longleftrightarrow> True"

definition all_legal :: "os_input list list \<Rightarrow> bool" where
  "all_legal bs = list_all (list_all legal_input) bs"

lemma all_legal_iff: "all_legal bs \<longleftrightarrow> (\<forall>b \<in> set bs. \<forall>i \<in> set b. legal_input i)"
  by (simp add: all_legal_def list_all_iff)

lemma abs_event_legal: "abs_event_ok i \<Longrightarrow> legal_input i"
  by (cases i) simp_all

lemma button_legal: "legal_input (MouseIn (zero_mouse\<lparr>mi_flags := buttonFlag b d\<rparr>))"
  by (simp add: zero_mouse_def)

lemma keyboard_legal: "i \<in> set (modKeys m u) \<Longrightarrow> legal_input i" "legal_input (keyVK vk u)"
  by (auto simp: modKeys_def keyVK_def Let_def split: if_splits)

lemma text_legal: "i \<in> set (concat (map unit_events us)) \<Longrightarrow> legal_input i"
  by (auto simp: unit_events_def Let_def)

lemma win_inject_legal:
  assumes "screen_ok e" and "win_inject e w c = (w', bs)"
  shows "\<forall>b \<in> set bs. \<forall>i \<in> set b. legal_input i"
proof (cases c)
  case (MoveRel dx dy)
  obtain w1 i where A: "absMove e w dx dy = (w1, i)" by fastforce
  from abs_event_legal absMove_on_screen [OF assms(1) A] assms(2) MoveRel A show ?thesis
    by (auto simp: win_MoveRel_def sendMany_def moveRelF_def absoluteF_def split: if_splits)
next
  case (MoveAbs nx ny)
  with assms(2) abs_coord_range show ?thesis by (auto simp: win_MoveAbs_coord)
next
  case (Button b d)
  obtain w1 i where A: "absMove e w 0 0 = (w1, i)" by fastforce
  from abs_event_legal absMove_on_screen [OF assms(1) A] assms(2) Button A button_legal show ?thesis
    by (auto simp: win_Button_def sendMany_def Let_def split: if_splits)
next
  case (Scroll dx dy)
  with assms(2) show ?thesis
    by (auto simp: win_Scroll_def sendMany_def wheel_def hwheel_def absoluteF_def split: if_splits)
next
  case (Text s)
  with assms(2) text_legal [of _ "concat (map utf16Units (runes s))"] show ?thesis
    unfolding win_Text_def concat_units by (auto simp: win_Text_def sendMany_def concat_units split: if_splits)
next
  case (Key k m d)
  with assms(2) keyboard_legal show ?thesis
    by (auto simp: win_Key_def sendMany_def Let_def split: if_splits)
qed (use assms(2) in simp)

lemma win_inject_all_legal:
  "(\<And>e c. (e, c) \<in> set ecs \<Longrightarrow> screen_ok e) \<Longrightarrow> inject_all win_inject w ecs = (w', bs) \<Longrightarrow>
    \<forall>b \<in> set bs. \<forall>i \<in> set b. legal_input i"
proof (induction ecs arbitrary: w w' bs)
  case (Cons ec ecs)
  obtain e c where ec: "ec = (e, c)" by (cases ec)
  obtain w1 b1 where 1: "win_inject e w c = (w1, b1)" by fastforce
  obtain w2 b2 where 2: "inject_all win_inject w1 ecs = (w2, b2)" by fastforce
  have "\<forall>b \<in> set b2. \<forall>i \<in> set b. legal_input i" by (rule Cons.IH [OF _ 2]) (use Cons.prems(1) in auto)
  moreover have "\<forall>b \<in> set b1. \<forall>i \<in> set b. legal_input i"
    by (rule win_inject_legal [OF _ 1]) (use Cons.prems(1) ec in auto)
  ultimately show ?case using Cons.prems(2) 1 2 by (auto simp: ec)
qed simp

end
