(* ===== verification/Double.thy ===== *)
theory Double
  imports Complex_Main "HOL-Library.Log_Nat"
begin

text \<open>
  The arithmetic of the C type double: an operation on doubles gives the rational result rounded
  to 53 bits, ties to even.  Overflow and the denormal numbers are left out; the coordinates of a
  screen reach neither.
\<close>

subsection \<open>Rounding to an integer\<close>

definition round_even :: "rat \<Rightarrow> int" where
  "round_even x =
    (let f = \<lfloor>x\<rfloor>; d = x - of_int f
     in if d < 1 / 2 then f else if 1 / 2 < d then f + 1 else if even f then f else f + 1)"

lemma round_even_near: "\<lfloor>x\<rfloor> \<le> round_even x" "round_even x \<le> \<lfloor>x\<rfloor> + 1"
  by (simp_all add: round_even_def Let_def)

lemma round_even_int [simp]: "round_even (of_int i) = i"
  by (simp add: round_even_def)

lemma round_even_mono:
  assumes "x \<le> y"
  shows "round_even x \<le> round_even y"
proof (cases "\<lfloor>x\<rfloor> = \<lfloor>y\<rfloor>")
  case True
  with assms show ?thesis by (auto simp: round_even_def Let_def)
next
  case False
  with floor_mono [OF assms] have "\<lfloor>x\<rfloor> + 1 \<le> \<lfloor>y\<rfloor>" by simp
  with round_even_near [of x] round_even_near [of y] show ?thesis by linarith
qed

subsection \<open>Powers of two\<close>

abbreviation pow2 :: "int \<Rightarrow> rat" where
  "pow2 e \<equiv> 2 powi e"

lemma pow2_Suc: "pow2 (e + 1) = 2 * pow2 e"
  by (simp add: power_int_add)

lemma pow2_mono: "a \<le> b \<Longrightarrow> pow2 a \<le> pow2 b"
  by (rule power_int_increasing) simp_all

lemma pow2_diff: "pow2 (int a - int b) = 2 ^ a / 2 ^ b"
  by (simp add: power_int_diff)

lemma pow2_less: "pow2 a < pow2 b \<Longrightarrow> a < b"
  using pow2_mono [of b a] by linarith

text \<open>The binary exponent of a positive rational.\<close>

definition ilog2 :: "rat \<Rightarrow> int" where
  "ilog2 x =
    (case quotient_of x of (n, d) \<Rightarrow>
       let e = int (floorlog 2 (nat n)) - int (floorlog 2 (nat d)) in if pow2 e \<le> x then e else e - 1)"

lemma ilog2_bounds:
  assumes "0 < x"
  shows "pow2 (ilog2 x) \<le> x" and "x < pow2 (ilog2 x + 1)"
proof -
  obtain n d where q: "quotient_of x = (n, d)" by (cases "quotient_of x")
  have x: "x = of_int n / of_int d" and d: "0 < d" using q by (simp_all add: quotient_of_div quotient_of_denom_pos)
  with assms have n: "0 < n" by (simp add: zero_less_divide_iff)
  define a b where "a = floorlog 2 (nat n)" and "b = floorlog 2 (nat d)"
  have A: "2 ^ (a - 1) \<le> nat n" "nat n < 2 ^ a" and B: "2 ^ (b - 1) \<le> nat d" "nat d < 2 ^ b"
    using floorlog_bounds [of "nat n" 2] floorlog_bounds [of "nat d" 2] n d by (simp_all add: a_def b_def)
  have pos: "0 < a" "0 < b" using A(2) B(2) n d by (auto intro!: gr0I)
  have "of_nat (2 ^ (a - 1)) \<le> (of_nat (nat n) :: rat)" "of_nat (nat n) < (of_nat (2 ^ a) :: rat)"
    "of_nat (2 ^ (b - 1)) \<le> (of_nat (nat d) :: rat)" "of_nat (nat d) < (of_nat (2 ^ b) :: rat)"
    using A B by (simp_all only: of_nat_le_iff of_nat_less_iff)
  then have A': "2 ^ (a - 1) \<le> (of_int n :: rat)" "of_int n < (2 ^ a :: rat)"
    and B': "2 ^ (b - 1) \<le> (of_int d :: rat)" "of_int d < (2 ^ b :: rat)"
    using n d by simp_all
  define e where "e = int a - int b"
  have lo: "pow2 (e - 1) = 2 ^ (a - 1) / 2 ^ b"
  proof -
    have "e - 1 = int (a - 1) - int b" using pos by (simp add: e_def)
    then show ?thesis by (simp only: pow2_diff)
  qed
  have hi: "pow2 (e + 1) = 2 ^ a / 2 ^ (b - 1)"
  proof -
    have "e + 1 = int a - int (b - 1)" using pos by (simp add: e_def)
    then show ?thesis by (simp only: pow2_diff)
  qed
  have "pow2 (e - 1) \<le> x" and "x < pow2 (e + 1)"
    unfolding lo hi x using A' B' n d by (auto intro!: frac_le frac_less)
  moreover have "ilog2 x = (if pow2 e \<le> x then e else e - 1)"
    by (simp add: ilog2_def q e_def a_def b_def Let_def)
  ultimately show "pow2 (ilog2 x) \<le> x" and "x < pow2 (ilog2 x + 1)" by simp_all
qed

subsection \<open>Rounding to a double\<close>

definition ulp :: "rat \<Rightarrow> rat" where
  "ulp x = pow2 (ilog2 x - 52)"

definition round_pos :: "rat \<Rightarrow> rat" where
  "round_pos x = of_int (round_even (x / ulp x)) * ulp x"

definition round64 :: "rat \<Rightarrow> rat" where
  "round64 x = (if x = 0 then 0 else if 0 < x then round_pos x else - round_pos (- x))"

lemma ulp_scale: "pow2 (ilog2 x) = 2 ^ 52 * ulp x" "pow2 (ilog2 x + 1) = 2 ^ 53 * ulp x" "0 < ulp x"
proof -
  have "ilog2 x = ilog2 x - 52 + int 52" "ilog2 x + 1 = ilog2 x - 52 + int 53" by simp_all
  then show "pow2 (ilog2 x) = 2 ^ 52 * ulp x" "pow2 (ilog2 x + 1) = 2 ^ 53 * ulp x"
    unfolding ulp_def by (metis mult.commute power_int_add power_int_of_nat zero_neq_numeral)+
qed (simp add: ulp_def)

lemma round_pos_bounds:
  assumes "0 < x"
  shows "pow2 (ilog2 x) \<le> round_pos x" and "round_pos x \<le> pow2 (ilog2 x + 1)"
proof -
  have "2 ^ 52 \<le> x / ulp x" "x / ulp x \<le> 2 ^ 53"
    using ilog2_bounds [OF assms] ulp_scale [of x] by (simp_all add: pos_le_divide_eq pos_divide_le_eq)
  then have "round_even (of_int (2 ^ 52)) \<le> round_even (x / ulp x)" "round_even (x / ulp x) \<le> round_even (of_int (2 ^ 53))"
    by (intro round_even_mono; simp)+
  then have "of_int (2 ^ 52) \<le> (of_int (round_even (x / ulp x)) :: rat)" "(of_int (round_even (x / ulp x)) :: rat) \<le> of_int (2 ^ 53)"
    by (simp_all only: round_even_int of_int_le_iff)
  then show "pow2 (ilog2 x) \<le> round_pos x" and "round_pos x \<le> pow2 (ilog2 x + 1)"
    using ulp_scale [of x] by (simp_all add: round_pos_def)
qed

lemma round_pos_mono:
  assumes "0 < x" and "x \<le> y"
  shows "round_pos x \<le> round_pos y"
proof -
  have y: "0 < y" using assms by simp
  have "pow2 (ilog2 x) < pow2 (ilog2 y + 1)" using ilog2_bounds [OF assms(1)] ilog2_bounds [OF y] assms(2) by linarith
  then have "ilog2 x \<le> ilog2 y" using pow2_less by fastforce
  then consider "ilog2 x = ilog2 y" | "ilog2 x + 1 \<le> ilog2 y" by linarith
  then show ?thesis
  proof cases
    case 1
    then have "ulp x = ulp y" by (simp add: ulp_def)
    moreover have "round_even (x / ulp y) \<le> round_even (y / ulp y)"
      using assms(2) ulp_scale(3) [of y] by (intro round_even_mono) (simp add: divide_right_mono)
    ultimately show ?thesis using ulp_scale(3) [of y] by (simp add: round_pos_def)
  next
    case 2
    then show ?thesis
      using round_pos_bounds(2) [OF assms(1)] pow2_mono [OF 2] round_pos_bounds(1) [OF y] by linarith
  qed
qed

lemma round_pos_int:
  assumes "0 < i" and "i \<le> 2 ^ 53"
  shows "round_pos (of_int i) = of_int i"
proof -
  have "\<exists>j. of_int i / ulp (of_int i) = of_int j"
  proof (cases "ilog2 (of_int i) \<le> 52")
    case True
    define k where "k = nat (52 - ilog2 (of_int i))"
    have "ilog2 (of_int i) - 52 = - int k" using True by (simp add: k_def)
    then have "ulp (of_int i) = inverse (2 ^ k)" by (simp add: ulp_def power_int_minus)
    then have "of_int i / ulp (of_int i) = of_int (i * 2 ^ k)" by (simp add: divide_inverse)
    then show ?thesis by blast
  next
    case False
    have "pow2 (ilog2 (of_int i)) \<le> of_int i" using assms(1) by (intro ilog2_bounds) simp
    also have "\<dots> \<le> pow2 53" using assms(2) by (metis of_int_le_iff of_int_numeral of_int_power power_int_numeral)
    finally have "\<not> pow2 53 < pow2 (ilog2 (of_int i))" by simp
    moreover have "pow2 53 \<le> pow2 (ilog2 (of_int i))" using False by (intro pow2_mono) simp
    moreover have "pow2 (ilog2 (of_int i)) \<le> of_int i" using assms(1) by (intro ilog2_bounds) simp
    moreover have "of_int i \<le> (2 :: rat) ^ 53" using assms(2) by (metis of_int_le_iff of_int_numeral of_int_power)
    ultimately have "of_int i = (2 ^ 53 :: rat)" by simp
    moreover have "ulp (of_int i) = 2"
      using ulp_scale(1) [of "of_int i"] \<open>\<not> pow2 53 < pow2 (ilog2 (of_int i))\<close> \<open>pow2 53 \<le> pow2 (ilog2 (of_int i))\<close>
      by simp
    ultimately have "of_int i / ulp (of_int i) = of_int (2 ^ 52)" by simp
    then show ?thesis by blast
  qed
  then obtain j where j: "of_int i / ulp (of_int i) = of_int j" by blast
  then have "of_int j * ulp (of_int i) = of_int i" using ulp_scale(3) [of "of_int i"] by (simp add: divide_eq_eq)
  with j show ?thesis by (simp add: round_pos_def)
qed

subsection \<open>The contract of the arithmetic\<close>

text \<open>
  What the code relies on: rounding keeps the order and leaves the integers up to \<open>2^53\<close> alone.
\<close>

locale float_arith =
  fixes fl :: "rat \<Rightarrow> rat"
  assumes fl_mono: "x \<le> y \<Longrightarrow> fl x \<le> fl y"
    and fl_int: "\<bar>i\<bar> \<le> 2 ^ 53 \<Longrightarrow> fl (of_int i) = of_int i"
begin

lemma fl_between:
  assumes "of_int a \<le> x" and "x \<le> of_int b" and "\<bar>a\<bar> \<le> 2 ^ 53" and "\<bar>b\<bar> \<le> 2 ^ 53"
  shows "of_int a \<le> fl x" and "fl x \<le> of_int b"
  using fl_mono [OF assms(1)] fl_mono [OF assms(2)] fl_int [OF assms(3)] fl_int [OF assms(4)] by simp_all

lemma fl_0 [simp]: "fl 0 = 0" and fl_1 [simp]: "fl 1 = 1"
  using fl_int [of 0] fl_int [of 1] by simp_all

lemma fl_unit: "0 \<le> x \<Longrightarrow> x \<le> 1 \<Longrightarrow> 0 \<le> fl x \<and> fl x \<le> 1"
  using fl_mono [of 0 x] fl_mono [of x 1] by simp

end

lemma round64_mono: "x \<le> y \<Longrightarrow> round64 x \<le> round64 y"
proof -
  assume le: "x \<le> y"
  have pos: "0 < z \<Longrightarrow> 0 < round_pos z" for z
    using round_pos_bounds(1) [of z] by (rule less_le_trans [rotated]) simp_all
  show ?thesis
    using le round_pos_mono [of x y] round_pos_mono [of "- y" "- x"] pos [of y] pos [of "- x"]
    by (auto simp: round64_def not_less dest: less_imp_le)
qed

lemma round64_int: "\<bar>i\<bar> \<le> 2 ^ 53 \<Longrightarrow> round64 (of_int i) = of_int i"
  using round_pos_int [of i] round_pos_int [of "- i"] by (auto simp: round64_def)

interpretation binary64: float_arith round64
  by unfold_locales (simp_all add: round64_mono round64_int)

end
