(* ===== verification/MacInject.thy ===== *)
theory MacInject
  imports Keys Double
begin

unbundle bit_operations_syntax

text \<open>
  injector_darwin.go and injector_other.go: the injector of macOS down to the C functions its
  Go half calls (with the C types it passes), and the stub of the other platforms, which only
  logs.  The C functions are modelled as the events they post.
\<close>

datatype c_call =
    C_moveRel int32 int32
  | C_moveAbs int32 int32
  | C_button int32 int32
  | C_scroll int32 int32
  | C_rmTypeText "uint16 list" int32
  | C_keyEvent int32 uint64 int32

definition c_bool :: "bool \<Rightarrow> int32" where
  "c_bool down = (if down then 1 else 0)"

definition btnCode :: "string \<Rightarrow> int" where
  "btnCode b = (if b = ''right'' then 1 else if b = ''middle'' then 2 else 0)"

text \<open>\<open>Text\<close> splits its runes itself, with the same arithmetic as \<open>utf16Units\<close>.\<close>

definition mac_units :: "string \<Rightarrow> uint16 list" where
  "mac_units s =
     foldl (\<lambda>u r. if 0xFFFF < r
                 then (let r' = r - 0x10000 in u @ [word_of_nat (0xD800 + r' div 1024), word_of_nat (0xDC00 + r' mod 1024)])
                 else u @ [word_of_nat r]) [] (runes s)"

definition mac_Text :: "string \<Rightarrow> c_call list" where
  "mac_Text s = (let u = mac_units s in if u = [] then [] else [C_rmTypeText u (word_of_nat (length u))])"

definition mac_Key :: "goint \<Rightarrow> goint \<Rightarrow> bool \<Rightarrow> c_call list" where
  "mac_Key code mods down =
    (let vk = macKey code in
     if vk < 0 then [] else [C_keyEvent (word_of_int vk) (macFlags mods) (c_bool down)])"

fun mac_inject :: "unit \<Rightarrow> unit \<Rightarrow> call \<Rightarrow> unit \<times> c_call list" where
  "mac_inject _ st (MoveRel dx dy) = (st, [C_moveRel (ucast dx) (ucast dy)])"
| "mac_inject _ st (MoveAbs nx ny) = (st, [C_moveAbs (ucast nx) (ucast ny)])"
| "mac_inject _ st (Button b d) = (st, [C_button (word_of_int (btnCode b)) (c_bool d)])"
| "mac_inject _ st (Scroll dx dy) = (st, [C_scroll (ucast dx) (ucast dy)])"
| "mac_inject _ st (Text s) = (st, mac_Text s)"
| "mac_inject _ st (Key c m d) = (st, mac_Key c m d)"
| "mac_inject _ st CloseInj = (st, [])"

lemma btnCode_norm: "btnCode (to_valid b) = btnCode b"
proof -
  have "to_valid b = ''right'' \<longleftrightarrow> b = ''right''" "to_valid b = ''middle'' \<longleftrightarrow> b = ''middle''"
    by (rule to_valid_literal_iff; force)+
  then show ?thesis by (simp add: btnCode_def)
qed

lemma mac_units_eq: "mac_units s = concat (map utf16Units (runes s))"
proof -
  have "foldl (\<lambda>u r. if 0xFFFF < r
                 then (let r' = r - 0x10000 in u @ [word_of_nat (0xD800 + r' div 1024), word_of_nat (0xDC00 + r' mod 1024)])
                 else u @ [word_of_nat r]) u rs = u @ concat (map utf16Units rs)" for u rs
    by (induction rs arbitrary: u) (simp_all add: utf16Units_def Let_def)
  from this [of "[]"] show ?thesis by (simp add: mac_units_def)
qed

lemma mac_inject_norm: "mac_inject e st (norm_call c) = mac_inject e st c"
  by (cases c) (simp_all add: btnCode_norm mac_Text_def mac_units_eq runes_to_valid)

interpretation mac: os_injector mac_inject
  by unfold_locales (simp_all add: mac_inject_norm)

subsection \<open>The C side\<close>

text \<open>
  What the C functions post to the event tap.  Points and rectangles have doubles for
  coordinates.  A compiler may fuse a multiplication with the addition after it, which rounds once
  instead of twice: \<open>fma\<close> says whether it did.
\<close>

type_synonym cg_point = "rat \<times> rat"

record cg_rect =
  rc_x :: rat
  rc_y :: rat
  rc_width :: rat
  rc_height :: rat

datatype cg_mouse =
    MouseMoved | LeftMouseDown | LeftMouseUp | RightMouseDown | RightMouseUp | OtherMouseDown | OtherMouseUp

datatype cg_button = ButtonLeft | ButtonRight | ButtonCenter

datatype cg_event =
    MouseEvent cg_mouse cg_point cg_button
  | ScrollWheel int32 int32
  | UnicodeKey bool "uint16 list"
  | KeyboardEvent uint16 bool uint64

definition c_moveRel :: "cg_point \<Rightarrow> int32 \<Rightarrow> int32 \<Rightarrow> cg_event list" where
  "c_moveRel p dx dy =
    [MouseEvent MouseMoved (round64 (fst p + of_int (sint dx)), round64 (snd p + of_int (sint dy))) ButtonLeft]"

definition mul_add :: "bool \<Rightarrow> rat \<Rightarrow> rat \<Rightarrow> rat \<Rightarrow> rat" where
  "mul_add fma org s len = (if fma then round64 (org + s * len) else round64 (org + round64 (s * len)))"

definition c_moveAbs :: "bool \<Rightarrow> cg_rect \<Rightarrow> int32 \<Rightarrow> int32 \<Rightarrow> cg_event list" where
  "c_moveAbs fma b nx ny =
    (let x = mul_add fma (rc_x b) (round64 (of_int (sint nx) / 65535)) (rc_width b);
         y = mul_add fma (rc_y b) (round64 (of_int (sint ny) / 65535)) (rc_height b)
     in [MouseEvent MouseMoved (x, y) ButtonLeft])"

text \<open>A double becomes an integer by dropping its fraction.\<close>

definition c_int :: "rat \<Rightarrow> int32" where
  "c_int x = word_of_int (if 0 \<le> x then \<lfloor>x\<rfloor> else \<lceil>x\<rceil>)"

definition c_mainScreenSize :: "cg_rect \<Rightarrow> int32 \<times> int32" where
  "c_mainScreenSize b = (c_int (rc_width b), c_int (rc_height b))"

definition mac_screenSize :: "cg_rect \<Rightarrow> goint \<times> goint" where
  "mac_screenSize b = (case c_mainScreenSize b of (w, h) \<Rightarrow> (scast w, scast h))"

definition c_button :: "cg_point \<Rightarrow> int32 \<Rightarrow> int32 \<Rightarrow> cg_event list" where
  "c_button p btn down =
    (if btn = 1 then [MouseEvent (if down \<noteq> 0 then RightMouseDown else RightMouseUp) p ButtonRight]
     else if btn = 2 then [MouseEvent (if down \<noteq> 0 then OtherMouseDown else OtherMouseUp) p ButtonCenter]
     else [MouseEvent (if down \<noteq> 0 then LeftMouseDown else LeftMouseUp) p ButtonLeft])"

definition c_scroll :: "int32 \<Rightarrow> int32 \<Rightarrow> cg_event list" where
  "c_scroll dx dy = [ScrollWheel dy dx]"

definition c_rmTypeText :: "uint16 list \<Rightarrow> int32 \<Rightarrow> cg_event list" where
  "c_rmTypeText chars n = [UnicodeKey True (take (nat (sint n)) chars), UnicodeKey False (take (nat (sint n)) chars)]"

definition c_keyEvent :: "int32 \<Rightarrow> uint64 \<Rightarrow> int32 \<Rightarrow> cg_event list" where
  "c_keyEvent vk flags down = [KeyboardEvent (ucast vk) (down \<noteq> 0) flags]"

text \<open>A call, when the pointer is at \<open>p\<close> and the main display has the bounds \<open>b\<close>.\<close>

fun c_post :: "bool \<Rightarrow> cg_rect \<Rightarrow> cg_point \<Rightarrow> c_call \<Rightarrow> cg_event list" where
  "c_post fma b p (C_moveRel dx dy) = c_moveRel p dx dy"
| "c_post fma b p (C_moveAbs nx ny) = c_moveAbs fma b nx ny"
| "c_post fma b p (C_button btn down) = c_button p btn down"
| "c_post fma b p (C_scroll dx dy) = c_scroll dx dy"
| "c_post fma b p (C_rmTypeText chars n) = c_rmTypeText chars n"
| "c_post fma b p (C_keyEvent vk flags down) = c_keyEvent vk flags down"

text \<open>Bounds as a display has them: whole pixels, far below the limits of doubles and of int.\<close>

definition display_ok :: "cg_rect \<Rightarrow> bool" where
  "display_ok b \<longleftrightarrow>
    (\<exists>x y w h. b = \<lparr>rc_x = of_int x, rc_y = of_int y, rc_width = of_int w, rc_height = of_int h\<rparr> \<and>
       \<bar>x\<bar> < 2 ^ 30 \<and> \<bar>y\<bar> < 2 ^ 30 \<and> 0 < w \<and> w < 2 ^ 30 \<and> 0 < h \<and> h < 2 ^ 30)"

lemma mul_add_between:
  fixes org len :: int
  assumes "0 \<le> s" and "s \<le> 1" and "\<bar>org\<bar> < 2 ^ 30" and "0 < len" and "len < 2 ^ 30"
  shows "of_int org \<le> mul_add fma (of_int org) s (of_int len)"
    and "mul_add fma (of_int org) s (of_int len) \<le> of_int (org + len)"
proof -
  have s: "of_int 0 \<le> s * of_int len" "s * of_int len \<le> of_int len"
    using assms by (simp_all add: mult_left_le_one_le)
  have t: "of_int 0 \<le> round64 (s * of_int len)" "round64 (s * of_int len) \<le> of_int len"
    using binary64.fl_between [OF s] assms by simp_all
  have "of_int org \<le> of_int org + z \<and> of_int org + z \<le> of_int (org + len)" if "of_int 0 \<le> z" "z \<le> of_int len" for z :: rat
    using that by simp
  from this [OF s] this [OF t] binary64.fl_between [of org _ "org + len"]
  show "of_int org \<le> mul_add fma (of_int org) s (of_int len)"
    and "mul_add fma (of_int org) s (of_int len) \<le> of_int (org + len)"
    using assms by (simp_all add: mul_add_def)
qed

lemma mul_add_ends:
  fixes org len :: int
  assumes "\<bar>org\<bar> < 2 ^ 30" and "0 < len" and "len < 2 ^ 30"
  shows "mul_add fma (of_int org) 0 (of_int len) = of_int org"
    and "mul_add fma (of_int org) 1 (of_int len) = of_int (org + len)"
  using assms binary64.fl_int [of org] binary64.fl_int [of len] binary64.fl_int [of "org + len"]
  by (simp_all add: mul_add_def)

lemma mul_add_mono:
  assumes "s \<le> s'" and "0 \<le> len"
  shows "mul_add fma org s len \<le> mul_add fma org s' len"
  using assms by (auto simp: mul_add_def mult_right_mono intro!: round64_mono)

lemma mac_moveabs:
  assumes "display_ok b" and "0 \<le> sint nx" and "sint nx \<le> 65535" and "0 \<le> sint ny" and "sint ny \<le> 65535"
  shows "\<exists>x y. concat (map (c_post fma b p) (snd (mac_inject () () (MoveAbs nx ny)))) = [MouseEvent MouseMoved (x, y) ButtonLeft] \<and>
    rc_x b \<le> x \<and> x \<le> rc_x b + rc_width b \<and> rc_y b \<le> y \<and> y \<le> rc_y b + rc_height b \<and>
    (sint nx = 0 \<longrightarrow> x = rc_x b) \<and> (sint nx = 65535 \<longrightarrow> x = rc_x b + rc_width b) \<and>
    (sint ny = 0 \<longrightarrow> y = rc_y b) \<and> (sint ny = 65535 \<longrightarrow> y = rc_y b + rc_height b)"
proof -
  obtain x y w h where b: "b = \<lparr>rc_x = of_int x, rc_y = of_int y, rc_width = of_int w, rc_height = of_int h\<rparr>"
    and r: "\<bar>x\<bar> < 2 ^ 30" "\<bar>y\<bar> < 2 ^ 30" "0 < w" "w < 2 ^ 30" "0 < h" "h < 2 ^ 30"
    using assms(1) by (auto simp: display_ok_def)
  have n: "sint (ucast nx :: int32) = sint nx" "sint (ucast ny :: int32) = sint ny"
    using assms(2-5) by (simp_all add: sint_ucast_down)
  define s where "s n = round64 (of_int (sint n) / 65535)" for n :: goint
  have unit: "0 \<le> round64 (of_int k / 65535) \<and> round64 (of_int k / 65535) \<le> 1" if "0 \<le> k" "k \<le> 65535" for k :: int
    using that by (intro binary64.fl_unit) simp_all
  have s: "0 \<le> s n" "s n \<le> 1" "sint n = 0 \<Longrightarrow> s n = 0" "sint n = 65535 \<Longrightarrow> s n = 1" if "0 \<le> sint n" "sint n \<le> 65535" for n
    using unit [OF that] by (simp_all add: s_def del: of_int_sint)
  let ?p = "(mul_add fma (of_int x) (s nx) (of_int w), mul_add fma (of_int y) (s ny) (of_int h))"
  have "concat (map (c_post fma b p) (snd (mac_inject () () (MoveAbs nx ny)))) = [MouseEvent MouseMoved ?p ButtonLeft]"
    by (simp add: c_moveAbs_def b n s_def)
  moreover note mul_add_between [of "s nx" x w fma] mul_add_between [of "s ny" y h fma]
    mul_add_ends [OF r(1,3,4), of fma] mul_add_ends [OF r(2,5,6), of fma]
  ultimately show ?thesis
    using s [OF assms(2,3)] s [OF assms(4,5)] r by (auto simp: b)
qed

text \<open>The whole text is posted, as one press and one release.\<close>

lemma mac_Text_posts:
  assumes "mac_units s \<noteq> []" and "length (mac_units s) < 2 ^ 31"
  shows "map (c_post fma b p) (mac_Text s) = [[UnicodeKey True (mac_units s), UnicodeKey False (mac_units s)]]"
proof -
  have "sint (word_of_nat (length (mac_units s)) :: int32) = int (length (mac_units s))"
    using sint_of_int_range [where 'a = 32, of "int (length (mac_units s))"] assms(2) by simp
  with assms(1) show ?thesis by (simp add: mac_Text_def Let_def c_rmTypeText_def)
qed

subsection \<open>The stub\<close>

datatype log_line =
    Log_move goint goint
  | Log_moveabs goint goint
  | Log_button string bool
  | Log_scroll goint goint
  | Log_text string
  | Log_key goint goint bool

definition stub_screenSize :: "goint \<times> goint" where
  "stub_screenSize = (0, 0)"

fun stub_log :: "call \<Rightarrow> log_line list" where
  "stub_log (MoveRel dx dy) = [Log_move dx dy]"
| "stub_log (MoveAbs nx ny) = [Log_moveabs nx ny]"
| "stub_log (Button b d) = [Log_button b d]"
| "stub_log (Scroll dx dy) = [Log_scroll dx dy]"
| "stub_log (Text s) = [Log_text s]"
| "stub_log (Key c m d) = [Log_key c m d]"
| "stub_log CloseInj = []"

end
