(* ===== verification/InjectLog.thy ===== *)
theory InjectLog
  imports WinInject
begin

unbundle bit_operations_syntax

text \<open>
  The diagnostic log of injector_windows.go: what \<open>sendMany\<close> writes about a batch, when verbose
  logging is on and when SendInput took fewer events than it was given.  A log line is its
  arguments; the count SendInput returns and the text of its error are arguments.
\<close>

record inject_log =
  il_verbose :: bool
  il_warned :: bool
  il_lastMove :: goint

datatype inject_line =
    LogTEXT uint32 nat goint string
  | LogKEY uint16 uint16 uint32 nat goint string
  | LogMOUSE int32 int32 uint32 nat goint string
  | LogBlocked goint nat string

definition setVerboseInject :: "bool \<Rightarrow> inject_log \<Rightarrow> inject_log" where
  "setVerboseInject on st = st\<lparr>il_verbose := on\<rparr>"

definition second_ns :: goint where "second_ns = 1000000000"

definition logInject :: "goint \<Rightarrow> os_input list \<Rightarrow> goint \<Rightarrow> string \<Rightarrow> bool \<Rightarrow> inject_log \<Rightarrow> inject_line list \<times> inject_log" where
  "logInject now ins n err short st =
    (case hd ins of
       KeybdIn k \<Rightarrow>
         if ki_flags k AND keyUnicode \<noteq> 0 then ([LogTEXT (ki_flags k) (length ins) n err], st)
         else ([LogKEY (ki_vk k) (ki_scan k) (ki_flags k) (length ins) n err], st)
     | MouseIn m \<Rightarrow>
         let isMove = (length ins = 1 \<and> mi_flags m AND moveRelF \<noteq> 0);
             line = LogMOUSE (mi_dx m) (mi_dy m) (mi_flags m) (length ins) n err in
         if isMove \<and> \<not> short
         then (if sint (now - il_lastMove st) < sint second_ns then ([], st) else ([line], st\<lparr>il_lastMove := now\<rparr>))
         else ([line], st))"

text \<open>\<open>sendMany\<close> is given no empty batch; the warning is written once.\<close>

definition log_batch :: "goint \<Rightarrow> goint \<Rightarrow> string \<Rightarrow> os_input list \<Rightarrow> inject_log \<Rightarrow> inject_line list \<times> inject_log" where
  "log_batch now n err ins st =
    (if ins = [] then ([], st)
     else
       let short = (sint n \<noteq> int (length ins));
           (ls, st1) = (if il_verbose st then logInject now ins n err short st else ([], st))
       in if short \<and> \<not> il_warned st1 then (ls @ [LogBlocked n (length ins) err], st1\<lparr>il_warned := True\<rparr>) else (ls, st1))"

text \<open>The batches of one call, with the answer of SendInput to each.\<close>

fun log_batches :: "(os_input list \<times> goint \<times> goint \<times> string) list \<Rightarrow> inject_log \<Rightarrow> inject_line list \<times> inject_log" where
  "log_batches [] st = ([], st)"
| "log_batches ((ins, now, n, err) # rest) st =
    (case log_batch now n err ins st of (ls, st1) \<Rightarrow> case log_batches rest st1 of (ls', st2) \<Rightarrow> (ls @ ls', st2))"

definition text_units :: "string \<Rightarrow> uint16 list" where
  "text_units s = concat (map utf16Units (runes s))"

lemma win_Text_units: "win_Text s = sendMany (concat (map unit_events (text_units s)))"
proof -
  have "concat (map (\<lambda>r. concat (map unit_events (utf16Units r))) rs) = concat (map unit_events (concat (map utf16Units rs)))" for rs
    by (induction rs) simp_all
  then show ?thesis by (simp add: win_Text_def text_units_def)
qed

lemma length_unit_events: "length (concat (map unit_events us)) = 2 * length us"
  by (induction us) (simp_all add: unit_events_def Let_def)

lemma logInject_text:
  assumes "us \<noteq> []"
  shows "logInject now (concat (map unit_events us)) n err short st = ([LogTEXT keyUnicode (2 * length us) n err], st)"
proof -
  from assms obtain u us' where us: "us = u # us'" by (cases us) auto
  have h: "hd (concat (map unit_events us)) = KeybdIn (zero_keybd\<lparr>ki_scan := u, ki_flags := keyUnicode\<rparr>)"
    by (simp add: us unit_events_def Let_def)
  have "keyUnicode AND keyUnicode \<noteq> 0" by (simp add: keyUnicode_def)
  then show ?thesis by (simp add: logInject_def h length_unit_events del: map_concat)
qed

text \<open>What is logged of a text depends on the number of its UTF-16 units alone.\<close>

lemma log_text_units:
  assumes "length us = length vs"
  shows "log_batch now n err (concat (map unit_events us)) st = log_batch now n err (concat (map unit_events vs)) st"
proof (cases "us = []")
  case False
  then have v: "vs \<noteq> []" using assms by auto
  have "concat (map unit_events us) \<noteq> []" "concat (map unit_events vs) \<noteq> []"
    using length_unit_events [of us] length_unit_events [of vs] False v by (metis length_0_conv mult_is_0 zero_neq_numeral)+
  then show ?thesis
    using assms False v
    by (cases "il_verbose st") (simp_all add: log_batch_def logInject_text length_unit_events Let_def del: map_concat concat_eq_Nil_conv)
qed (use assms in simp)

lemma log_text:
  assumes "length (text_units s) = length (text_units t)"
  shows "log_batches (map (\<lambda>b. (b, a)) (win_Text s)) st = log_batches (map (\<lambda>b. (b, a)) (win_Text t)) st"
proof -
  obtain now n err where a: "a = (now, n, err)" by (cases a)
  show ?thesis
  proof (cases "text_units s = []")
    case False
    then have "text_units t \<noteq> []" using assms by auto
    then have "concat (map unit_events (text_units s)) \<noteq> []" "concat (map unit_events (text_units t)) \<noteq> []"
      using length_unit_events [of "text_units s"] length_unit_events [of "text_units t"] False
      by (metis length_0_conv mult_is_0 zero_neq_numeral)+
    then show ?thesis
      using log_text_units [OF assms, of now n err st] by (simp add: win_Text_units sendMany_def a del: map_concat concat_eq_Nil_conv)
  qed (use assms in \<open>simp add: win_Text_units\<close>)
qed

text \<open>A key event is logged with its virtual key.\<close>

lemma log_key:
  assumes "vkFor c \<noteq> 0" and "il_verbose st"
  shows "\<exists>f k rest. fst (log_batches (map (\<lambda>b. (b, now, n, err)) (win_Key c 0 down)) st) = LogKEY (vkFor c) 0 f k n err # rest"
proof -
  have "modKeys 0 u = []" for u by (simp add: modKeys_def)
  moreover have "f AND keyUnicode = 0" if "f \<in> {0, keyExtended, keyUp, keyExtended OR keyUp}" for f
    using that by (auto simp: keyUnicode_def keyExtended_def keyUp_def)
  ultimately show ?thesis
    using assms by (auto simp: win_Key_def sendMany_def log_batch_def logInject_def keyVK_def zero_keybd_def Let_def)
qed

end
