(* ===== verification/Pipe.thy ===== *)
theory Pipe
  imports Inject
begin

text \<open>
  pipe_inject.go, fanout.go and ipc_windows.go: the service-side injector that writes each call as one JSON
  line, the fan-out of a write to every connected agent, and the loop an agent runs on its
  end of the pipe.  The pipe connections are the operating system's, so what
  \<open>SetWriteDeadline\<close> and \<open>Write\<close> do to one is a parameter of the fan-out; a write that never
  returns is \<open>None\<close>.
\<close>

subsection \<open>The ends of the pipe\<close>

text \<open>
  ipc_windows.go.  The arguments are \<open>winio.ListenPipe\<close>, from a name and a security descriptor, and
  \<open>winio.DialPipe\<close>, from a name and a timeout.
\<close>

definition pipeSDDL :: string where
  "pipeSDDL = ''D:P(A;;GA;;;SY)(A;;GA;;;BA)(A;;GA;;;IU)''"

definition listenInjectPipe :: "(string \<Rightarrow> string \<Rightarrow> 'l option) \<Rightarrow> string \<Rightarrow> 'l option" where
  "listenInjectPipe ListenPipe name = ListenPipe name pipeSDDL"

definition dialInjectPipe :: "(string \<Rightarrow> int option \<Rightarrow> 'c option) \<Rightarrow> string \<Rightarrow> 'c option" where
  "dialInjectPipe DialPipe name = DialPipe name None"

subsection \<open>The service side\<close>

record 'w pipeInjector =
  pi_w :: "'w option"

definition newPipeInjector :: "'w option \<Rightarrow> 'w pipeInjector" where
  "newPipeInjector w = \<lparr>pi_w = w\<rparr>"

definition setWriter :: "'w option \<Rightarrow> 'w pipeInjector \<Rightarrow> 'w pipeInjector" where
  "setWriter w p = p\<lparr>pi_w := w\<rparr>"

text \<open>The bytes \<open>emit\<close> hands to the writer, in one \<open>Write\<close>, or nothing.\<close>

definition emit :: "'w pipeInjector \<Rightarrow> inmsg \<Rightarrow> ('w \<times> string) option" where
  "emit p m = (let b = encode (marshal_in m) in case pi_w p of None \<Rightarrow> None | Some w \<Rightarrow> Some (w, b))"

fun pipe_msg :: "call \<Rightarrow> inmsg option" where
  "pipe_msg (MoveRel dx dy) = Some (zero_in\<lparr>m_T := ''move'', m_Dx := dx, m_Dy := dy\<rparr>)"
| "pipe_msg (MoveAbs nx ny) = Some (zero_in\<lparr>m_T := ''moveabs'', m_X := nx, m_Y := ny\<rparr>)"
| "pipe_msg (Button b d) = Some (zero_in\<lparr>m_T := ''button'', m_B := b, m_Down := Some d\<rparr>)"
| "pipe_msg (Scroll dx dy) = Some (zero_in\<lparr>m_T := ''scroll'', m_Dx := dx, m_Dy := dy\<rparr>)"
| "pipe_msg (Text s) = Some (zero_in\<lparr>m_T := ''text'', m_S := s\<rparr>)"
| "pipe_msg (Key c m d) = Some (zero_in\<lparr>m_T := ''key'', m_Code := c, m_Mods := m, m_Down := Some d\<rparr>)"
| "pipe_msg CloseInj = None"

definition pipe_call :: "'w pipeInjector \<Rightarrow> call \<Rightarrow> ('w \<times> string) option" where
  "pipe_call p c = (case pipe_msg c of None \<Rightarrow> None | Some m \<Rightarrow> emit p m)"

text \<open>All the bytes a sequence of calls puts on the pipe while one writer is set.\<close>

definition pipe_bytes :: "call list \<Rightarrow> string" where
  "pipe_bytes cs = concat (map (\<lambda>c. case pipe_call (newPipeInjector (Some ())) c of None \<Rightarrow> [] | Some (_, b) \<Rightarrow> b) cs)"

subsection \<open>The agent side\<close>

definition runAgentLoop :: "string \<Rightarrow> call list" where
  "runAgentLoop s = concat (map (\<lambda>(m, ok). if ok then applyEvent m else []) (read_frames s))"

definition call_short :: "call \<Rightarrow> bool" where
  "call_short c = (case pipe_msg c of None \<Rightarrow> True | Some m \<Rightarrow> in_short m)"

lemma pipe_msg_applyEvent: "pipe_msg c = Some m \<Longrightarrow> applyEvent m = [c]"
  by (cases c) (auto simp: applyEvent_def down_flag_def zero_in_def)

lemma pipe_bytes_Cons:
  "pipe_bytes (c # cs) = (case pipe_msg c of None \<Rightarrow> [] | Some m \<Rightarrow> encode (marshal_in m)) @ pipe_bytes cs"
  by (simp add: pipe_bytes_def pipe_call_def emit_def newPipeInjector_def split: option.splits)

lemma read_frames_Cons: "in_short m \<Longrightarrow> read_frames (encode (marshal_in m) @ rest) = (norm_in m, True) # read_frames rest"
  using frames.framed_block [of m rest] by (simp add: read_frames_def encode_in_line)

lemma runAgentLoop_Nil [simp]: "runAgentLoop [] = []"
  by (simp add: runAgentLoop_def read_frames_def)

lemma runAgentLoop_frame:
  "in_short m \<Longrightarrow> runAgentLoop (encode (marshal_in m) @ rest) = map norm_call (applyEvent m) @ runAgentLoop rest"
  by (simp add: runAgentLoop_def read_frames_Cons applyEvent_norm)

lemma pipe_bytes_append: "pipe_bytes (xs @ ys) = pipe_bytes xs @ pipe_bytes ys"
  by (simp add: pipe_bytes_def)

lemma runAgentLoop_pipe_append:
  "(\<And>c. c \<in> set cs \<Longrightarrow> call_short c) \<Longrightarrow>
     runAgentLoop (pipe_bytes cs @ rest) = map norm_call (filter (\<lambda>c. c \<noteq> CloseInj) cs) @ runAgentLoop rest"
proof (induction cs)
  case Nil
  then show ?case by (simp add: pipe_bytes_def)
next
  case (Cons c cs)
  then have IH: "runAgentLoop (pipe_bytes cs @ rest) = map norm_call (filter (\<lambda>c. c \<noteq> CloseInj) cs) @ runAgentLoop rest"
    and short: "call_short c" by simp_all
  show ?case
  proof (cases "pipe_msg c")
    case None
    then have "c = CloseInj" by (cases c) auto
    with None IH show ?thesis by (simp add: pipe_bytes_Cons)
  next
    case (Some m)
    with short have "in_short m" by (simp add: call_short_def)
    moreover from Some have "c \<noteq> CloseInj" by auto
    ultimately show ?thesis
      using IH pipe_msg_applyEvent [OF Some] by (simp add: pipe_bytes_Cons Some runAgentLoop_frame)
  qed
qed

lemma runAgentLoop_pipe:
  "(\<And>c. c \<in> set cs \<Longrightarrow> call_short c) \<Longrightarrow>
     runAgentLoop (pipe_bytes cs) = map norm_call (filter (\<lambda>c. c \<noteq> CloseInj) cs)"
  using runAgentLoop_pipe_append [of cs "[]"] by simp

text \<open>Only a huge text or button name makes a call too long for a line.\<close>

fun call_strings :: "call \<Rightarrow> nat" where
  "call_strings (Button b d) = length b"
| "call_strings (Text s) = length s"
| "call_strings c = 0"

lemma call_short_strings: "call_strings c \<le> 170000 \<Longrightarrow> call_short c"
  by (cases c) (simp_all add: call_short_def in_short_strings string_size_def zero_in_def max_token_def)

text \<open>A frame that is too long ends the loop, and everything behind it is lost.\<close>

lemma runAgentLoop_oversized:
  assumes "\<not> in_short m"
  shows "runAgentLoop (encode (marshal_in m) @ rest) = []"
proof -
  have "map unmarshal_in (scan_lines ((in_line m @ [newline]) @ rest)) = []"
    by (rule frames.oversized_block) (use assms in \<open>simp add: in_short_def\<close>)
  then show ?thesis by (simp add: runAgentLoop_def read_frames_def encode_in_line)
qed

text \<open>
  A frame that was cut short (a write that hit its deadline) spoils the line it is on and no
  other.
\<close>

lemma runAgentLoop_torn:
  assumes "newline \<notin> set p" and "length p + length (in_line m) < max_token"
  shows "\<exists>junk. runAgentLoop (p @ encode (marshal_in m) @ rest) = junk @ runAgentLoop rest"
proof -
  have nl: "newline \<notin> set (p @ in_line m)" using assms(1) by (simp add: in_line_no_newline)
  have "scan_lines ((p @ in_line m) @ newline # rest) = drop_cr (p @ in_line m) # scan_lines rest"
    using scan_lines_line [OF nl, of rest] assms(2) by simp
  then show ?thesis by (simp add: runAgentLoop_def read_frames_def encode_in_line)
qed

subsection \<open>A message that grows on the pipe\<close>

text \<open>
  \<open>Marshal\<close> writes a less-than sign as six characters, a phone sends it as one: the line the
  server reads can be within the limit and the line it writes on the pipe beyond it.
\<close>

lemma chunks_ascii:
  "(\<And>c. c \<in> set s \<Longrightarrow> byte_val c < (0x80 :: nat)) \<Longrightarrow> chunks s = map (\<lambda>c. (byte_val c, [c])) s"
proof (induction s)
  case (Cons c s)
  have "decode_rune (c # s) = (byte_val c, 1)" using Cons.prems by (simp add: decode_rune_ascii)
  from chunks_step [OF this] Cons show ?case by simp
qed simp

lemma enc_str_lt: "enc_str (replicate n (CHR ''<'')) = dquote # concat (replicate n (esc_u00 0x3C)) @ [dquote]"
proof -
  have "chunks (replicate n (CHR ''<'')) = replicate n (60, [CHR ''<''])"
    by (subst chunks_ascii) (auto simp: map_replicate_const)
  then show ?thesis by (simp add: enc_str_def esc_chunk_def esc_ascii_def)
qed

lemma enc_str_lt_length: "length (enc_str (replicate n (CHR ''<''))) = 6 * n + 2"
  by (simp add: enc_str_lt length_concat sum_list_replicate esc_u00_def)

lemma read_str_lts: "read_str (replicate n (CHR ''<'') @ dquote # t) = Some (replicate n (CHR ''<''), t)"
  by (induction n) (simp_all add: read_str_quote read_str_plain)

definition raw_text_line :: "nat \<Rightarrow> string" where
  "raw_text_line n = CHR ''{'' # enc_str ''t'' @ CHR '':'' # enc_str ''text'' @ CHR '','' # enc_str ''s'' @ CHR '':''
     # dquote # replicate n (CHR ''<'') @ [dquote, CHR ''}'']"

lemma read_raw: "read_value (Suc (Suc (Suc (Suc (Suc f))))) (Suc d) (raw_text_line n) =
    Some (JObj [(''t'', JStr ''text''), (''s'', JStr (replicate n (CHR ''<'')))], [])"
proof -
  have "to_valid ''t'' = ''t''" "to_valid ''text'' = ''text''" "to_valid ''s'' = ''s''"
    by (rule to_valid_ascii, force)+
  then show ?thesis by (simp add: raw_text_line_def enc_str_def read_enc_str read_str_lts)
qed

lemma unmarshal_raw:
  "unmarshal_in (raw_text_line n) = (zero_in\<lparr>m_T := ''text'', m_S := replicate n (CHR ''<'')\<rparr>, True)"
proof -
  have "2 \<le> length (raw_text_line n)" by (simp add: raw_text_line_def)
  then obtain k where "length (raw_text_line n) = 2 + k" using le_Suc_ex by blast
  then obtain f where f: "2 * length (raw_text_line n) + 2 = Suc (Suc (Suc (Suc (Suc f))))" by simp
  obtain d where d: "max_depth = Suc d" by (simp add: max_depth_def)
  have "parse_json (raw_text_line n) = Some (JObj [(''t'', JStr ''text''), (''s'', JStr (replicate n (CHR ''<'')))])"
    unfolding parse_json_def f d read_raw by simp
  moreover have "field_of ''t'' = Some F_T" "field_of ''s'' = Some F_S" by code_simp+
  ultimately show ?thesis by (simp add: unmarshal_in_def get_str_def)
qed


definition lt_text :: "nat \<Rightarrow> call" where
  "lt_text n = Text (replicate n (CHR ''<''))"

lemma lt_text_too_long:
  assumes "174763 \<le> n"
  shows "\<not> call_short (lt_text n)"
proof -
  have "enc_json (marshal_in (zero_in\<lparr>m_T := ''text'', m_S := replicate n (CHR ''<'')\<rparr>)) =
      CHR ''{'' # enc_str ''t'' @ CHR '':'' # enc_str ''text'' @ CHR '','' # enc_str ''s'' @ CHR '':'' # enc_str (replicate n (CHR ''<'')) @ ''}''"
    using assms by (simp add: marshal_in_def in_fields_def opt_str_def opt_int_def opt_bool_def zero_in_def)
  then have "max_token \<le> length (in_line (zero_in\<lparr>m_T := ''text'', m_S := replicate n (CHR ''<'')\<rparr>))"
    using assms by (simp add: in_line_def enc_str_lt_length max_token_def)
  then show ?thesis by (simp add: lt_text_def call_short_def in_short_def)
qed

lemma runAgentLoop_pipe_stop:
  assumes "\<forall>c \<in> set cs. call_short c" and "\<not> call_short c"
  shows "runAgentLoop (pipe_bytes (cs @ c # cs')) = map norm_call (filter (\<lambda>c. c \<noteq> CloseInj) cs)"
proof -
  obtain m where m: "pipe_msg c = Some m" "\<not> in_short m" using assms(2) by (auto simp: call_short_def split: option.splits)
  have "runAgentLoop (pipe_bytes (c # cs')) = []" by (simp add: pipe_bytes_Cons m runAgentLoop_oversized)
  then show ?thesis using runAgentLoop_pipe_append [of cs "pipe_bytes (c # cs')"] assms(1) by (simp add: pipe_bytes_append)
qed

text \<open>The server reads such a message: its own line is well within the limit.\<close>

lemma server_reads_lt:
  assumes "n \<le> 1048000"
  shows "read_frames (raw_text_line n @ newline # rest) =
    (zero_in\<lparr>m_T := ''text'', m_S := replicate n (CHR ''<'')\<rparr>, True) # read_frames rest"
proof -
  have s: "length (enc_str ''t'') \<le> 8" "length (enc_str ''text'') \<le> 26" "length (enc_str ''s'') \<le> 8"
    using enc_str_length [of "''t''"] enc_str_length [of "''text''"] enc_str_length [of "''s''"] by simp_all
  have "newline \<notin> set (enc_str k)" for k using enc_str_printable [of newline k] by auto
  then have "newline \<notin> set (raw_text_line n)" by (simp add: raw_text_line_def)
  from scan_lines_line [OF this, of rest] have "scan_lines (raw_text_line n @ newline # rest) = raw_text_line n # scan_lines rest"
    using assms s by (simp add: raw_text_line_def max_token_def drop_cr_def)
  then show ?thesis by (simp add: read_frames_def unmarshal_raw)
qed

subsection \<open>Fan-out\<close>

record 'c fanoutWriter =
  fo_ws :: "'c list"
  fo_timeout :: int

fun fanout_loop :: "('c \<Rightarrow> 'c) \<Rightarrow> ('c \<Rightarrow> string \<Rightarrow> 'c option) \<Rightarrow> bool \<Rightarrow> string \<Rightarrow> 'c list \<Rightarrow> 'c list option" where
  "fanout_loop set_deadline conn_write bounded b [] = Some []"
| "fanout_loop set_deadline conn_write bounded b (w # ws) =
    (case conn_write (if bounded then set_deadline w else w) b of
       None \<Rightarrow> None
     | Some w' \<Rightarrow> map_option ((#) w') (fanout_loop set_deadline conn_write bounded b ws))"

definition fanoutWrite :: "('c \<Rightarrow> 'c) \<Rightarrow> ('c \<Rightarrow> string \<Rightarrow> 'c option) \<Rightarrow> 'c fanoutWriter \<Rightarrow> string \<Rightarrow> ('c fanoutWriter \<times> nat) option" where
  "fanoutWrite set_deadline conn_write f b =
     map_option (\<lambda>ws. (f\<lparr>fo_ws := ws\<rparr>, length b)) (fanout_loop set_deadline conn_write (0 < fo_timeout f) b (fo_ws f))"

text \<open>
  What the fan-out relies on in a connection: under a deadline a write comes back, with an
  error or without.
\<close>

lemma fanout_loop_each:
  assumes "\<And>w. w \<in> set ws \<Longrightarrow> conn_write (set_deadline w) b \<noteq> None"
  shows "fanout_loop set_deadline conn_write True b ws = Some (map (\<lambda>w. the (conn_write (set_deadline w) b)) ws)"
  using assms by (induction ws) fastforce+

lemma fanout_wedged:
  "conn_write w b = None \<Longrightarrow> fanout_loop set_deadline conn_write False b (us @ w # ws) = None"
proof (induction us)
  case (Cons u us)
  then show ?case by (simp split: option.split)
qed simp

end
