(* ===== verification/Brackets.thy ===== *)
theory Brackets
  imports Json
begin

text \<open>
  The brackets of a JSON text, read by a small automaton: how deep the text is nested and whether it
  stands inside a string.  What \<open>parse_json\<close> accepts leaves the automaton where it
  started; a list or an object that was cut short leaves it inside, and is refused whatever it was.
\<close>

subsection \<open>The automaton\<close>

text \<open>
  \<open>After\<close> is the place behind a string or a closing bracket, where only a blank, a separator or another
  closing bracket may follow; no state at all is a text that cannot be completed.
\<close>

datatype track_mode = Plain | After | InStr | Escaped

type_synonym track_state = "nat \<times> track_mode"

definition close_bracket :: "nat \<Rightarrow> track_state option" where
  "close_bracket d = (case d of 0 \<Rightarrow> None | Suc d' \<Rightarrow> Some (d', After))"

fun track_step :: "char \<Rightarrow> track_state \<Rightarrow> track_state option" where
  "track_step c (d, Escaped) = Some (d, InStr)"
| "track_step c (d, InStr) = Some (d, if c = dquote then After else if c = backslash then Escaped else InStr)"
| "track_step c (d, After) =
    (if is_ws c then Some (d, After)
     else if c = CHR '','' \<or> c = CHR '':'' then Some (d, Plain)
     else if c = CHR '']'' \<or> c = CHR ''}'' then close_bracket d
     else None)"
| "track_step c (d, Plain) =
    (if c = dquote then Some (d, InStr)
     else if c = CHR ''['' \<or> c = CHR ''{'' then Some (Suc d, Plain)
     else if c = CHR '']'' \<or> c = CHR ''}'' then close_bracket d
     else Some (d, Plain))"

fun track :: "string \<Rightarrow> track_state \<Rightarrow> track_state option" where
  "track [] st = Some st"
| "track (c # cs) st = (case track_step c st of None \<Rightarrow> None | Some st' \<Rightarrow> track cs st')"

lemma track_append: "track (u @ w) st = (case track u st of None \<Rightarrow> None | Some st' \<Rightarrow> track w st')"
  by (induction u arbitrary: st) (auto split: option.splits)

lemma track_prefix: "track (u @ w) st = Some st' \<Longrightarrow> \<exists>st1. track u st = Some st1 \<and> track w st1 = Some st'"
  by (auto simp: track_append split: option.splits)

lemma track_step_shift: "track_step c (d, m) = Some (d', m') \<Longrightarrow> track_step c (d + k, m) = Some (d' + k, m')"
  by (cases m) (auto simp: close_bracket_def split: if_splits nat.splits)

lemma track_shift: "track u (d, m) = Some (d', m') \<Longrightarrow> track u (d + k, m) = Some (d' + k, m')"
proof (induction u arbitrary: d m)
  case (Cons c u)
  then obtain d1 m1 where "track_step c (d, m) = Some (d1, m1)" "track u (d1, m1) = Some (d', m')"
    by (auto split: option.splits)
  with Cons.IH track_step_shift show ?case by fastforce
qed simp

definition quiet :: "track_mode \<Rightarrow> bool" where
  "quiet m \<longleftrightarrow> m = Plain \<or> m = After"

text \<open>The reader goes from the text \<open>s\<close> to its rest \<open>r\<close>, the automaton from one state to another.\<close>

definition goes :: "string \<Rightarrow> track_state \<Rightarrow> string \<Rightarrow> track_state \<Rightarrow> bool" where
  "goes s st r st' \<longleftrightarrow> (\<exists>u. s = u @ r \<and> track u st = Some st')"

lemma goes_refl [intro]: "goes s st s st"
  by (simp add: goes_def)

lemma goes_trans [trans]: "goes s st r st1 \<Longrightarrow> goes r st1 t st2 \<Longrightarrow> goes s st t st2"
  unfolding goes_def by (metis append.assoc track_append option.simps(5))

lemma goes_step: "track_step c st = Some st1 \<Longrightarrow> goes (c # s) st s st1"
  unfolding goes_def by (rule exI [of _ "[c]"]) simp

lemma goes_run: "(\<And>c. c \<in> set u \<Longrightarrow> track_step c st = Some st) \<Longrightarrow> goes (u @ r) st r st"
proof -
  assume "\<And>c. c \<in> set u \<Longrightarrow> track_step c st = Some st"
  then have "track u st = Some st" by (induction u) simp_all
  then show ?thesis by (auto simp: goes_def)
qed

subsection \<open>What the readers consume\<close>

lemma goes_ws: "quiet m \<Longrightarrow> goes s (d, m) (skip_ws s) (d, m)"
proof -
  assume m: "quiet m"
  have "goes (takeWhile is_ws s @ dropWhile is_ws s) (d, m) (dropWhile is_ws s) (d, m)"
    by (rule goes_run) (use m in \<open>auto simp: quiet_def is_ws_def dest!: set_takeWhileD\<close>)
  then show ?thesis by (simp add: skip_ws_def)
qed

lemma goes_expect:
  assumes "expect c s = Some r" and "quiet m" and "track_step c (d, m) = Some st"
  shows "goes s (d, m) r st"
proof -
  have "skip_ws s = c # r" using assms(1) by (auto simp: expect_def split: list.splits if_splits)
  with goes_ws [OF assms(2), of s d] goes_step [OF assms(3), of r] show ?thesis by (auto intro: goes_trans)
qed

lemma hex_val_step: "hex_val c \<noteq> None \<Longrightarrow> track_step c (d, InStr) = Some (d, InStr)"
  by (auto simp: hex_val_def Let_def split: if_splits)

lemma goes_getu4: "getu4 s = Some (v, r) \<Longrightarrow> goes s (d, InStr) r (d, InStr)"
proof (induction s rule: getu4.induct)
  case (1 a b c e t)
  then have "hex_val a \<noteq> None" "hex_val b \<noteq> None" "hex_val c \<noteq> None" "hex_val e \<noteq> None" "t = r"
    by (auto split: Option.bind_splits)
  then have "track [a, b, c, e] (d, InStr) = Some (d, InStr)" and "t = r"
    by (simp_all add: hex_val_step del: track_step.simps)
  then show ?case unfolding goes_def by (intro exI [of _ "[a, b, c, e]"]) simp
qed simp_all

lemma goes_low_surrogate: "low_surrogate s = Some (v, r) \<Longrightarrow> goes s (d, InStr) r (d, InStr)"
proof -
  assume "low_surrogate s = Some (v, r)"
  then obtain t where s: "s = backslash # CHR ''u'' # t" and t: "getu4 t = Some (v, r)"
    by (auto simp: low_surrogate_def split: list.splits if_splits option.splits)
  have "goes s (d, InStr) t (d, InStr)"
    unfolding s goes_def by (rule exI [of _ "[backslash, CHR ''u'']"]) simp
  then show ?thesis using goes_getu4 [OF t] by (rule goes_trans)
qed

lemma goes_read_u: "read_u s = Some (v, r) \<Longrightarrow> goes s (d, InStr) r (d, InStr)"
  unfolding read_u_def
  by (auto split: option.splits if_splits dest!: goes_getu4 [where d = d] goes_low_surrogate [where d = d] intro: goes_trans)

lemma goes_escape: "read_escape s = Some (v, r) \<Longrightarrow> goes s (d, Escaped) r (d, InStr)"
proof -
  assume e: "read_escape s = Some (v, r)"
  then obtain c cs where s: "s = c # cs" by (auto simp: read_escape_def split: list.splits)
  have "goes s (d, Escaped) cs (d, InStr)" unfolding s by (rule goes_step) simp
  moreover have "goes cs (d, InStr) r (d, InStr)"
    using e by (auto simp: s read_escape_def split: if_splits dest: goes_read_u)
  ultimately show ?thesis by (rule goes_trans)
qed

lemma decode_rune_high:
  assumes "decode_rune (c # cs) = (v, n)" and "0x80 \<le> (byte_val c :: nat)" and "b \<in> set (take n (c # cs))"
  shows "0x80 \<le> (byte_val b :: nat)"
proof (cases "v = rune_error \<and> n = 1")
  case True
  with assms show ?thesis by simp
next
  case False
  then have e: "encode_rune v = take n (c # cs)" "scalar v" using decode_rune_take [OF assms(1)] by auto
  have "0x80 \<le> v"
  proof (rule ccontr)
    assume "\<not> 0x80 \<le> v"
    then have "take n (c # cs) = [byte_chr v]" using e(1) by (simp add: encode_rune_def)
    then have "c = byte_chr v" by (cases n) auto
    with \<open>\<not> 0x80 \<le> v\<close> assms(2) show False by simp
  qed
  with e assms(3) show ?thesis by (intro encode_rune_high [of v]) (auto simp: scalar_def)
qed

lemma goes_str: "read_str s = Some (v, r) \<Longrightarrow> goes s (d, InStr) r (d, After)"
proof (induction s arbitrary: v r rule: read_str.induct)
  case (1 s)
  show ?case
  proof (cases s)
    case Nil
    with "1.prems" show ?thesis by (subst (asm) read_str.simps) simp
  next
    case (Cons c cs)
    obtain w n where dec: "decode_rune (c # cs) = (w, n)" by fastforce
    note IH = "1.IH" [OF Cons]
    consider "c = dquote" | out t where "c \<noteq> dquote" "c = backslash" "read_escape cs = Some (out, t)"
      | "c \<noteq> dquote" "c = backslash" "read_escape cs = None"
      | "c \<noteq> dquote" "c \<noteq> backslash" "byte_val c < (0x20::nat)"
      | "c \<noteq> dquote" "c \<noteq> backslash" "\<not> byte_val c < (0x20::nat)" "byte_val c < (0x80::nat)"
      | "c \<noteq> dquote" "c \<noteq> backslash" "\<not> byte_val c < (0x20::nat)" "\<not> byte_val c < (0x80::nat)"
      by (cases "read_escape cs") fastforce+
    then show ?thesis
    proof cases
      case 1
      with "1.prems" have "r = cs" by (subst (asm) read_str.simps) (simp add: Cons)
      with 1 show ?thesis by (auto simp: Cons intro!: goes_step)
    next
      case (2 out t)
      with "1.prems" obtain v' where "read_str t = Some (v', r)"
        by (subst (asm) read_str.simps) (auto simp: Cons split: option.splits)
      with IH(1) 2 have "goes t (d, InStr) r (d, After)" by blast
      moreover have "goes s (d, InStr) cs (d, Escaped)" using 2 by (auto simp: Cons intro!: goes_step)
      ultimately show ?thesis using goes_escape [OF 2(3), of d] by (blast intro: goes_trans)
    next
      case 3
      with "1.prems" show ?thesis by (subst (asm) read_str.simps) (simp add: Cons)
    next
      case 4
      with "1.prems" show ?thesis by (subst (asm) read_str.simps) (simp add: Cons)
    next
      case 5
      with "1.prems" obtain v' where "read_str cs = Some (v', r)"
        by (subst (asm) read_str.simps) (auto simp: Cons)
      with IH(2) 5 have "goes cs (d, InStr) r (d, After)" by blast
      moreover have "goes s (d, InStr) cs (d, InStr)" using 5 by (auto simp: Cons intro!: goes_step)
      ultimately show ?thesis by (blast intro: goes_trans)
    next
      case 6
      with "1.prems" dec obtain v' where "read_str (drop n (c # cs)) = Some (v', r)"
        by (subst (asm) read_str.simps) (auto simp: Cons)
      with IH(3) [of w n] 6 dec have "goes (drop n (c # cs)) (d, InStr) r (d, After)" by (simp add: Cons)
      moreover have "goes (take n (c # cs) @ drop n (c # cs)) (d, InStr) (drop n (c # cs)) (d, InStr)"
      proof (rule goes_run)
        fix b assume "b \<in> set (take n (c # cs))"
        then have "0x80 \<le> (byte_val b :: nat)" using decode_rune_high [OF dec] 6(4) by simp
        then show "track_step b (d, InStr) = Some (d, InStr)" by auto
      qed
      ultimately show ?thesis by (simp only: append_take_drop_id Cons) (blast intro: goes_trans)
    qed
  qed
qed

definition unbracketed :: "char \<Rightarrow> bool" where
  "unbracketed c \<longleftrightarrow> c \<notin> {dquote, CHR ''['', CHR ''{'', CHR '']'', CHR ''}''}"

definition level :: "string \<Rightarrow> string \<Rightarrow> bool" where
  "level s r \<longleftrightarrow> (\<exists>u. s = u @ r \<and> (\<forall>c \<in> set u. unbracketed c))"

lemma unbracketed_step: "unbracketed c \<Longrightarrow> track_step c (d, Plain) = Some (d, Plain)"
  by (simp add: unbracketed_def)

lemma unbracketed_chars [simp]:
  "unbracketed (CHR ''-'')" "unbracketed (CHR ''+'')" "unbracketed (CHR ''.'')" "unbracketed (CHR ''e'')" "unbracketed (CHR ''E'')"
  "unbracketed (CHR ''0'')"
  by (simp_all add: unbracketed_def)

lemma level_goes:
  assumes "level s r"
  shows "goes s (d, Plain) r (d, Plain)"
proof -
  obtain u where u: "s = u @ r" "\<forall>c \<in> set u. unbracketed c" using assms by (auto simp: level_def)
  show ?thesis unfolding u(1) using u(2) by (intro goes_run unbracketed_step) blast
qed

lemma level_refl [intro]: "level s s"
  by (simp add: level_def)

lemma level_trans: "level s r \<Longrightarrow> level r t \<Longrightarrow> level s t"
proof -
  assume "level s r" "level r t"
  then obtain u w where "s = u @ r" "r = w @ t" "\<forall>c \<in> set u. unbracketed c" "\<forall>c \<in> set w. unbracketed c"
    by (auto simp: level_def)
  then show ?thesis unfolding level_def by (intro exI [of _ "u @ w"]) auto
qed

lemma level_Cons: "unbracketed c \<Longrightarrow> level (c # s) s"
  unfolding level_def by (rule exI [of _ "[c]"]) simp

lemma level_digit: "is_digit c \<Longrightarrow> unbracketed c"
  by (auto simp: is_digit_def unbracketed_def)

lemma level_digits:
  assumes "read_digits s = Some (d, r)"
  shows "level s r"
proof -
  have "d = takeWhile is_digit s" "r = dropWhile is_digit s"
    using assms by (auto simp: read_digits_def split: list.splits if_splits)
  then have "s = d @ r" "\<forall>c \<in> set d. unbracketed c" by (auto dest: set_takeWhileD intro: level_digit)
  then show ?thesis by (auto simp: level_def)
qed

lemma level_int_part: "read_int_part s = Some (d, r) \<Longrightarrow> level s r"
  by (cases s) (auto simp: read_int_part_def split: if_splits intro: level_digits level_Cons)

lemma level_frac: "read_frac s = Some (d, r) \<Longrightarrow> level s r"
  by (cases s) (auto simp: read_frac_def split: if_splits intro: level_trans [OF level_Cons] level_digits)

lemma level_exp:
  assumes "read_exp s = Some (d, r)"
  shows "level s r"
proof (cases s)
  case (Cons c cs)
  show ?thesis
  proof (cases "c = CHR ''e'' \<or> c = CHR ''E''")
    case True
    then have c: "unbracketed c" by auto
    obtain g ds where cs: "cs = g # ds" using assms True by (cases cs) (auto simp: read_exp_def Cons)
    have "level cs r"
    proof (cases "g = CHR ''+'' \<or> g = CHR ''-''")
      case True
      then have g: "unbracketed g" by auto
      from True obtain d' where "read_digits ds = Some (d', r)"
        using assms \<open>c = _ \<or> _\<close> by (auto simp: read_exp_def Cons cs)
      then show ?thesis unfolding cs by (intro level_trans [OF level_Cons [OF g]] level_digits)
    next
      case False
      then obtain d' where "read_digits cs = Some (d', r)"
        using assms True by (auto simp: read_exp_def Cons cs)
      then show ?thesis by (rule level_digits)
    qed
    then show ?thesis unfolding Cons by (rule level_trans [OF level_Cons [OF c]])
  next
    case False
    with assms have "r = s" by (simp add: read_exp_def Cons)
    then show ?thesis by blast
  qed
qed (use assms in \<open>auto simp: read_exp_def\<close>)

lemma level_num: "read_num s = Some (v, r) \<Longrightarrow> level s r"
proof -
  assume n: "read_num s = Some (v, r)"
  define s1 where "s1 = (case s of c # cs \<Rightarrow> if c = CHR ''-'' then cs else s | [] \<Rightarrow> s)"
  have "level s s1" by (auto simp: s1_def unbracketed_def split: list.splits intro!: level_Cons)
  moreover obtain i s2 f s3 e where "read_int_part s1 = Some (i, s2)" "read_frac s2 = Some (f, s3)" "read_exp s3 = Some (e, r)"
    using n by (auto simp: read_num_def s1_def Let_def split: list.splits if_splits Option.bind_splits prod.splits)
  ultimately show ?thesis by (meson level_trans level_int_part level_frac level_exp)
qed

lemma level_lit: "read_lit p w s = Some (v, r) \<Longrightarrow> \<forall>c \<in> set p. unbracketed c \<Longrightarrow> level s r"
proof (induction p w s rule: read_lit.induct)
  case (2 c cs w s)
  then obtain t where s: "s = c # t" and t: "read_lit cs w t = Some (v, r)" by (auto split: list.splits if_splits)
  have "level t r" by (rule "2.IH" [OF s refl]) (use 2(3) t in auto)
  with 2(3) show ?case unfolding s by (auto intro: level_trans [OF level_Cons])
qed auto

lemma goes_open:
  assumes "skip_ws s = c # cs" and "c = CHR ''['' \<or> c = CHR ''{''"
  shows "goes s (k, Plain) cs (Suc k, Plain)"
proof -
  have "goes (c # cs) (k, Plain) cs (Suc k, Plain)" using assms(2) by (intro goes_step) auto
  then show ?thesis using goes_ws [of Plain s k] assms(1) by (auto simp: quiet_def intro: goes_trans)
qed

lemma goes_close:
  assumes "expect c s = Some r" and "c = CHR '']'' \<or> c = CHR ''}''" and "quiet m"
  shows "goes s (Suc k, m) r (k, After)"
  using assms(2,3) by (intro goes_expect [OF assms(1,3)]) (auto simp: quiet_def close_bracket_def is_ws_def)

lemma goes_separator:
  assumes "expect c s = Some r" and "c = CHR '','' \<or> c = CHR '':''" and "quiet m"
  shows "goes s (k, m) r (k, Plain)"
  using assms(2,3) by (intro goes_expect [OF assms(1,3)]) (auto simp: quiet_def is_ws_def)

lemma goes_quote: "expect dquote s = Some r \<Longrightarrow> goes s (k, Plain) r (k, InStr)"
proof -
  assume e: "expect dquote s = Some r"
  have "track_step dquote (k, Plain) = Some (k, InStr)" by simp
  from goes_expect [OF e _ this] show ?thesis by (simp add: quiet_def)
qed

lemma goes_leaf:
  assumes "read_value (Suc f) d s = Some (v, r)" and "skip_ws s = c # cs" and "c \<noteq> CHR ''{''" and "c \<noteq> CHR ''[''"
  shows "\<exists>m. quiet m \<and> goes s (k, Plain) r (k, m)"
proof -
  have ws: "goes s (k, Plain) (c # cs) (k, Plain)" using goes_ws [of Plain s k] assms(2) by (simp add: quiet_def)
  show ?thesis
  proof (cases "c = dquote")
    case True
    then obtain s' where "read_str cs = Some (s', r)" using assms by auto
    moreover have "goes (c # cs) (k, Plain) cs (k, InStr)" using True by (intro goes_step) simp
    ultimately have "goes s (k, Plain) r (k, After)" using ws goes_str by (meson goes_trans)
    then show ?thesis by (auto simp: quiet_def)
  next
    case False
    have "level (c # cs) r"
    proof -
      have lit: "\<forall>c \<in> set p. unbracketed c" if "p \<in> {''true'', ''false'', ''null''}" for p
        using that by (auto simp: unbracketed_def)
      consider w where "read_lit ''true'' (JBool True) (c # cs) = Some (w, r)"
        | w where "read_lit ''false'' (JBool False) (c # cs) = Some (w, r)"
        | w where "read_lit ''null'' JNull (c # cs) = Some (w, r)"
        | w where "read_num (c # cs) = Some (w, r)"
        using assms False by (simp del: read_lit.simps split: if_splits) blast+
      then show ?thesis by cases (use lit in \<open>blast intro: level_lit level_num\<close>)+
    qed
    then have "goes s (k, Plain) r (k, Plain)" using ws level_goes by (blast intro: goes_trans)
    then show ?thesis by (auto simp: quiet_def)
  qed
qed

text \<open>What is read as a value leaves the automaton where it was, outside of strings.\<close>

lemma reader_goes:
  "read_value f d s = Some (v, r) \<Longrightarrow> \<exists>m. quiet m \<and> goes s (k, Plain) r (k, m)"
  "read_elems f d s = Some (vs, r) \<Longrightarrow> \<exists>m. quiet m \<and> goes s (Suc k, Plain) r (k, m)"
  "read_members f d s = Some (ms, r) \<Longrightarrow> \<exists>m. quiet m \<and> goes s (Suc k, Plain) r (k, m)"
proof (induction f d s and f d s and f d s arbitrary: v r k and vs r k and ms r k
    rule: read_value_read_elems_read_members.induct)
  case (2 f d s)
  from "2.prems" obtain c cs where c: "skip_ws s = c # cs" by (auto split: list.splits)
  consider "c = CHR ''{''" | "c = CHR ''[''" | "c \<noteq> CHR ''{''" "c \<noteq> CHR ''[''" by blast
  then show ?case
  proof cases
    case 1
    then have o: "goes s (k, Plain) cs (Suc k, Plain)" using c by (intro goes_open) auto
    show ?thesis
    proof (cases "expect (CHR ''}'') cs")
      case None
      then obtain ms where "d \<noteq> 0" and "read_members f (d - 1) cs = Some (ms, r)" using "2.prems" c 1 by (auto split: if_splits)
      with "2.IH"(1) [OF c 1 _ None, of ms r k] o show ?thesis by (blast intro: goes_trans)
    next
      case (Some r')
      then have "r' = r" using "2.prems" c 1 by (auto split: if_splits)
      with o goes_close [OF Some, of Plain k] show ?thesis by (auto simp: quiet_def intro: goes_trans)
    qed
  next
    case 2
    then have o: "goes s (k, Plain) cs (Suc k, Plain)" using c by (intro goes_open) auto
    show ?thesis
    proof (cases "expect (CHR '']'') cs")
      case None
      then obtain vs where "d \<noteq> 0" and "read_elems f (d - 1) cs = Some (vs, r)" using "2.prems" c 2 by (auto split: if_splits)
      with "2.IH"(2) [OF c _ 2 _ None, of vs r k] 2 o show ?thesis by (auto intro: goes_trans)
    next
      case (Some r')
      then have "r' = r" using "2.prems" c 2 by (auto split: if_splits)
      with o goes_close [OF Some, of Plain k] show ?thesis by (auto simp: quiet_def intro: goes_trans)
    qed
  next
    case 3
    with goes_leaf [OF "2.prems" c] show ?thesis by blast
  qed
next
  case (4 f d s)
  from "4.prems" obtain w t where w: "read_value f d s = Some (w, t)"
    by (auto split: Option.bind_splits)
  obtain m where m: "quiet m" "goes s (Suc k, Plain) t (Suc k, m)" using "4.IH"(1) [OF w] by blast
  show ?case
  proof (cases "expect (CHR '','') t")
    case None
    with "4.prems" w have "expect (CHR '']'') t = Some r" by auto
    with m goes_close [of _ t r m k] show ?thesis by (auto simp: quiet_def intro: goes_trans)
  next
    case (Some t')
    with "4.prems" w obtain vs' where vs: "read_elems f d t' = Some (vs', r)" by auto
    have "goes s (Suc k, Plain) t' (Suc k, Plain)" using m goes_separator [OF Some _ m(1)] by (auto intro: goes_trans)
    with "4.IH"(2) [OF w refl Some vs, of k] show ?thesis by (blast intro: goes_trans)
  qed
next
  case (6 f d s)
  from "6.prems" obtain s1 key s2 s3 w t where
    s1: "expect dquote s = Some s1" and s2: "read_str s1 = Some (key, s2)"
    and s3: "expect (CHR '':'') s2 = Some s3" and w: "read_value f d s3 = Some (w, t)"
    by (auto split: Option.bind_splits)
  have "goes s (Suc k, Plain) s2 (Suc k, After)" using goes_quote [OF s1] goes_str [OF s2] by (blast intro: goes_trans)
  then have "goes s (Suc k, Plain) s3 (Suc k, Plain)"
    using goes_separator [OF s3, of After "Suc k"] by (auto simp: quiet_def intro: goes_trans)
  moreover obtain m where m: "quiet m" "goes s3 (Suc k, Plain) t (Suc k, m)" using "6.IH"(1) [OF s1 s2 refl s3 w] by blast
  ultimately have at_t: "goes s (Suc k, Plain) t (Suc k, m)" by (blast intro: goes_trans)
  show ?case
  proof (cases "expect (CHR '','') t")
    case None
    with "6.prems" s1 s2 s3 w have "expect (CHR ''}'') t = Some r" by auto
    with at_t m goes_close [of _ t r m k] show ?thesis by (auto simp: quiet_def intro: goes_trans)
  next
    case (Some t')
    with "6.prems" s1 s2 s3 w obtain ms' where ms: "read_members f d t' = Some (ms', r)" by auto
    have "goes s (Suc k, Plain) t' (Suc k, Plain)" using at_t goes_separator [OF Some _ m(1)] by (auto intro: goes_trans)
    with "6.IH"(2) [OF s1 s2 refl s3 w refl Some ms, of k] show ?thesis by (blast intro: goes_trans)
  qed
qed simp_all

lemma parse_track:
  assumes "parse_json s = Some v"
  shows "\<exists>m. quiet m \<and> track s (0, Plain) = Some (0, m)"
proof -
  obtain r where r: "read_value (2 * length s + 2) max_depth s = Some (v, r)" "skip_ws r = []"
    using assms by (auto simp: parse_json_def split: option.splits if_splits)
  obtain m where "quiet m" "goes s (0, Plain) r (0, m)" using reader_goes(1) [OF r(1), of 0] by blast
  then have "goes s (0, Plain) [] (0, m)" using goes_ws [of m r 0] r(2) by (metis goes_trans)
  with \<open>quiet m\<close> show ?thesis by (auto simp: goes_def)
qed

subsection \<open>Cut short\<close>

text \<open>A text that cannot be complete: inside a bracket, or beyond repair.\<close>

definition opened :: "string \<Rightarrow> bool" where
  "opened p \<longleftrightarrow> (case track p (0, Plain) of None \<Rightarrow> True | Some (d, m) \<Rightarrow> 0 < d)"

lemma opened_refused: "opened p \<Longrightarrow> parse_json p = None"
  by (cases "parse_json p") (auto simp: opened_def dest: parse_track)

lemma track_enc_json:
  assumes "wf_json j" and "jdepth j \<le> max_depth"
  shows "\<exists>m. quiet m \<and> track (enc_json j) (0, Plain) = Some (0, m)"
  by (rule parse_track [OF parse_enc_json [OF assms]])

lemma track_enc_str: "track (enc_str s) (0, Plain) = Some (0, After)"
proof -
  have "goes (concat (map esc_chunk (chunks s)) @ [dquote]) (0, InStr) [] (0, After)"
    by (rule goes_str) (rule read_enc_str)
  then show ?thesis by (simp add: enc_str_def goes_def)
qed

lemma track_enc_member:
  assumes "wf_json v" and "jdepth v \<le> max_depth"
  shows "\<exists>m. quiet m \<and> track (enc_str k @ CHR '':'' # enc_json v) (0, Plain) = Some (0, m)"
  using track_enc_json [OF assms] by (simp add: track_append track_enc_str is_ws_def)

lemma track_join:
  assumes "\<And>s. s \<in> set ss \<Longrightarrow> \<exists>m. quiet m \<and> track s (0, Plain) = Some (0, m)"
  shows "\<exists>m. quiet m \<and> track (join ss) (0, Plain) = Some (0, m)"
  using assms
proof (induction ss rule: join.induct)
  case 1
  show ?case by (simp add: quiet_def)
next
  case (2 s)
  then show ?case by simp
next
  case (3 s s' ss)
  obtain m where "quiet m" "track s (0, Plain) = Some (0, m)" using "3.prems" by auto
  moreover obtain m' where "quiet m'" "track (join (s' # ss)) (0, Plain) = Some (0, m')" using "3.IH" "3.prems" by auto
  ultimately show ?case by (auto simp: track_append quiet_def is_ws_def)
qed

lemma opened_inside:
  assumes "track inner (0, Plain) = Some st" and "c = CHR ''['' \<or> c = CHR ''{''" and "p @ q = c # inner" and "p \<noteq> []"
  shows "\<exists>d m. track p (0, Plain) = Some (Suc d, m)"
proof -
  obtain p' where p: "p = c # p'" "p' @ q = inner" using assms(3,4) by (cases p) auto
  then obtain st1 where "track p' (0, Plain) = Some st1" using assms(1) track_prefix by blast
  moreover obtain d m where "st1 = (d, m)" by (cases st1)
  ultimately have "track p' (1, Plain) = Some (Suc d, m)" using track_shift [of p' 0 Plain d m 1] by simp
  then show ?thesis using assms(2) by (auto simp: p(1))
qed

text \<open>Every proper beginning of an encoded list or object is inside it.\<close>

lemma track_enc_prefix:
  assumes "wf_json j" and "jdepth j \<le> max_depth" and "(\<exists>js. j = JArr js) \<or> (\<exists>kvs. j = JObj kvs)"
    and "p @ q = enc_json j" and "p \<noteq> []" and "q \<noteq> []"
  shows "\<exists>d m. track p (0, Plain) = Some (Suc d, m)"
proof -
  have "\<exists>c c' inner m. enc_json j = c # inner @ [c'] \<and> (c = CHR ''['' \<or> c = CHR ''{'') \<and> track inner (0, Plain) = Some (0, m)"
    using assms(3)
  proof (elim disjE exE)
    fix js assume j: "j = JArr js"
    have "\<exists>m. quiet m \<and> track (join (map enc_json js)) (0, Plain) = Some (0, m)"
    proof (rule track_join)
      fix s assume "s \<in> set (map enc_json js)"
      then obtain x where x: "x \<in> set js" "s = enc_json x" by auto
      have "jdepth x \<le> max_depth" using foldr_max_le [OF x(1), of jdepth] assms(2) by (simp add: j)
      with x assms(1) show "\<exists>m. quiet m \<and> track s (0, Plain) = Some (0, m)" unfolding x(2) by (intro track_enc_json) (auto simp: j)
    qed
    then show ?thesis by (auto simp: j)
  next
    fix kvs assume j: "j = JObj kvs"
    have "\<exists>m. quiet m \<and> track (join (map (\<lambda>(k, v). enc_str k @ CHR '':'' # enc_json v) kvs)) (0, Plain) = Some (0, m)"
    proof (rule track_join)
      fix s assume "s \<in> set (map (\<lambda>(k, v). enc_str k @ CHR '':'' # enc_json v) kvs)"
      then obtain k v where kv: "(k, v) \<in> set kvs" "s = enc_str k @ CHR '':'' # enc_json v" by auto
      have "jdepth v \<le> max_depth" using foldr_max_snd_le [OF kv(1), of jdepth] assms(2) by (simp add: j)
      with kv assms(1) show "\<exists>m. quiet m \<and> track s (0, Plain) = Some (0, m)"
        unfolding kv(2) by (intro track_enc_member) (auto simp: j)
    qed
    then show ?thesis by (auto simp: j)
  qed
  then obtain c c' inner m where e: "enc_json j = c # inner @ [c']" "c = CHR ''['' \<or> c = CHR ''{''" "track inner (0, Plain) = Some (0, m)"
    by blast
  obtain q' where "q = q' @ [c']" using assms(4,6) e(1) by (cases q rule: rev_cases) (auto simp: append_assoc [symmetric] simp del: append_assoc)
  then have "p @ q' = c # inner" using assms(4) e(1) by simp
  then show ?thesis by (rule opened_inside [OF e(3,2) _ assms(5)])
qed

lemma enc_prefix_refused:
  assumes "wf_json j" and "jdepth j \<le> max_depth" and "(\<exists>js. j = JArr js) \<or> (\<exists>kvs. j = JObj kvs)"
    and "0 < n" and "n < length (enc_json j)"
  shows "opened (take n (enc_json j))" and "parse_json (take n (enc_json j)) = None"
proof -
  have "\<exists>d m. track (take n (enc_json j)) (0, Plain) = Some (Suc d, m)"
    using assms(4,5) by (intro track_enc_prefix [OF assms(1-3), of _ "drop n (enc_json j)"]) auto
  then show "opened (take n (enc_json j))" by (auto simp: opened_def)
  then show "parse_json (take n (enc_json j)) = None" by (rule opened_refused)
qed

end
