(* ===== verification/Torn.thy ===== *)
theory Torn
  imports Pipe Brackets
begin

text \<open>
  What the agent gets of frames that were cut short.  A write that hits its deadline has put a beginning of
  its frame on the pipe; the next frame follows on the same line.  The lemmas show that such a line is never
  read as a message, whatever was cut where.
\<close>

datatype line_state = Clean | Complete inmsg | Spoilt

text \<open>
  Of each frame, how many bytes got through.  A message is received if all of its frame did and the line it is on was
  clean; one that only lacks its line end is still received when the pipe closes.
\<close>

fun received :: "line_state \<Rightarrow> (inmsg \<times> nat) list \<Rightarrow> inmsg list" where
  "received (Complete m) [] = [m]"
| "received st [] = []"
| "received st ((m, n) # ws) =
    (if n = 0 then received st ws
     else if length (in_line m) < n then (if st = Clean then [m] else []) @ received Clean ws
     else if n = length (in_line m) \<and> st = Clean then received (Complete m) ws
     else received Spoilt ws)"

text \<open>No line gets too long for the scanner.\<close>

fun lines_fit :: "nat \<Rightarrow> (inmsg \<times> nat) list \<Rightarrow> bool" where
  "lines_fit k [] \<longleftrightarrow> k < max_token"
| "lines_fit k ((m, n) # ws) \<longleftrightarrow>
    (if length (in_line m) < n then k + length (in_line m) < max_token \<and> lines_fit 0 ws else lines_fit (k + n) ws)"

definition torn_stream :: "(inmsg \<times> nat) list \<Rightarrow> string" where
  "torn_stream ws = concat (map (\<lambda>(m, n). take n (encode (marshal_in m))) ws)"

lemma torn_stream_simps [simp]:
  "torn_stream [] = []" "torn_stream ((m, n) # ws) = take n (encode (marshal_in m)) @ torn_stream ws"
  by (simp_all add: torn_stream_def)

subsection \<open>A spoilt line is refused\<close>

lemma in_line_head: "\<exists>rest. in_line m = CHR ''{'' # dquote # CHR ''t'' # rest"
proof -
  have "chunks ''t'' = [(116, ''t'')]" by (subst chunks_ascii) auto
  moreover have "byte_chr 116 = CHR ''t''" by code_simp
  ultimately have "enc_str ''t'' = dquote # CHR ''t'' # [dquote]" by (simp add: enc_str_def esc_chunk_def esc_ascii_def)
  moreover obtain kvs where "in_fields m = (''t'', JStr (m_T m)) # kvs" by (simp add: in_fields_def)
  ultimately show ?thesis by (cases kvs) (auto simp: in_line_def marshal_in_def)
qed

lemma track_in_line: "\<exists>m'. quiet m' \<and> track (in_line m) (0, Plain) = Some (0, m')"
  unfolding in_line_def using wf_marshal_in jdepth_marshal_in by (intro track_enc_json) (auto simp: max_depth_def)

lemma opened_beginning:
  assumes "0 < n" and "n < length (in_line m)"
  shows "opened (take n (in_line m))"
  using assms wf_marshal_in jdepth_marshal_in
  unfolding in_line_def by (intro enc_prefix_refused(1)) (auto simp: marshal_in_def max_depth_def)

lemma complete_after: "track (in_line m) (0, Plain) = Some (0, After)"
proof -
  obtain u where u: "in_line m = u @ [CHR ''}'']" "u \<noteq> []" by (cases "in_fields m") (auto simp: in_line_def marshal_in_def)
  obtain m' where m': "track (in_line m) (0, Plain) = Some (0, m')" using track_in_line by blast
  then obtain d k where "track u (0, Plain) = Some (d, k)" "track_step (CHR ''}'') (d, k) = Some (0, m')"
    unfolding u(1) by (auto simp: track_append split: option.splits prod.splits)
  moreover have "opened u" using opened_beginning [of "length u" m] u by (cases u) auto
  ultimately show ?thesis
    using m' by (cases k) (auto simp: opened_def close_bracket_def is_ws_def split: nat.splits)
qed

text \<open>Whatever a line already holds, another beginning of a frame leaves it open.\<close>

definition spoilt :: "string \<Rightarrow> bool" where
  "spoilt p \<longleftrightarrow> opened p \<or> track p (0, Plain) = Some (0, After)"

lemma spoilt_more:
  assumes "spoilt p" and "0 < n" and "n \<le> length (in_line m)"
  shows "opened (p @ take n (in_line m))"
proof (cases "track p (0, Plain)")
  case None
  then show ?thesis by (simp add: opened_def track_append)
next
  case (Some st)
  obtain d k where st: "st = (d, k)" by (cases st)
  obtain rest where line: "in_line m = CHR ''{'' # dquote # CHR ''t'' # rest" using in_line_head by blast
  consider "d = 0" "k = After" | "0 < d" "k = Plain" | "0 < d" "k = After" | "0 < d" "k = InStr \<or> k = Escaped"
    using assms(1) Some by (cases k) (auto simp: spoilt_def opened_def st)
  then show ?thesis
  proof cases
    case 2
    obtain d' k' where "track (take n (in_line m)) (0, Plain) = Some (d', k')"
      using track_in_line [of m] track_prefix [of "take n (in_line m)" "drop n (in_line m)"] by (auto, metis prod.exhaust)
    from track_shift [OF this, of d] Some 2 show ?thesis by (simp add: opened_def track_append st)
  next
    case 4
    consider "n = 1" | "n = 2" | i where "n = Suc (Suc (Suc i))"
      using assms(2) by (metis One_nat_def Suc_1 bot_nat_0.not_eq_extremum old.nat.exhaust)
    then show ?thesis
      using 4 Some by cases (auto simp: opened_def track_append st line is_ws_def)
  qed (use Some assms(2) in \<open>cases n; simp add: opened_def track_append st line is_ws_def\<close>)+
qed

subsection \<open>The stream\<close>

definition printable :: "string \<Rightarrow> bool" where
  "printable p \<longleftrightarrow> (\<forall>c \<in> set p. 0x20 \<le> (byte_val c :: nat))"

lemma printable_in_line: "printable (in_line m)"
  using enc_json_printable [OF wf_marshal_in] by (auto simp: printable_def in_line_def)

lemma printable_take: "printable p \<Longrightarrow> printable (take n p)"
  by (auto simp: printable_def dest: in_set_takeD)

lemma printable_append [simp]: "printable (p @ q) \<longleftrightarrow> printable p \<and> printable q"
  by (auto simp: printable_def)

lemma printable_line: "printable p \<Longrightarrow> newline \<notin> set p \<and> drop_cr p = p"
  by (cases p rule: rev_cases) (auto simp: printable_def drop_cr_def)

text \<open>What the line so far is, in each state.\<close>

definition line_holds :: "line_state \<Rightarrow> string \<Rightarrow> bool" where
  "line_holds st p \<longleftrightarrow> printable p \<and>
    (case st of Clean \<Rightarrow> p = [] | Complete m \<Rightarrow> p = in_line m | Spoilt \<Rightarrow> opened p \<and> p \<noteq> [])"

lemma line_holds_spoilt: "line_holds st p \<Longrightarrow> st \<noteq> Clean \<Longrightarrow> spoilt p"
  by (cases st) (auto simp: line_holds_def spoilt_def complete_after)

lemma line_holds_more:
  assumes "line_holds st p" and "0 < n" and "n \<le> length (in_line m)"
  shows "line_holds (if n = length (in_line m) \<and> st = Clean then Complete m else Spoilt) (p @ take n (in_line m))"
proof (cases "st = Clean")
  case True
  with assms opened_beginning [of n m] show ?thesis
    by (auto simp: line_holds_def printable_in_line printable_take)
next
  case False
  with assms spoilt_more [OF line_holds_spoilt] show ?thesis
    by (auto simp: line_holds_def printable_in_line printable_take)
qed

lemma unmarshal_opened: "opened p \<Longrightarrow> \<not> snd (unmarshal_in p)"
  by (simp add: unmarshal_in_def opened_refused)

lemma runAgentLoop_line:
  assumes "printable p" and "length p < max_token"
  shows "runAgentLoop (p @ newline # rest) = (if snd (unmarshal_in p) then applyEvent (fst (unmarshal_in p)) else []) @ runAgentLoop rest"
  using scan_lines_line [of p rest] printable_line [OF assms(1)] assms(2)
  by (simp add: runAgentLoop_def read_frames_def case_prod_beta)

lemma runAgentLoop_end:
  assumes "printable p" and "length p < max_token" and "p \<noteq> []"
  shows "runAgentLoop p = (if snd (unmarshal_in p) then applyEvent (fst (unmarshal_in p)) else [])"
proof -
  have nl: "\<forall>c \<in> set p. c \<noteq> newline" "drop_cr p = p" using printable_line [OF assms(1)] by auto
  then have "takeWhile (\<lambda>c. c \<noteq> newline) p = p" "dropWhile (\<lambda>c. c \<noteq> newline) p = []" by simp_all
  with nl(2) have "scan_lines p = [p]" using assms(2,3) by (subst scan_lines.simps) (simp add: Let_def del: takeWhile_eq_all_conv dropWhile_eq_Nil_conv)
  then show ?thesis by (simp add: runAgentLoop_def read_frames_def case_prod_beta)
qed

theorem runAgentLoop_received:
  assumes "line_holds st p" and "lines_fit (length p) ws"
  shows "runAgentLoop (p @ torn_stream ws) = concat (map (\<lambda>m. map norm_call (applyEvent m)) (received st ws))"
  using assms
proof (induction st ws arbitrary: p rule: received.induct)
  case (1 m)
  then have "p = in_line m" "printable p" "length p < max_token" by (auto simp: line_holds_def)
  moreover have "in_line m \<noteq> []" using in_line_head [of m] by auto
  ultimately show ?case using runAgentLoop_end [of p] by (simp add: unmarshal_in_line applyEvent_norm)
next
  case "2_1"
  then show ?case by (simp add: line_holds_def)
next
  case "2_2"
  then have p: "printable p" "length p < max_token" "p \<noteq> []" "opened p" by (simp_all add: line_holds_def)
  show ?case using runAgentLoop_end [OF p(1-3)] unmarshal_opened [OF p(4)] by simp
next
  case (3 st m n ws)
  consider "n = 0" | "length (in_line m) < n" | "0 < n" "n \<le> length (in_line m)" by linarith
  then show ?case
  proof cases
    case 1
    with 3 show ?thesis by simp
  next
    case 2
    have fit: "length p + length (in_line m) < max_token" "lines_fit 0 ws" using "3.prems"(2) 2 by auto
    have IH: "runAgentLoop (torn_stream ws) = concat (map (\<lambda>m. map norm_call (applyEvent m)) (received Clean ws))"
      using "3.IH"(2) [of "[]"] 2 fit(2) by (simp add: line_holds_def printable_def)
    have stream: "p @ torn_stream ((m, n) # ws) = (p @ in_line m) @ newline # torn_stream ws"
      using 2 by (simp add: encode_in_line)
    have "printable (p @ in_line m)" using "3.prems"(1) by (simp add: line_holds_def printable_in_line)
    from runAgentLoop_line [OF this, of "torn_stream ws"] fit(1)
    have line: "runAgentLoop (p @ torn_stream ((m, n) # ws)) =
        (if snd (unmarshal_in (p @ in_line m)) then applyEvent (fst (unmarshal_in (p @ in_line m))) else []) @ runAgentLoop (torn_stream ws)"
      unfolding stream by simp
    show ?thesis
    proof (cases "st = Clean")
      case True
      then have "p = []" using "3.prems"(1) by (simp add: line_holds_def)
      with line IH 2 True show ?thesis by (simp add: unmarshal_in_line applyEvent_norm)
    next
      case False
      have "0 < length (in_line m)" using in_line_head [of m] by auto
      from spoilt_more [OF line_holds_spoilt [OF "3.prems"(1) False] this order_refl]
      have "opened (p @ in_line m)" by simp
      with line IH 2 False show ?thesis by (simp add: unmarshal_opened)
    qed
  next
    case 3
    let ?p = "p @ take n (in_line m)"
    have stream: "p @ torn_stream ((m, n) # ws) = ?p @ torn_stream ws" using 3 by (simp add: encode_in_line)
    have fit: "lines_fit (length ?p) ws" using "3.prems"(2) 3 by simp
    note held = line_holds_more [OF "3.prems"(1) 3]
    show ?thesis
    proof (cases "n = length (in_line m) \<and> st = Clean")
      case True
      with "3.IH"(3) [of ?p] 3 held fit show ?thesis unfolding stream by simp
    next
      case False
      then have r: "received st ((m, n) # ws) = received Spoilt ws" using 3 by auto
      have "runAgentLoop (?p @ torn_stream ws) = concat (map (\<lambda>m. map norm_call (applyEvent m)) (received Spoilt ws))"
        using "3.IH"(4) [of ?p] 3 False held [unfolded if_not_P [OF False]] fit by simp
      then show ?thesis unfolding stream r .
    qed
  qed
qed

text \<open>Writes that all got through, and one of them cut inside its line.\<close>

definition whole :: "inmsg list \<Rightarrow> (inmsg \<times> nat) list" where
  "whole ms = map (\<lambda>m. (m, length (encode (marshal_in m)))) ms"

lemma received_whole: "received Clean (whole ms @ ws) = ms @ received Clean ws"
  by (induction ms) (simp_all add: whole_def encode_in_line)

lemma received_cut:
  assumes "0 < n" and "n < length (in_line m)"
  shows "received Clean (whole pre @ (m, n) # whole (m' # post)) = pre @ post"
proof -
  have "received Clean (whole post) = post" using received_whole [of post "[]"] by simp
  with assms show ?thesis unfolding received_whole by (simp add: whole_def encode_in_line)
qed

subsection \<open>Fan-out under deadlines\<close>

text \<open>
  A connection under a write deadline: what it has taken, and of each write still to come how many bytes it will
  take before the deadline.
\<close>

type_synonym slow_conn = "string \<times> nat list"

definition slow_write :: "slow_conn \<Rightarrow> string \<Rightarrow> slow_conn option" where
  "slow_write c b = Some (fst c @ take (hd (snd c)) b, tl (snd c))"

fun fan_out_all :: "slow_conn fanoutWriter \<Rightarrow> inmsg list \<Rightarrow> slow_conn fanoutWriter option" where
  "fan_out_all f [] = Some f"
| "fan_out_all f (m # ms) =
    (case emit (newPipeInjector (Some f)) m of
       None \<Rightarrow> None
     | Some (w, b) \<Rightarrow>
         (case fanoutWrite id slow_write w b of None \<Rightarrow> None | Some (f', n) \<Rightarrow> fan_out_all f' ms))"

definition took :: "inmsg list \<Rightarrow> slow_conn \<Rightarrow> slow_conn" where
  "took ms c = (fst c @ torn_stream (zip ms (snd c)), drop (length ms) (snd c))"

lemma fan_out_all_took:
  assumes "0 < fo_timeout f" and "\<And>c. c \<in> set (fo_ws f) \<Longrightarrow> length (snd c) = length ms"
  shows "fan_out_all f ms = Some (f\<lparr>fo_ws := map (took ms) (fo_ws f)\<rparr>)"
  using assms
proof (induction ms arbitrary: f)
  case Nil
  then show ?case by (simp add: took_def map_idI)
next
  case (Cons m ms)
  let ?f = "f\<lparr>fo_ws := map (took [m]) (fo_ws f)\<rparr>"
  have q: "snd c = hd (snd c) # tl (snd c) \<and> length (tl (snd c)) = length ms" if "c \<in> set (fo_ws f)" for c
    using Cons.prems(2) [OF that] by (cases "snd c") auto
  have one: "the (slow_write c b) = took [m] c" if "c \<in> set (fo_ws f)" "b = encode (marshal_in m)" for c b
    using q [OF that(1)] by (cases "snd c") (auto simp: slow_write_def took_def that(2))
  have "fanoutWrite id slow_write f (encode (marshal_in m)) = Some (?f, length (encode (marshal_in m)))"
    using Cons.prems(1) fanout_loop_each [of "fo_ws f" slow_write id "encode (marshal_in m)"] one
    by (simp add: fanoutWrite_def slow_write_def cong: map_cong)
  moreover have "fan_out_all ?f ms = Some (?f\<lparr>fo_ws := map (took ms) (fo_ws ?f)\<rparr>)"
    using Cons.prems(1) q by (intro Cons.IH) (auto simp: took_def drop_Suc)
  moreover have "took ms (took [m] c) = took (m # ms) c" if "c \<in> set (fo_ws f)" for c
    using q [OF that] by (cases "snd c") (auto simp: took_def)
  ultimately show ?case by (simp add: emit_def newPipeInjector_def)
qed

theorem fan_out_received:
  assumes "0 < fo_timeout f"
    and "\<And>c. c \<in> set (fo_ws f) \<Longrightarrow> fst c = [] \<and> length (snd c) = length ms \<and> lines_fit 0 (zip ms (snd c))"
  shows "\<exists>f'. fan_out_all f ms = Some f' \<and>
    map (\<lambda>c. runAgentLoop (fst c)) (fo_ws f') =
    map (\<lambda>c. concat (map (\<lambda>m. map norm_call (applyEvent m)) (received Clean (zip ms (snd c))))) (fo_ws f)"
proof (intro exI conjI)
  show "fan_out_all f ms = Some (f\<lparr>fo_ws := map (took ms) (fo_ws f)\<rparr>)"
    by (rule fan_out_all_took) (use assms in auto)
  have "runAgentLoop (fst (took ms c)) = concat (map (\<lambda>m. map norm_call (applyEvent m)) (received Clean (zip ms (snd c))))"
    if "c \<in> set (fo_ws f)" for c
    using assms(2) [OF that] runAgentLoop_received [of Clean "[]"] by (simp add: took_def line_holds_def printable_def)
  then show "map (\<lambda>c. runAgentLoop (fst c)) (fo_ws (f\<lparr>fo_ws := map (took ms) (fo_ws f)\<rparr>)) =
    map (\<lambda>c. concat (map (\<lambda>m. map norm_call (applyEvent m)) (received Clean (zip ms (snd c))))) (fo_ws f)"
    by simp
qed

end
