(* ===== verification/Clients.thy ===== *)
theory Clients
  imports Prelude "HOL-Library.Product_Lexorder"
begin

text \<open>
  clients.go: the registry of online devices.  The Go map is an association list with
  distinct keys whose order stands for the map's iteration order, so nothing below may
  depend on it.  Times are nanoseconds; the clock is an argument.  The callback of a change
  is run by the caller of \<open>notify\<close>, so the operations return the list of callbacks they ran.
\<close>

record client =
  cl_Name :: string
  cl_Addr :: string
  cl_Since :: int
  cl_seq :: uint64

record 'f registry =
  rg_clients :: "(uint64 \<times> client) list"
  rg_nextID :: uint64
  rg_onChange :: "'f option"

definition NewClientRegistry :: "'f registry" where
  "NewClientRegistry = \<lparr>rg_clients = [], rg_nextID = 0, rg_onChange = None\<rparr>"

definition notify :: "'f registry \<Rightarrow> 'f list" where
  "notify r = (case rg_onChange r of None \<Rightarrow> [] | Some f \<Rightarrow> [f])"

definition go_delete :: "'k \<Rightarrow> ('k \<times> 'v) list \<Rightarrow> ('k \<times> 'v) list" where
  "go_delete k m = filter (\<lambda>p. fst p \<noteq> k) m"

definition go_insert :: "'k \<Rightarrow> 'v \<Rightarrow> ('k \<times> 'v) list \<Rightarrow> ('k \<times> 'v) list" where
  "go_insert k v m = (k, v) # go_delete k m"

definition Register :: "int \<Rightarrow> string \<Rightarrow> string \<Rightarrow> 'f registry \<Rightarrow> 'f registry \<times> uint64 \<times> 'f list" where
  "Register now name addr r =
    (let id' = rg_nextID r + 1;
         r' = r\<lparr>rg_nextID := id',
                rg_clients := go_insert id' \<lparr>cl_Name = name, cl_Addr = addr, cl_Since = now, cl_seq = id'\<rparr> (rg_clients r)\<rparr>
     in (r', id', notify r'))"

definition Deregister :: "uint64 \<Rightarrow> 'f registry \<Rightarrow> 'f registry \<times> 'f list" where
  "Deregister id' r =
    (let ok = map_of (rg_clients r) id' \<noteq> None; r' = r\<lparr>rg_clients := go_delete id' (rg_clients r)\<rparr>
     in (r', if ok then notify r' else []))"

definition SetOnChange :: "'f option \<Rightarrow> 'f registry \<Rightarrow> 'f registry" where
  "SetOnChange f r = r\<lparr>rg_onChange := f\<rparr>"

text \<open>The order of \<open>Snapshot\<close>: by \<open>Since\<close>, ties by \<open>seq\<close>.\<close>

definition client_less :: "client \<Rightarrow> client \<Rightarrow> bool" where
  "client_less a b = (if cl_Since a = cl_Since b then cl_seq a < cl_seq b else cl_Since a < cl_Since b)"

text \<open>
  \<open>sort.Slice\<close> with the comparison of the caller.  The library does not say which of the orders the comparison allows
  it returns; this is insertion, and \<open>Snapshot_any_sort\<close> shows that for \<open>Snapshot\<close> any other one gives the same list.
\<close>

fun insert_less :: "('a \<Rightarrow> 'a \<Rightarrow> bool) \<Rightarrow> 'a \<Rightarrow> 'a list \<Rightarrow> 'a list" where
  "insert_less lt x [] = [x]"
| "insert_less lt x (y # ys) = (if lt y x then y # insert_less lt x ys else x # y # ys)"

definition sort_Slice :: "('a \<Rightarrow> 'a \<Rightarrow> bool) \<Rightarrow> 'a list \<Rightarrow> 'a list" where
  "sort_Slice lt xs = foldr (insert_less lt) xs []"

definition Snapshot :: "'f registry \<Rightarrow> client list" where
  "Snapshot r = sort_Slice client_less (map snd (rg_clients r))"

subsection \<open>Go maps as association lists\<close>

lemma map_of_go_delete [simp]: "map_of (go_delete k m) = (map_of m)(k := None)"
  by (simp add: go_delete_def map_of_filter_key)

lemma map_of_go_insert [simp]: "map_of (go_insert k v m) = (map_of m)(k \<mapsto> v)"
  by (simp add: go_insert_def)

lemma distinct_go_delete [intro]: "distinct (map fst m) \<Longrightarrow> distinct (map fst (go_delete k m))"
  by (simp add: go_delete_def distinct_fst_filter)

lemma distinct_go_insert [intro]: "distinct (map fst m) \<Longrightarrow> distinct (map fst (go_insert k v m))"
  by (auto simp: go_insert_def go_delete_def distinct_fst_filter)

lemma set_go_delete: "p \<in> set (go_delete k m) \<longleftrightarrow> p \<in> set m \<and> fst p \<noteq> k"
  by (auto simp: go_delete_def)

lemma set_go_insert: "p \<in> set (go_insert k v m) \<longleftrightarrow> p = (k, v) \<or> p \<in> set m \<and> fst p \<noteq> k"
  by (auto simp: go_insert_def set_go_delete)

subsection \<open>Invariant\<close>

definition reg_inv :: "'f registry \<Rightarrow> bool" where
  "reg_inv r \<longleftrightarrow> distinct (map fst (rg_clients r)) \<and>
     (\<forall>(k, c) \<in> set (rg_clients r). cl_seq c = k \<and> 0 < k \<and> k \<le> rg_nextID r)"

text \<open>Ids are 64 bits wide and never reused before they wrap.\<close>

definition reg_room :: "'f registry \<Rightarrow> bool" where
  "reg_room r \<longleftrightarrow> rg_nextID r \<noteq> - 1"

lemma reg_inv_new [inv_intros]: "reg_inv NewClientRegistry"
  by (simp add: reg_inv_def NewClientRegistry_def)

lemma next_id:
  assumes "(n :: uint64) \<noteq> - 1"
  shows "n < n + 1" and "0 < n + 1"
proof -
  have "n + 1 \<noteq> 0"
  proof
    assume "n + 1 = 0"
    then have "n + 1 - 1 = 0 - 1" by (rule arg_cong)
    with assms show False by simp
  qed
  then have "unat (n + 1) = Suc (unat n)" using unatSuc [of n] by (simp add: add.commute)
  then show "n < n + 1" and "0 < n + 1" by (simp_all add: word_less_nat_alt)
qed

lemma reg_inv_Register [inv_intros]:
  assumes "reg_inv r" and "reg_room r" and "Register now name addr r = (r', k, fs)"
  shows "reg_inv r'"
proof -
  have n: "rg_nextID r < rg_nextID r + 1" "0 < rg_nextID r + 1"
    using assms(2) next_id by (auto simp: reg_room_def)
  have "(k', c) \<in> set (rg_clients r) \<Longrightarrow> cl_seq c = k' \<and> 0 < k' \<and> k' \<le> rg_nextID r + 1" for k' c
    using assms(1) n(1) by (fastforce simp: reg_inv_def)
  then show ?thesis
    using assms(1,3) n by (auto simp: Register_def Let_def reg_inv_def set_go_insert)
qed

lemma reg_inv_Deregister [inv_intros]: "reg_inv r \<Longrightarrow> reg_inv (fst (Deregister k r))"
  by (auto simp: reg_inv_def Deregister_def Let_def set_go_delete)

lemma reg_inv_SetOnChange [inv_intros]: "reg_inv r \<Longrightarrow> reg_inv (SetOnChange f r)"
  by (simp add: reg_inv_def SetOnChange_def)

subsection \<open>The contract of the registry\<close>

text \<open>
  What the server relies on: a registration gets an id no live connection has, and the live
  connections are the registrations not yet undone.
\<close>

locale session_registry =
  fixes reg :: "'r \<Rightarrow> 'v \<Rightarrow> 'r \<times> 'k"
    and dereg :: "'r \<Rightarrow> 'k \<Rightarrow> 'r"
    and live :: "'r \<Rightarrow> 'k \<rightharpoonup> 'v"
    and inv :: "'r \<Rightarrow> bool"
    and room :: "'r \<Rightarrow> bool"
  assumes reg_fresh: "inv r \<Longrightarrow> room r \<Longrightarrow> reg r v = (r', k) \<Longrightarrow> live r k = None"
    and reg_live: "inv r \<Longrightarrow> room r \<Longrightarrow> reg r v = (r', k) \<Longrightarrow> live r' = (live r)(k \<mapsto> v)"
    and reg_inv: "inv r \<Longrightarrow> room r \<Longrightarrow> reg r v = (r', k) \<Longrightarrow> inv r'"
    and dereg_live: "inv r \<Longrightarrow> live (dereg r k) = (live r)(k := None)"
    and dereg_inv: "inv r \<Longrightarrow> inv (dereg r k)"
begin

lemma reg_dereg: "inv r \<Longrightarrow> room r \<Longrightarrow> reg r v = (r', k) \<Longrightarrow> live (dereg r' k) = live r"
  using reg_fresh [of r v r' k] by (simp add: dereg_live reg_live reg_inv fun_upd_idem)

lemma dereg_commute: "inv r \<Longrightarrow> live (dereg (dereg r k) k') = live (dereg (dereg r k') k)"
  by (simp add: dereg_live dereg_inv fun_eq_iff)

lemma dereg_twice: "inv r \<Longrightarrow> live (dereg (dereg r k) k) = live (dereg r k)"
  by (simp add: dereg_live dereg_inv)

text \<open>Closing every connection that is live leaves none, in whatever order they close.\<close>

lemma dereg_all:
  assumes "inv r" and "dom (live r) \<subseteq> set ks"
  shows "live (foldl dereg r ks) = Map.empty \<and> inv (foldl dereg r ks)"
  using assms
proof (induction ks arbitrary: r)
  case (Cons k ks)
  have "inv (dereg r k)" using Cons.prems(1) by (rule dereg_inv)
  moreover have "dom (live (dereg r k)) \<subseteq> set ks" using Cons.prems by (auto simp: dereg_live)
  ultimately show ?case using Cons.IH [of "dereg r k"] by simp
qed simp

end

definition live_clients :: "'f registry \<Rightarrow> uint64 \<rightharpoonup> int \<times> string \<times> string" where
  "live_clients r k = map_option (\<lambda>c. (cl_Since c, cl_Name c, cl_Addr c)) (map_of (rg_clients r) k)"

lemma live_Register:
  "Register now name addr r = (r', k, fs) \<Longrightarrow> live_clients r' = (live_clients r)(k \<mapsto> (now, name, addr))"
  by (auto simp: Register_def Let_def live_clients_def fun_eq_iff)

lemma live_Deregister: "live_clients (fst (Deregister k r)) = (live_clients r)(k := None)"
  by (auto simp: Deregister_def Let_def live_clients_def fun_eq_iff)

lemma Register_fresh:
  assumes "reg_inv r" and "reg_room r" and "Register now name addr r = (r', k, fs)"
  shows "live_clients r k = None"
proof (rule ccontr)
  assume "live_clients r k \<noteq> None"
  then obtain c where "(k, c) \<in> set (rg_clients r)" by (auto simp: live_clients_def dest: map_of_SomeD)
  with assms(1) have "k \<le> rg_nextID r" by (auto simp: reg_inv_def)
  with assms(2,3) next_id(1) [of "rg_nextID r"] show False by (auto simp: Register_def Let_def reg_room_def)
qed

interpretation reg: session_registry
  "\<lambda>r (now, name, addr). (\<lambda>(r', k, _). (r', k)) (Register now name addr r)"
  "\<lambda>r k. fst (Deregister k r)" live_clients reg_inv reg_room
  by unfold_locales
    (auto simp: live_Deregister live_Register intro: inv_intros Register_fresh split: prod.splits)

subsection \<open>Snapshot\<close>

text \<open>The key whose lexicographic order the comparison decides.\<close>

definition client_key :: "client \<Rightarrow> int \<times> uint64" where
  "client_key c = (cl_Since c, cl_seq c)"

lemma client_less_key: "client_less a b \<longleftrightarrow> client_key a < client_key b"
  by (auto simp: client_less_def client_key_def)

lemma insert_less_key: "insert_less client_less c cs = insort_key client_key c cs"
  by (induction cs) (auto simp: client_less_key not_less)

lemma Snapshot_sort_key: "Snapshot r = sort_key client_key (map snd (rg_clients r))"
  by (simp add: Snapshot_def sort_Slice_def sort_key_def insert_less_key [abs_def])

lemma Snapshot_empty [simp]: "rg_clients r = [] \<Longrightarrow> Snapshot r = []"
  by (simp add: Snapshot_sort_key)

lemma mset_Snapshot: "mset (Snapshot r) = mset (map snd (rg_clients r))"
  by (simp add: Snapshot_sort_key)

lemma length_Snapshot [simp]: "length (Snapshot r) = length (rg_clients r)"
  by (simp add: Snapshot_sort_key)

lemma reg_inv_keys:
  assumes "reg_inv r"
  shows "distinct (map client_key (Snapshot r))"
proof -
  have "map cl_seq (map snd (rg_clients r)) = map fst (rg_clients r)"
    using assms by (auto simp: reg_inv_def)
  then have "distinct (map cl_seq (map snd (rg_clients r)))"
    using assms by (simp only: reg_inv_def)
  moreover have "map cl_seq (map snd (rg_clients r)) = map snd (map client_key (map snd (rg_clients r)))"
    by (simp add: client_key_def)
  ultimately have "distinct (map snd (map client_key (map snd (rg_clients r))))" by (simp only:)
  then have "distinct (map client_key (map snd (rg_clients r)))" by (simp add: distinct_map del: map_map)
  moreover have "mset (map client_key (Snapshot r)) = mset (map client_key (map snd (rg_clients r)))"
    by (simp only: mset_map mset_Snapshot)
  ultimately show ?thesis by (metis mset_eq_imp_distinct_iff)
qed

lemma Snapshot_sorted:
  assumes "reg_inv r"
  shows "sorted_wrt client_less (Snapshot r)"
proof -
  have "sorted (map client_key (Snapshot r))" by (simp add: Snapshot_sort_key)
  then have "sorted_wrt (<) (map client_key (Snapshot r))"
    using reg_inv_keys [OF assms] by (simp add: strict_sorted_iff)
  then show ?thesis by (simp add: sorted_wrt_map client_less_key [abs_def])
qed

text \<open>Any sort that puts nothing behind a client it should come before gives the same list, in whatever order it found them.\<close>

lemma Snapshot_any_sort:
  assumes "reg_inv r" and "mset cs = mset (map snd (rg_clients r))" and "sorted_wrt (\<lambda>a b. \<not> client_less b a) cs"
  shows "cs = Snapshot r"
proof -
  have m: "mset cs = mset (Snapshot r)" using assms(2) by (simp only: mset_Snapshot)
  have "inj_on client_key (set (Snapshot r))" using reg_inv_keys [OF assms(1)] by (simp add: distinct_map)
  moreover have "set cs = set (Snapshot r)" using m by (rule mset_eq_setD)
  ultimately have inj: "inj_on client_key (set cs \<union> set (Snapshot r))" by simp
  have "sorted (map client_key cs)"
    using assms(3) by (simp add: sorted_wrt_map client_less_key not_less)
  moreover have "sorted (map client_key (Snapshot r))" by (simp add: Snapshot_sort_key)
  moreover have "mset (map client_key cs) = mset (map client_key (Snapshot r))" using m by simp
  ultimately have "map client_key cs = map client_key (Snapshot r)" by (metis properties_for_sort)
  then show ?thesis using inj by (rule map_inj_on)
qed

lemma Snapshot_permuted:
  assumes "reg_inv r" and "mset (rg_clients r') = mset (rg_clients r)"
  shows "Snapshot r' = Snapshot r"
proof (rule Snapshot_any_sort [OF assms(1)])
  show "mset (Snapshot r') = mset (map snd (rg_clients r))" using assms(2) by (simp only: mset_Snapshot mset_map)
  have "sorted (map client_key (Snapshot r'))" by (simp add: Snapshot_sort_key)
  then show "sorted_wrt (\<lambda>a b. \<not> client_less b a) (Snapshot r')" by (simp add: sorted_wrt_map client_less_key not_less)
qed

end
