(* ===== verification/Crypto.thy ===== *)
theory Crypto
  imports Utf
begin

unbundle bit_operations_syntax

text \<open>
  The standard-library functions behind the password proof: base64 (\<open>StdEncoding\<close>), SHA-256
  and HMAC, and \<open>deriveProof\<close> of server.go built on them.  PBKDF2 is golang.org/x/crypto, not
  part of the sources, so the key derivation is an argument: password, salt, iteration count
  and key length to key.
\<close>

subsection \<open>Base64\<close>

definition b64_digit :: "nat \<Rightarrow> char" where
  "b64_digit n =
    (if n < 26 then byte_chr (65 + n) else if n < 52 then byte_chr (71 + n) else if n < 62 then byte_chr (n - 4)
     else if n = 62 then CHR ''+'' else CHR ''/'')"

definition b64_val :: "char \<Rightarrow> nat" where
  "b64_val c =
    (let b = byte_val c in
     if 65 \<le> b \<and> b \<le> 90 then b - 65 else if 97 \<le> b \<and> b \<le> 122 then b - 71
     else if 48 \<le> b \<and> b \<le> 57 then b + 4 else if b = 43 then 62 else 63)"

fun base64 :: "string \<Rightarrow> string" where
  "base64 (a # b # c # r) =
    (let n = byte_val a * 65536 + byte_val b * 256 + byte_val c
     in b64_digit (n div 262144) # b64_digit (n div 4096 mod 64) # b64_digit (n div 64 mod 64) # b64_digit (n mod 64) # base64 r)"
| "base64 [a, b] =
    (let n = byte_val a * 65536 + byte_val b * 256
     in [b64_digit (n div 262144), b64_digit (n div 4096 mod 64), b64_digit (n div 64 mod 64), CHR ''=''])"
| "base64 [a] =
    (let n = byte_val a * 65536
     in [b64_digit (n div 262144), b64_digit (n div 4096 mod 64), CHR ''='', CHR ''=''])"
| "base64 [] = []"

text \<open>The decoder, to state that nothing is lost.\<close>

fun unbase64 :: "string \<Rightarrow> string" where
  "unbase64 (p # q # r # s # t) =
    (let n = b64_val p * 262144 + b64_val q * 4096 in
     if r = CHR ''='' then [byte_chr (n div 65536)]
     else let n = n + b64_val r * 64 in
       if s = CHR ''='' then [byte_chr (n div 65536), byte_chr (n div 256 mod 256)]
       else let n = n + b64_val s in
         byte_chr (n div 65536) # byte_chr (n div 256 mod 256) # byte_chr (n mod 256) # unbase64 t)"
| "unbase64 _ = []"

lemma b64_val_digit: "n < 64 \<Longrightarrow> b64_val (b64_digit n) = n"
  by (auto simp: b64_val_def b64_digit_def Let_def)

lemma b64_digit_pad: "n < 64 \<Longrightarrow> b64_digit n \<noteq> CHR ''=''"
proof
  assume "n < 64" and "b64_digit n = CHR ''=''"
  then have "n = b64_val (CHR ''='')" using b64_val_digit [of n] by simp
  then have "n = 63" by (simp add: b64_val_def)
  with \<open>b64_digit n = CHR ''=''\<close> show False by (simp add: b64_digit_def)
qed

lemma sixtets:
  "(n :: nat) div 262144 * 262144 + n div 4096 mod 64 * 4096 + n div 64 mod 64 * 64 + n mod 64 = n"
proof -
  have "n div 64 * 64 + n mod 64 = n" "n div 64 div 64 * 64 + n div 64 mod 64 = n div 64"
    "n div 64 div 64 div 64 * 64 + n div 64 div 64 mod 64 = n div 64 div 64"
    by (rule div_mult_mod_eq)+
  then show ?thesis unfolding div_262144 div_4096 by linarith
qed

lemma bytes_of:
  assumes "a < 256" "b < 256" "c < (256 :: nat)"
  shows "(a * 65536 + b * 256 + c) div 65536 = a" "(a * 65536 + b * 256 + c) div 256 mod 256 = b"
    "(a * 65536 + b * 256 + c) mod 256 = c" "(a * 65536 + b * 256 + c) div 262144 < 64"
proof -
  let ?n = "a * 65536 + b * 256 + c"
  show "?n div 65536 = a" by (rule div_nat_eqI) (use assms in simp_all)
  have n: "?n = (a * 256 + b) * 256 + c" by simp
  have "?n div 256 = a * 256 + b" by (rule div_nat_eqI) (use assms in simp_all)
  then show "?n div 256 mod 256 = b" using assms by simp
  show "?n mod 256 = c" using assms unfolding n by (simp only: mod_mult_self3 mod_less)
  show "?n div 262144 < 64" using assms by (simp add: div_less_iff_less_mult)
qed

lemma byte_chr_eqI: "n mod 256 = byte_val c \<Longrightarrow> byte_chr n = c"
  by (metis char_of_char char_of_mod_256)

lemma unbase64_base64 [codec_simps]: "unbase64 (base64 s) = s"
proof (induction s rule: base64.induct)
  case (1 a b c r)
  let ?n = "byte_val a * 65536 + byte_val b * 256 + byte_val c :: nat"
  note B = bytes_of [OF byte_val_less [of a] byte_val_less [of b] byte_val_less [of c]]
  show ?case
    using 1 sixtets [of ?n] B by (simp add: Let_def b64_val_digit b64_digit_pad byte_chr_eqI [OF B(2)] byte_chr_eqI [OF B(3)])
next
  case (2 a b)
  let ?n = "byte_val a * 65536 + byte_val b * 256 :: nat"
  have B: "?n div 65536 = byte_val a" "?n div 256 mod 256 = byte_val b" "?n div 262144 < 64" "?n mod 64 = 0"
    using bytes_of [OF byte_val_less [of a] byte_val_less [of b], of 0] by simp_all
  have "byte_chr (256 * byte_val a + byte_val b) = b" by (rule byte_chr_eqI) simp
  then show ?case
    using sixtets [of ?n] B by (simp add: Let_def b64_val_digit b64_digit_pad)
next
  case (3 a)
  let ?n = "byte_val a * 65536 :: nat"
  have B: "?n div 65536 = byte_val a" "?n div 262144 < 64" "?n mod 64 = 0" "?n div 64 mod 64 = 0"
    using bytes_of [OF byte_val_less [of a], of 0 0] by simp_all
  show ?case
    using sixtets [of ?n] B by (simp add: Let_def b64_val_digit b64_digit_pad)
qed simp

lemma b64_digit_ascii: "n < 64 \<Longrightarrow> byte_val (b64_digit n) < (0x80 :: nat)"
  by (auto simp: b64_digit_def)

lemma base64_ascii: "c \<in> set (base64 s) \<Longrightarrow> byte_val c < (0x80 :: nat)"
proof (induction s rule: base64.induct)
  case (1 a b d r)
  note B = bytes_of(4) [OF byte_val_less [of a] byte_val_less [of b] byte_val_less [of d]]
  from 1 B show ?case by (auto simp: Let_def b64_digit_ascii)
next
  case (2 a b)
  have "(byte_val a * 65536 + byte_val b * 256) div 262144 < (64 :: nat)"
    using bytes_of(4) [OF byte_val_less [of a] byte_val_less [of b], of 0] by simp
  with 2 show ?case by (auto simp: Let_def b64_digit_ascii)
next
  case (3 a)
  have "byte_val a * 65536 div 262144 < (64 :: nat)"
    using bytes_of(4) [OF byte_val_less [of a], of 0 0] by simp
  with 3 show ?case by (auto simp: Let_def b64_digit_ascii)
qed simp

lemma base64_inject: "base64 s = base64 t \<longleftrightarrow> s = t"
  by (metis unbase64_base64)

lemma base64_length: "length (base64 s) = 4 * ((length s + 2) div 3)"
proof (induction s rule: base64.induct)
  case (1 a b c r)
  have "(5 + n) div 3 = Suc ((2 + n) div 3)" for n :: nat by presburger
  with 1 show ?case by (simp add: Let_def)
qed (simp_all add: Let_def)

subsection \<open>SHA-256\<close>

definition sha_K :: "32 word list" where
  "sha_K = [
    1116352408, 1899447441, 3049323471, 3921009573, 961987163, 1508970993, 2453635748, 2870763221,
    3624381080, 310598401, 607225278, 1426881987, 1925078388, 2162078206, 2614888103, 3248222580,
    3835390401, 4022224774, 264347078, 604807628, 770255983, 1249150122, 1555081692, 1996064986,
    2554220882, 2821834349, 2952996808, 3210313671, 3336571891, 3584528711, 113926993, 338241895,
    666307205, 773529912, 1294757372, 1396182291, 1695183700, 1986661051, 2177026350, 2456956037,
    2730485921, 2820302411, 3259730800, 3345764771, 3516065817, 3600352804, 4094571909, 275423344,
    430227734, 506948616, 659060556, 883997877, 958139571, 1322822218, 1537002063, 1747873779,
    1955562222, 2024104815, 2227730452, 2361852424, 2428436474, 2756734187, 3204031479, 3329325298]"

definition sha_init :: "32 word list" where
  "sha_init = [1779033703, 3144134277, 1013904242, 2773480762, 1359893119, 2600822924, 528734635, 1541459225]"

fun be_word :: "string \<Rightarrow> 32 word" where
  "be_word s = word_of_nat (foldl (\<lambda>n c. n * 256 + byte_val c) 0 s)"

definition be_bytes :: "nat \<Rightarrow> nat \<Rightarrow> string" where
  "be_bytes k n = map (\<lambda>i. byte_chr (n div 256 ^ i mod 256)) (rev [0..<k])"

definition sha_pad :: "string \<Rightarrow> string" where
  "sha_pad s =
    s @ [CHR 0x80] @ replicate ((64 - (length s + 9) mod 64) mod 64) (CHR 0x00) @ be_bytes 8 (8 * length s)"

function blocks :: "nat \<Rightarrow> 'a list \<Rightarrow> 'a list list" where
  "blocks k s = (if s = [] \<or> k = 0 then [] else take k s # blocks k (drop k s))"
  by pat_completeness auto
termination by (relation "measure (\<lambda>(k, s). length s)") auto

declare blocks.simps [simp del]

text \<open>The message schedule, newest word first.\<close>

fun sha_extend :: "nat \<Rightarrow> 32 word list \<Rightarrow> 32 word list" where
  "sha_extend 0 w = w"
| "sha_extend (Suc n) w =
    (let w15 = w ! 14; w2 = w ! 1;
         s0 = word_rotr 7 w15 XOR word_rotr 18 w15 XOR drop_bit 3 w15;
         s1 = word_rotr 17 w2 XOR word_rotr 19 w2 XOR drop_bit 10 w2
     in sha_extend n ((w ! 15 + s0 + w ! 6 + s1) # w))"

fun sha_round :: "32 word list \<Rightarrow> 32 word \<times> 32 word \<Rightarrow> 32 word list" where
  "sha_round [a, b, c, d, e, f, g, h] (k, w) =
    (let S1 = word_rotr 6 e XOR word_rotr 11 e XOR word_rotr 25 e;
         ch = (e AND f) XOR (NOT e AND g);
         t1 = h + S1 + ch + k + w;
         S0 = word_rotr 2 a XOR word_rotr 13 a XOR word_rotr 22 a;
         maj = (a AND b) XOR (a AND c) XOR (b AND c)
     in [t1 + S0 + maj, a, b, c, d + t1, e, f, g])"
| "sha_round st _ = st"

definition sha_block :: "32 word list \<Rightarrow> string \<Rightarrow> 32 word list" where
  "sha_block st blk =
    (let ws = rev (sha_extend 48 (rev (map be_word (blocks 4 blk))))
     in map2 (+) st (foldl sha_round st (zip sha_K ws)))"

definition sha256 :: "string \<Rightarrow> string" where
  "sha256 s = concat (map (\<lambda>w. be_bytes 4 (unat w)) (foldl sha_block sha_init (blocks 64 (sha_pad s))))"

subsection \<open>HMAC and the proof\<close>

definition xor_byte :: "nat \<Rightarrow> char \<Rightarrow> char" where
  "xor_byte k c = byte_chr (byte_val c XOR k)"

definition hmac_sha256 :: "string \<Rightarrow> string \<Rightarrow> string" where
  "hmac_sha256 key msg =
    (let k = (if 64 < length key then sha256 key else key);
         k = k @ replicate (64 - length k) (CHR 0x00)
     in sha256 (map (xor_byte 0x5C) k @ sha256 (map (xor_byte 0x36) k @ msg)))"

definition iterations :: nat where
  "iterations = 100000"

type_synonym kdf = "string \<Rightarrow> string \<Rightarrow> nat \<Rightarrow> nat \<Rightarrow> string"

definition deriveProof :: "kdf \<Rightarrow> string \<Rightarrow> string \<Rightarrow> string \<Rightarrow> string" where
  "deriveProof kdf password salt nonce =
    (let key = kdf password salt iterations 32 in base64 (hmac_sha256 key nonce))"

lemma length_be_bytes [simp]: "length (be_bytes k n) = k"
  by (simp add: be_bytes_def)

lemma sha_round_length: "length st = 8 \<Longrightarrow> length (sha_round st p) = 8"
  by (cases "(st, p)" rule: sha_round.cases) (auto simp: Let_def)

lemma foldl_sha_round_length: "length st = 8 \<Longrightarrow> length (foldl sha_round st ps) = 8"
  by (induction ps arbitrary: st) (simp_all add: sha_round_length)

lemma sha_block_length: "length st = 8 \<Longrightarrow> length (sha_block st b) = 8"
  by (simp add: sha_block_def Let_def foldl_sha_round_length)

lemma sha256_length [simp]: "length (sha256 s) = 32"
proof -
  have "length (foldl sha_block st bs) = 8" if "length st = 8" for st bs
    using that by (induction bs arbitrary: st) (simp_all add: sha_block_length)
  then have l: "length (foldl sha_block sha_init (blocks 64 (sha_pad s))) = 8" by (simp add: sha_init_def)
  have "length (concat (map (\<lambda>w. be_bytes 4 (unat w)) ws)) = 4 * length ws" for ws :: "32 word list"
    by (induction ws) simp_all
  with l show ?thesis by (simp add: sha256_def)
qed

lemma deriveProof_length: "length (deriveProof kdf pw salt nonce) = 44"
  by (simp add: deriveProof_def Let_def base64_length hmac_sha256_def)

text \<open>Two proofs agree exactly when the MACs they carry do.\<close>

lemma deriveProof_eq_iff:
  "deriveProof kdf pw salt nonce = deriveProof kdf pw' salt' nonce' \<longleftrightarrow>
     hmac_sha256 (kdf pw salt iterations 32) nonce = hmac_sha256 (kdf pw' salt' iterations 32) nonce'"
  by (simp add: deriveProof_def Let_def base64_inject)

end
