(* ===== verification/Server.thy ===== *)
theory Server
  imports Inject Clients Crypto
begin

text \<open>
  server.go: the control server.  \<open>handle_step\<close> is one connection's goroutine, cut where other
  goroutines can run between its effects (a scan of the socket, the read of the password, of
  the name, the registration, each injected call, the deferred deregistration).  \<open>sys_step\<close>
  interleaves any number of connections with \<open>Serve\<close>'s accepts and the hot swaps of password
  and name; \<open>handle\<close> is the whole function run alone on the bytes of one client.
\<close>

subsection \<open>What the server sends\<close>

text \<open>\<open>Marshal\<close> writes the members of a Go map in the order of their names.\<close>

definition str_json :: "string \<Rightarrow> json" where "str_json s = JStr s"

definition int_json :: "int \<Rightarrow> json" where "int_json i = JNum (fmt_int i)"

definition msg_challenge :: "string \<Rightarrow> string \<Rightarrow> json" where
  "msg_challenge salt nonce =
     JObj [(''iter'', int_json (int iterations)), (''nonce'', JStr (base64 nonce)), (''salt'', JStr (base64 salt)),
           (''t'', JStr ''challenge'')]"

definition msg_error :: "string \<Rightarrow> string \<Rightarrow> json" where
  "msg_error code msg = JObj [(''code'', JStr code), (''msg'', JStr msg), (''t'', JStr ''error'')]"

definition msg_auth_ok :: "string \<Rightarrow> json" where
  "msg_auth_ok name = JObj [(''server'', JStr name), (''t'', JStr ''auth_ok''), (''ver'', JStr ''0.1'')]"

definition msg_pong :: "64 word \<Rightarrow> json" where
  "msg_pong ts = JObj [(''t'', JStr ''pong''), (''ts'', int_json (sint ts))]"

definition msg_screen :: "goint \<Rightarrow> goint \<Rightarrow> json" where
  "msg_screen w h = JObj [(''h'', int_json (sint h)), (''t'', JStr ''screen''), (''w'', int_json (sint w))]"

subsection \<open>One connection\<close>

record server =
  sv_password :: string
  sv_name :: string
  sv_reg :: "unit registry option"

definition SetPassword :: "string \<Rightarrow> server \<Rightarrow> server" where
  "SetPassword p s = s\<lparr>sv_password := p\<rparr>"

definition SetName :: "string \<Rightarrow> server \<Rightarrow> server" where
  "SetName n s = s\<lparr>sv_name := n\<rparr>"

definition curPassword :: "server \<Rightarrow> string" where
  [simp]: "curPassword s = sv_password s"

definition curName :: "server \<Rightarrow> string" where
  [simp]: "curName s = sv_name s"

datatype sv_event =
    Sent json
  | Checked string string string inmsg bool
  | Registered uint64
  | Deregistered uint64
  | Notified
  | Injected call

text \<open>Where the goroutine of a connection stands.\<close>

datatype pc =
    WaitHello
  | SendChallenge inmsg
  | WaitAuth inmsg string string
  | CheckAuth inmsg string string inmsg
  | SendOk inmsg
  | Enroll inmsg
  | Serving "uint64 option"
  | AskScreen "uint64 option"
  | Injecting "uint64 option" "call list"
  | Leaving "uint64 option"
  | Closing
  | Closed

text \<open>What the outside answers at a step: a scanned line or its end, randomness, the clock, the screen.\<close>

datatype input =
    Line string
  | Eof
  | Rand string string
  | Clock int
  | ScreenIs goint goint
  | Tau

text \<open>\<open>net.SplitHostPort\<close>: the host, or nothing where it reports an error.\<close>

definition split_host :: "string \<Rightarrow> string option" where
  "split_host hp =
    (case hp of
       [] \<Rightarrow> None
     | c # r \<Rightarrow>
         if c = CHR ''['' then
           (let h = takeWhile (\<lambda>x. x \<noteq> CHR '']'') r in
            case drop (Suc (length h)) r of
              [] \<Rightarrow> None
            | d # p \<Rightarrow>
                if d = CHR '':'' \<and> CHR '':'' \<notin> set p \<and> CHR ''['' \<notin> set r \<and> CHR '']'' \<notin> set p then Some h else None)
         else
           (let h = takeWhile (\<lambda>x. x \<noteq> CHR '':'') hp in
            if CHR '':'' \<in> set hp \<and> CHR '':'' \<notin> set (drop (Suc (length h)) hp) \<and> CHR ''['' \<notin> set hp \<and> CHR '']'' \<notin> set hp
            then Some h else None))"

definition ipOf :: "string \<Rightarrow> string" where
  "ipOf a = (case split_host a of Some h \<Rightarrow> h | None \<Rightarrow> a)"

text \<open>\<open>net.JoinHostPort\<close>, which is how the address of a TCP peer is printed.\<close>

definition join_host_port :: "string \<Rightarrow> string \<Rightarrow> string" where
  "join_host_port h p =
    (if CHR '':'' \<in> set h then CHR ''['' # h @ '']:'' @ p else h @ CHR '':'' # p)"

lemma ipOf_join:
  assumes "CHR ''['' \<notin> set h" "CHR '']'' \<notin> set h"
    and "CHR '':'' \<notin> set p" "CHR ''['' \<notin> set p" "CHR '']'' \<notin> set p"
  shows "ipOf (join_host_port h p) = h"
proof (cases "CHR '':'' \<in> set h")
  case True
  have "takeWhile (\<lambda>x. x \<noteq> CHR '']'') (h @ CHR '']'' # CHR '':'' # p) = h"
    using assms(2) by (intro takeWhile_block) auto
  with True assms show ?thesis by (simp add: ipOf_def split_host_def join_host_port_def Let_def)
next
  case False
  have "takeWhile (\<lambda>x. x \<noteq> CHR '':'') (h @ CHR '':'' # p) = h"
    using False by (intro takeWhile_block) auto
  with False assms show ?thesis
    by (cases h) (auto simp: ipOf_def split_host_def join_host_port_def Let_def)
qed

text \<open>One function per place the goroutine stands at; an answer that does not fit is no step.\<close>

type_synonym outcome = "(pc \<times> server \<times> sv_event list) option"

definition on_hello :: "input \<Rightarrow> server \<Rightarrow> outcome" where
  "on_hello inp sv =
    (case inp of
       Eof \<Rightarrow> Some (Closing, sv, [])
     | Line l \<Rightarrow>
         (let hello = fst (unmarshal_in l) in
          if m_T hello \<noteq> ''hello''
          then Some (Closing, sv, [Sent (msg_error ''bad_hello'' ''expected hello'')])
          else Some (SendChallenge hello, sv, []))
     | _ \<Rightarrow> None)"

definition on_challenge :: "inmsg \<Rightarrow> input \<Rightarrow> server \<Rightarrow> outcome" where
  "on_challenge hello inp sv =
    (case inp of
       Rand salt nonce \<Rightarrow>
         if length salt = 16 \<and> length nonce = 16
         then Some (WaitAuth hello salt nonce, sv, [Sent (msg_challenge salt nonce)]) else None
     | _ \<Rightarrow> None)"

definition on_auth :: "inmsg \<Rightarrow> string \<Rightarrow> string \<Rightarrow> input \<Rightarrow> server \<Rightarrow> outcome" where
  "on_auth hello salt nonce inp sv =
    (case inp of
       Eof \<Rightarrow> Some (Closing, sv, [])
     | Line l \<Rightarrow> Some (CheckAuth hello salt nonce (fst (unmarshal_in l)), sv, [])
     | _ \<Rightarrow> None)"

definition on_check :: "kdf \<Rightarrow> inmsg \<Rightarrow> string \<Rightarrow> string \<Rightarrow> inmsg \<Rightarrow> input \<Rightarrow> server \<Rightarrow> outcome" where
  "on_check kdf hello salt nonce auth inp sv =
    (let want = deriveProof kdf (curPassword sv) salt nonce in
     if inp \<noteq> Tau then None
     else if m_T auth \<noteq> ''auth'' \<or> m_Proof auth \<noteq> want
     then Some (Closing, sv, [Checked (curPassword sv) salt nonce auth False, Sent (msg_error ''auth_failed'' ''wrong password'')])
     else Some (SendOk hello, sv, [Checked (curPassword sv) salt nonce auth True]))"

definition on_enroll :: "string \<Rightarrow> inmsg \<Rightarrow> input \<Rightarrow> server \<Rightarrow> outcome" where
  "on_enroll addr hello inp sv =
    (case inp of
       Clock now \<Rightarrow>
         (case sv_reg sv of
            None \<Rightarrow> Some (Serving None, sv, [])
          | Some r \<Rightarrow> (case Register now (m_Name hello) (ipOf addr) r of (r', cid, fs) \<Rightarrow>
              Some (Serving (Some cid), sv\<lparr>sv_reg := Some r'\<rparr>, Registered cid # map (\<lambda>_. Notified) fs)))
     | _ \<Rightarrow> None)"

definition on_line :: "uint64 option \<Rightarrow> input \<Rightarrow> server \<Rightarrow> outcome" where
  "on_line k inp sv =
    (case inp of
       Eof \<Rightarrow> Some (Leaving k, sv, [])
     | Line l \<Rightarrow>
         (case unmarshal_in l of (m, ok) \<Rightarrow>
          if \<not> ok then Some (Serving k, sv, [])
          else if m_T m = ''ping'' then Some (Serving k, sv, [Sent (msg_pong (m_Ts m))])
          else if m_T m = ''getscreen'' then Some (AskScreen k, sv, [])
          else if m_T m = ''bye'' then Some (Leaving k, sv, [])
          else Some (Injecting k (applyEvent m), sv, []))
     | _ \<Rightarrow> None)"

definition on_leave :: "uint64 option \<Rightarrow> server \<Rightarrow> outcome" where
  "on_leave k sv =
    (case (k, sv_reg sv) of
       (Some cid, Some r) \<Rightarrow> (case Deregister cid r of (r', fs) \<Rightarrow>
         Some (Closing, sv\<lparr>sv_reg := Some r'\<rparr>, Deregistered cid # map (\<lambda>_. Notified) fs))
     | _ \<Rightarrow> Some (Closing, sv, []))"

definition handle_step :: "kdf \<Rightarrow> string \<Rightarrow> pc \<Rightarrow> input \<Rightarrow> server \<Rightarrow> outcome" where
  "handle_step kdf ip p inp sv =
    (case p of
       WaitHello \<Rightarrow> on_hello inp sv
     | SendChallenge hello \<Rightarrow> on_challenge hello inp sv
     | WaitAuth hello salt nonce \<Rightarrow> on_auth hello salt nonce inp sv
     | CheckAuth hello salt nonce auth \<Rightarrow> on_check kdf hello salt nonce auth inp sv
     | SendOk hello \<Rightarrow> if inp = Tau then Some (Enroll hello, sv, [Sent (msg_auth_ok (curName sv))]) else None
     | Enroll hello \<Rightarrow> on_enroll ip hello inp sv
     | Serving k \<Rightarrow> on_line k inp sv
     | AskScreen k \<Rightarrow> (case inp of ScreenIs w h \<Rightarrow> Some (Serving k, sv, [Sent (msg_screen w h)]) | _ \<Rightarrow> None)
     | Injecting k cs \<Rightarrow>
         if inp \<noteq> Tau then None
         else (case cs of [] \<Rightarrow> Some (Serving k, sv, []) | c # cs' \<Rightarrow> Some (Injecting k cs', sv, [Injected c]))
     | Leaving k \<Rightarrow> if inp = Tau then on_leave k sv else None
     | Closing \<Rightarrow> if inp = Tau then Some (Closed, sv, []) else None
     | Closed \<Rightarrow> None)"

lemmas step_defs = handle_step_def on_hello_def on_challenge_def on_auth_def on_check_def on_enroll_def
  on_line_def on_leave_def

subsection \<open>All connections\<close>

record sys =
  sy_sv :: server
  sy_conns :: "nat \<Rightarrow> (pc \<times> string) option"
  sy_trace :: "(nat \<times> sv_event) list"

definition sys_init :: "string \<Rightarrow> string \<Rightarrow> unit option \<Rightarrow> sys" where
  "sys_init pw name cb =
     \<lparr>sy_sv = \<lparr>sv_password = pw, sv_name = name, sv_reg = Some (SetOnChange cb NewClientRegistry)\<rparr>,
      sy_conns = Map.empty, sy_trace = []\<rparr>"

inductive sys_step :: "kdf \<Rightarrow> sys \<Rightarrow> sys \<Rightarrow> bool" for kdf where
  accept: "sy_conns s i = None \<Longrightarrow> sys_step kdf s (s\<lparr>sy_conns := (sy_conns s)(i \<mapsto> (WaitHello, ip))\<rparr>)"
| run: "sy_conns s i = Some (p, ip) \<Longrightarrow> handle_step kdf ip p inp (sy_sv s) = Some (p', sv', evs) \<Longrightarrow>
    sys_step kdf s (s\<lparr>sy_sv := sv', sy_conns := (sy_conns s)(i \<mapsto> (p', ip)), sy_trace := sy_trace s @ map (Pair i) evs\<rparr>)"
| set_password: "sys_step kdf s (s\<lparr>sy_sv := SetPassword pw (sy_sv s)\<rparr>)"
| set_name: "sys_step kdf s (s\<lparr>sy_sv := SetName n (sy_sv s)\<rparr>)"

inductive_cases sys_stepE: "sys_step kdf s s'"

definition reachable :: "kdf \<Rightarrow> sys \<Rightarrow> bool" where
  "reachable kdf s \<longleftrightarrow> (\<exists>pw name cb. (sys_step kdf)\<^sup>*\<^sup>* (sys_init pw name cb) s)"

lemma reachable_invariant:
  assumes "reachable kdf s" and "\<And>pw name cb. P (sys_init pw name cb)" and "\<And>s s'. sys_step kdf s s' \<Longrightarrow> P s \<Longrightarrow> P s'"
  shows "P s"
proof -
  obtain pw name cb where "(sys_step kdf)\<^sup>*\<^sup>* (sys_init pw name cb) s" using assms(1) by (auto simp: reachable_def)
  then show ?thesis by (induction rule: rtranclp_induct) (auto intro: assms(2,3))
qed

subsection \<open>Authentication comes first\<close>

fun post_auth :: "pc \<Rightarrow> bool" where
  "post_auth (SendOk _) = True"
| "post_auth (Enroll _) = True"
| "post_auth (Serving _) = True"
| "post_auth (AskScreen _) = True"
| "post_auth (Injecting _ _) = True"
| "post_auth (Leaving _) = True"
| "post_auth _ = False"

fun accepts :: "sv_event \<Rightarrow> bool" where
  "accepts (Checked _ _ _ _ ok) = ok"
| "accepts _ = False"

text \<open>The effects only an authenticated client may have.\<close>

fun privileged :: "sv_event \<Rightarrow> bool" where
  "privileged (Injected _) = True"
| "privileged (Registered _) = True"
| "privileged (Deregistered _) = True"
| "privileged (Sent j) = (\<exists>n. j = msg_auth_ok n)"
| "privileged _ = False"

fun guarded :: "nat set \<Rightarrow> (nat \<times> sv_event) list \<Rightarrow> bool" where
  "guarded A [] = True"
| "guarded A ((i, e) # t) = ((privileged e \<longrightarrow> i \<in> A) \<and> guarded (if accepts e then insert i A else A) t)"

definition accepted :: "(nat \<times> sv_event) list \<Rightarrow> nat set" where
  "accepted t = {i. \<exists>e. (i, e) \<in> set t \<and> accepts e}"

lemma accepted_append [simp]: "accepted (s @ t) = accepted s \<union> accepted t"
  by (auto simp: accepted_def)

lemma accepted_Nil [simp]: "accepted [] = {}"
  by (simp add: accepted_def)

lemma accepted_Cons [simp]: "accepted ((i, e) # t) = (if accepts e then insert i (accepted t) else accepted t)"
  by (auto simp: accepted_def)

lemma guarded_append: "guarded A (s @ t) \<longleftrightarrow> guarded A s \<and> guarded (A \<union> accepted s) t"
  by (induction A s rule: guarded.induct) simp_all

lemma guarded_split:
  assumes "guarded {} (pre @ (i, e) # post)" and "privileged e"
  shows "i \<in> accepted pre"
  using assms by (simp add: guarded_append)

lemma guarded_one: "i \<in> A \<Longrightarrow> guarded A (map (Pair i) evs)"
  by (induction evs arbitrary: A) auto

lemma handle_step_unauth:
  assumes "handle_step kdf ip p inp sv = Some (p', sv', evs)" and "\<not> post_auth p"
  shows "guarded A (map (Pair i) evs) \<and> (post_auth p' \<longrightarrow> i \<in> accepted (map (Pair i) evs)) \<and> sv' = sv"
  using assms
  by (cases p; cases inp)
    (auto simp: step_defs Let_def accepted_def msg_error_def msg_challenge_def msg_auth_ok_def split: if_splits)

lemma handle_step_auth:
  assumes "handle_step kdf ip p inp sv = Some (p', sv', evs)" and "post_auth p'" and "\<not> post_auth p"
  shows "i \<in> accepted (map (Pair i) evs)"
  using handle_step_unauth [OF assms(1,3)] assms(2) by blast

definition auth_inv :: "sys \<Rightarrow> bool" where
  "auth_inv s \<longleftrightarrow> guarded {} (sy_trace s) \<and>
     (\<forall>i p ip. sy_conns s i = Some (p, ip) \<longrightarrow> post_auth p \<longrightarrow> i \<in> accepted (sy_trace s))"

lemma auth_inv_step: "sys_step kdf s s' \<Longrightarrow> auth_inv s \<Longrightarrow> auth_inv s'"
proof (induction rule: sys_step.induct)
  case (run s i p ip inp p' sv' evs)
  have "guarded (accepted (sy_trace s)) (map (Pair i) evs)"
  proof (cases "post_auth p")
    case True
    with run show ?thesis by (auto simp: auth_inv_def intro: guarded_one)
  next
    case False
    with handle_step_unauth [OF run(2)] show ?thesis by blast
  qed
  moreover have "i \<in> accepted (sy_trace s @ map (Pair i) evs)" if "post_auth p'"
    using run handle_step_auth [OF run(2) that] by (cases "post_auth p") (auto simp: auth_inv_def)
  ultimately show ?case using run by (auto simp: auth_inv_def guarded_append)
qed (auto simp: auth_inv_def)

lemma auth_inv_init: "auth_inv (sys_init pw name cb)"
  by (simp add: auth_inv_def sys_init_def)

lemma reachable_auth_inv: "reachable kdf s \<Longrightarrow> auth_inv s"
  by (rule reachable_invariant [where P = auth_inv]) (auto intro: auth_inv_init auth_inv_step)

end
