(* ===== verification/Sessions.thy ===== *)
theory Sessions
  imports Server Pipe
begin

text \<open>
  What the control server keeps over all its connections: the registry holds exactly the
  connections that are being served, an accepted proof answers the challenge that was sent
  on the same connection, and the whole \<open>handle\<close> is an execution of the step relation.
\<close>

subsection \<open>The registry\<close>

fun holds :: "pc \<Rightarrow> uint64 option" where
  "holds (Serving k) = k"
| "holds (AskScreen k) = k"
| "holds (Injecting k _) = k"
| "holds (Leaving k) = k"
| "holds _ = None"

fun is_reg :: "sv_event \<Rightarrow> bool" where
  "is_reg (Registered _) = True"
| "is_reg _ = False"

definition registrations :: "(nat \<times> sv_event) list \<Rightarrow> nat" where
  "registrations t = length (filter (\<lambda>e. is_reg (snd e)) t)"

lemma registrations_append: "registrations (s @ t) = registrations s + registrations t"
  by (simp add: registrations_def)

text \<open>A step registers, deregisters, or leaves the registry and the id it holds alone.\<close>

lemma handle_step_registry:
  assumes "handle_step kdf ip p inp sv = Some (p', sv', evs)" and "sv_reg sv = Some r"
  obtains
    (keep) "sv_reg sv' = Some r" "holds p' = holds p" "registrations (map (Pair i) evs) = 0"
  | (enter) now nm r' cid fs where "Register now nm (ipOf ip) r = (r', cid, fs)" "sv_reg sv' = Some r'"
      "holds p = None" "holds p' = Some cid" "registrations (map (Pair i) evs) = 1"
  | (leave) cid where "sv_reg sv' = Some (fst (Deregister cid r))" "holds p = Some cid" "holds p' = None"
      "registrations (map (Pair i) evs) = 0"
proof (cases p)
  case (Enroll hello)
  then obtain now where inp: "inp = Clock now"
    using assms(1) by (cases inp) (auto simp: handle_step_def on_enroll_def)
  obtain r' cid fs where R: "Register now (m_Name hello) (ipOf ip) r = (r', cid, fs)" by (metis prod_cases3)
  show ?thesis
    by (rule enter [OF R]) (use assms Enroll inp R in \<open>auto simp: handle_step_def on_enroll_def registrations_def\<close>)
next
  case (Leaving k)
  then have inp: "inp = Tau" using assms(1) by (auto simp: handle_step_def split: if_splits)
  show ?thesis
  proof (cases k)
    case None
    then show ?thesis
      by (intro keep) (use assms Leaving inp in \<open>auto simp: handle_step_def on_leave_def registrations_def\<close>)
  next
    case (Some cid)
    obtain r' fs where D: "Deregister cid r = (r', fs)" by fastforce
    show ?thesis
      by (rule leave [of cid])
        (use assms Leaving inp Some D in \<open>auto simp: handle_step_def on_leave_def registrations_def\<close>)
  qed
next
  case (Injecting k cs)
  then show ?thesis
    by (intro keep) (use assms in \<open>auto simp: handle_step_def registrations_def split: if_splits list.splits\<close>)
qed (use assms in \<open>intro keep; cases inp; auto simp: step_defs Let_def registrations_def split: if_splits prod.splits\<close>)+

text \<open>
  The accounting: the ids in the registry are the ids the connections hold, and no two
  connections hold the same one.
\<close>

definition holder :: "sys \<Rightarrow> nat \<rightharpoonup> uint64" where
  "holder s i = (case sy_conns s i of None \<Rightarrow> None | Some (p, _) \<Rightarrow> holds p)"

definition reg_acc :: "sys \<Rightarrow> bool" where
  "reg_acc s \<longleftrightarrow> (\<exists>r. sv_reg (sy_sv s) = Some r \<and> reg_inv r \<and> rg_nextID r = word_of_nat (registrations (sy_trace s)) \<and>
     dom (live_clients r) = ran (holder s) \<and> inj_on (holder s) (dom (holder s)))"

lemma ran_upd_fresh: "m i = None \<Longrightarrow> ran (m(i \<mapsto> k)) = insert k (ran m)"
  by (rule ran_map_upd)

lemma ran_drop: "inj_on m (dom m) \<Longrightarrow> m i = Some k \<Longrightarrow> ran (m(i := None)) = ran m - {k}"
  by (auto simp: ran_def inj_on_def dom_def) force

lemma inj_drop: "inj_on m (dom m) \<Longrightarrow> inj_on (m(i := None)) (dom (m(i := None)))"
  by (auto simp: inj_on_def)

lemma inj_enter: "inj_on m (dom m) \<Longrightarrow> k \<notin> ran m \<Longrightarrow> inj_on (m(i \<mapsto> k)) (dom (m(i \<mapsto> k)))"
  by (auto simp: inj_on_def ran_def)

lemma room_of_count:
  assumes "rg_nextID r = word_of_nat n" and "n + 1 < 2 ^ 64"
  shows "reg_room r"
proof -
  have "unat (word_of_nat (n + 1) :: uint64) = n + 1" using assms(2) by (simp only: unat_of_nat) simp
  then have "word_of_nat (n + 1) \<noteq> (0 :: uint64)" by (metis add_is_0 unat_0 zero_neq_one)
  then show ?thesis using assms(1) by (auto simp: reg_room_def)
qed

lemma Register_nextID: "Register now nm addr r = (r', k, fs) \<Longrightarrow> rg_nextID r' = rg_nextID r + 1"
  by (auto simp: Register_def Let_def)

lemma Deregister_nextID: "rg_nextID (fst (Deregister k r)) = rg_nextID r"
  by (simp add: Deregister_def Let_def)

lemma holder_run:
  "holder (s\<lparr>sy_sv := sv', sy_conns := (sy_conns s)(i \<mapsto> (p', ip)), sy_trace := t\<rparr>) = (holder s)(i := holds p')"
  by (auto simp: holder_def fun_eq_iff)

lemma reg_acc_step:
  assumes "sys_step kdf s s'" and "reg_acc s" and "registrations (sy_trace s') < 2 ^ 64"
  shows "reg_acc s'"
  using assms
proof (induction rule: sys_step.induct)
  case (accept s i ip)
  then have "holder (s\<lparr>sy_conns := (sy_conns s)(i \<mapsto> (WaitHello, ip))\<rparr>) = holder s"
    by (auto simp: holder_def fun_eq_iff)
  with accept show ?case by (simp add: reg_acc_def)
next
  case (run s i p ip inp p' sv' evs)
  from run.prems(1) obtain r where r: "sv_reg (sy_sv s) = Some r" "reg_inv r"
    "rg_nextID r = word_of_nat (registrations (sy_trace s))"
    "dom (live_clients r) = ran (holder s)" "inj_on (holder s) (dom (holder s))"
    by (auto simp: reg_acc_def)
  have hi: "holder s i = holds p" using run.hyps(1) by (simp add: holder_def)
  show ?case
  proof (rule handle_step_registry [OF run.hyps(2) r(1), of i])
    assume "sv_reg sv' = Some r" "holds p' = holds p" "registrations (map (Pair i) evs) = 0"
    moreover then have "(holder s)(i := holds p') = holder s" using hi by (simp add: fun_upd_idem)
    ultimately show ?thesis
      using r unfolding reg_acc_def holder_run by (simp add: registrations_append)
  next
    fix now nm r' cid fs
    assume R: "Register now nm (ipOf ip) r = (r', cid, fs)" and sv': "sv_reg sv' = Some r'"
      and h: "holds p = None" "holds p' = Some cid" and n: "registrations (map (Pair i) evs) = 1"
    have room: "reg_room r"
      by (rule room_of_count [OF r(3)]) (use run.prems(2) n in \<open>simp add: registrations_append\<close>)
    have fresh: "cid \<notin> ran (holder s)" using Register_fresh [OF r(2) room R] r(4) by (metis domIff)
    have "dom (live_clients r') = ran ((holder s)(i \<mapsto> cid))"
      using live_Register [OF R] r(4) ran_upd_fresh [of "holder s" i cid] hi h by simp
    moreover have "inj_on ((holder s)(i \<mapsto> cid)) (dom ((holder s)(i \<mapsto> cid)))"
      by (rule inj_enter [OF r(5) fresh])
    moreover have "rg_nextID r' = word_of_nat (registrations (sy_trace s @ map (Pair i) evs))"
      using Register_nextID [OF R] r(3) n by (simp add: registrations_append)
    ultimately show ?thesis
      using reg_inv_Register [OF r(2) room R] sv' unfolding reg_acc_def holder_run h by simp
  next
    fix cid
    assume sv': "sv_reg sv' = Some (fst (Deregister cid r))" and h: "holds p = Some cid" "holds p' = None"
      and n: "registrations (map (Pair i) evs) = 0"
    show ?thesis
      using r sv' hi h n ran_drop [OF r(5), of i cid] inj_drop [OF r(5), of i] reg_inv_Deregister [OF r(2), of cid]
      unfolding reg_acc_def holder_run h
      by (simp add: live_Deregister Deregister_nextID registrations_append)
  qed
qed (simp_all add: reg_acc_def holder_def [abs_def] SetPassword_def SetName_def)

lemma reg_acc_init: "reg_acc (sys_init pw name cb)"
  by (simp add: reg_acc_def sys_init_def holder_def [abs_def] registrations_def SetOnChange_def NewClientRegistry_def
      reg_inv_def live_clients_def [abs_def])

lemma sys_step_registrations: "sys_step kdf s s' \<Longrightarrow> registrations (sy_trace s) \<le> registrations (sy_trace s')"
  by (induction rule: sys_step.induct) (simp_all add: registrations_append)

lemma reachable_reg_acc:
  assumes "reachable kdf s" and "registrations (sy_trace s) < 2 ^ 64"
  shows "reg_acc s"
proof -
  have "registrations (sy_trace s) < 2 ^ 64 \<longrightarrow> reg_acc s"
    by (rule reachable_invariant [OF assms(1), where P = "\<lambda>s. registrations (sy_trace s) < 2 ^ 64 \<longrightarrow> reg_acc s"])
      (auto intro: reg_acc_init reg_acc_step dest: sys_step_registrations)
  with assms(2) show ?thesis by simp
qed

subsection \<open>Proofs answer challenges\<close>

fun pending :: "pc \<Rightarrow> (string \<times> string) option" where
  "pending (WaitAuth _ salt nonce) = Some (salt, nonce)"
| "pending (CheckAuth _ salt nonce _) = Some (salt, nonce)"
| "pending _ = None"

definition answers :: "kdf \<Rightarrow> (nat \<times> sv_event) list \<Rightarrow> bool" where
  "answers kdf t \<longleftrightarrow> (\<forall>i pw salt nonce auth. (i, Checked pw salt nonce auth True) \<in> set t \<longrightarrow>
     (i, Sent (msg_challenge salt nonce)) \<in> set t \<and> m_T auth = ''auth'' \<and> m_Proof auth = deriveProof kdf pw salt nonce)"

definition challenge_inv :: "kdf \<Rightarrow> sys \<Rightarrow> bool" where
  "challenge_inv kdf s \<longleftrightarrow> answers kdf (sy_trace s) \<and>
     (\<forall>i p ip salt nonce. sy_conns s i = Some (p, ip) \<longrightarrow> pending p = Some (salt, nonce) \<longrightarrow>
        (i, Sent (msg_challenge salt nonce)) \<in> set (sy_trace s))"

lemma handle_step_challenge:
  assumes "handle_step kdf ip p inp sv = Some (p', sv', evs)"
  shows "Checked pw salt nonce auth True \<in> set evs \<Longrightarrow>
      pending p = Some (salt, nonce) \<and> m_T auth = ''auth'' \<and> m_Proof auth = deriveProof kdf pw salt nonce"
    and "pending p' = Some (salt, nonce) \<Longrightarrow> pending p = Some (salt, nonce) \<or> Sent (msg_challenge salt nonce) \<in> set evs"
  using assms
  by (cases p; cases inp; auto simp: step_defs Let_def split: if_splits option.splits prod.splits list.splits)+

lemma challenge_inv_step: "sys_step kdf s s' \<Longrightarrow> challenge_inv kdf s \<Longrightarrow> challenge_inv kdf s'"
proof (induction rule: sys_step.induct)
  case (run s i p ip inp p' sv' evs)
  note H = handle_step_challenge [OF run.hyps(2)]
  have "answers kdf (sy_trace s @ map (Pair i) evs)"
    using run.prems run.hyps(1) H(1) by (fastforce simp: challenge_inv_def answers_def)
  moreover have "(i, Sent (msg_challenge salt nonce)) \<in> set (sy_trace s @ map (Pair i) evs)"
    if "pending p' = Some (salt, nonce)" for salt nonce
    using run.prems run.hyps(1) H(2) [OF that] by (auto simp: challenge_inv_def)
  ultimately show ?case using run.prems by (auto simp: challenge_inv_def)
qed (auto simp: challenge_inv_def)

lemma challenge_inv_init: "challenge_inv kdf (sys_init pw name cb)"
  by (simp add: challenge_inv_def answers_def sys_init_def)

lemma reachable_challenge_inv: "reachable kdf s \<Longrightarrow> challenge_inv kdf s"
  by (rule reachable_invariant [where P = "challenge_inv kdf"]) (auto intro: challenge_inv_step challenge_inv_init)

subsection \<open>Hot swaps\<close>

text \<open>Only the check of a proof looks at the password, only \<open>auth_ok\<close> at the name.\<close>

lemma handle_step_swap:
  assumes "pending p = None"
  shows "handle_step kdf ip p inp (SetPassword pw sv) =
     map_option (\<lambda>(p', sv', evs). (p', SetPassword pw sv', evs)) (handle_step kdf ip p inp sv)"
  using assms
  by (cases p; cases inp)
    (auto simp: step_defs Let_def SetPassword_def split: option.splits prod.splits list.splits)

subsection \<open>One connection from end to end\<close>

text \<open>
  \<open>handle\<close> written out as the Go function is, for one client alone: the bytes it sends, the
  salt, nonce, time and screen size the outside provides.
\<close>

definition screen_reply :: "goint \<times> goint \<Rightarrow> sv_event list" where
  "screen_reply scr = [Sent (msg_screen (fst scr) (snd scr))]"

fun serve_lines :: "goint \<times> goint \<Rightarrow> string list \<Rightarrow> sv_event list" where
  "serve_lines scr [] = []"
| "serve_lines scr (l # ls) =
    (case unmarshal_in l of (m, ok) \<Rightarrow>
     if \<not> ok then serve_lines scr ls
     else if m_T m = ''ping'' then Sent (msg_pong (m_Ts m)) # serve_lines scr ls
     else if m_T m = ''getscreen'' then screen_reply scr @ serve_lines scr ls
     else if m_T m = ''bye'' then []
     else map Injected (applyEvent m) @ serve_lines scr ls)"

definition enroll :: "string \<Rightarrow> string \<Rightarrow> int \<Rightarrow> server \<Rightarrow> server \<times> uint64 option \<times> sv_event list" where
  "enroll addr name now sv =
    (case sv_reg sv of
       None \<Rightarrow> (sv, None, [])
     | Some r \<Rightarrow> (case Register now name (ipOf addr) r of (r', cid, fs) \<Rightarrow>
         (sv\<lparr>sv_reg := Some r'\<rparr>, Some cid, Registered cid # map (\<lambda>_. Notified) fs)))"

definition withdraw :: "uint64 option \<Rightarrow> server \<Rightarrow> server \<times> sv_event list" where
  "withdraw k sv =
    (case (k, sv_reg sv) of
       (Some cid, Some r) \<Rightarrow> (case Deregister cid r of (r', fs) \<Rightarrow>
         (sv\<lparr>sv_reg := Some r'\<rparr>, Deregistered cid # map (\<lambda>_. Notified) fs))
     | _ \<Rightarrow> (sv, []))"

definition handle :: "kdf \<Rightarrow> string \<Rightarrow> string \<Rightarrow> string \<Rightarrow> int \<Rightarrow> goint \<times> goint \<Rightarrow> string \<Rightarrow> server \<Rightarrow> server \<times> sv_event list" where
  "handle kdf addr salt nonce now scr input sv =
    (case scan_lines input of
       [] \<Rightarrow> (sv, [])
     | h # ls \<Rightarrow>
         let hello = fst (unmarshal_in h) in
         if m_T hello \<noteq> ''hello'' then (sv, [Sent (msg_error ''bad_hello'' ''expected hello'')])
         else (case ls of
             [] \<Rightarrow> (sv, [Sent (msg_challenge salt nonce)])
           | a # ls' \<Rightarrow>
               let auth = fst (unmarshal_in a); pw = curPassword sv; want = deriveProof kdf pw salt nonce in
               if m_T auth \<noteq> ''auth'' \<or> m_Proof auth \<noteq> want
               then (sv, [Sent (msg_challenge salt nonce), Checked pw salt nonce auth False,
                          Sent (msg_error ''auth_failed'' ''wrong password'')])
               else (case enroll addr (m_Name hello) now sv of (sv1, k, evs1) \<Rightarrow>
                     case withdraw k sv1 of (sv2, evs3) \<Rightarrow>
                      (sv2, [Sent (msg_challenge salt nonce), Checked pw salt nonce auth True, Sent (msg_auth_ok (curName sv))]
                            @ evs1 @ serve_lines scr ls' @ evs3))))"

text \<open>A run of the goroutine: the answers it got and the effects it had.\<close>

inductive conn_run :: "kdf \<Rightarrow> string \<Rightarrow> pc \<Rightarrow> server \<Rightarrow> input list \<Rightarrow> sv_event list \<Rightarrow> pc \<Rightarrow> server \<Rightarrow> bool" for kdf addr where
  stop: "conn_run kdf addr p sv [] [] p sv"
| step: "handle_step kdf addr p inp sv = Some (p1, sv1, e1) \<Longrightarrow> conn_run kdf addr p1 sv1 inps es p' sv' \<Longrightarrow>
    conn_run kdf addr p sv (inp # inps) (e1 @ es) p' sv'"

fun input_lines :: "input list \<Rightarrow> string list" where
  "input_lines (Line l # is) = l # input_lines is"
| "input_lines (_ # is) = input_lines is"
| "input_lines [] = []"

lemma conn_run_step0:
  "handle_step kdf addr p inp sv = Some (p1, sv1, []) \<Longrightarrow> conn_run kdf addr p1 sv1 inps es p' sv' \<Longrightarrow>
    conn_run kdf addr p sv (inp # inps) es p' sv'"
  using conn_run.step by fastforce

lemma conn_run_append:
  "conn_run kdf addr p sv is1 es1 q sv1 \<Longrightarrow> conn_run kdf addr q sv1 is2 es2 p' sv' \<Longrightarrow>
    conn_run kdf addr p sv (is1 @ is2) (es1 @ es2) p' sv'"
  by (induction rule: conn_run.induct) (auto intro: conn_run.step)

lemma input_lines_append [simp]: "input_lines (xs @ ys) = input_lines xs @ input_lines ys"
  by (induction xs rule: input_lines.induct) auto

lemma run_injecting:
  "\<exists>is. conn_run kdf addr (Injecting k cs) sv is (map Injected cs) (Serving k) sv \<and> input_lines is = []"
proof (induction cs)
  case Nil
  have "conn_run kdf addr (Injecting k []) sv [Tau] [] (Serving k) sv"
    by (rule conn_run_step0 [OF _ stop]) (simp add: handle_step_def)
  then show ?case by (intro exI [of _ "[Tau]"]) simp
next
  case (Cons c cs)
  then obtain is' where I: "conn_run kdf addr (Injecting k cs) sv is' (map Injected cs) (Serving k) sv" "input_lines is' = []"
    by blast
  have "conn_run kdf addr (Injecting k (c # cs)) sv (Tau # is') ([Injected c] @ map Injected cs) (Serving k) sv"
    by (rule conn_run.step [OF _ I(1)]) (simp add: handle_step_def)
  with I(2) show ?case by (intro exI [of _ "Tau # is'"]) simp
qed

lemma run_serving:
  "\<exists>is rest. conn_run kdf addr (Serving k) sv is (serve_lines scr ls) (Leaving k) sv \<and> ls = input_lines is @ rest"
proof (induction ls)
  case Nil
  have "conn_run kdf addr (Serving k) sv [Eof] [] (Leaving k) sv"
    by (rule conn_run_step0 [OF _ stop]) (simp add: handle_step_def on_line_def)
  then show ?case by (intro exI [of _ "[Eof]"]) simp
next
  case (Cons l ls)
  then obtain is' rest where I: "conn_run kdf addr (Serving k) sv is' (serve_lines scr ls) (Leaving k) sv"
    "ls = input_lines is' @ rest" by blast
  obtain m ok where u: "unmarshal_in l = (m, ok)" by fastforce
  note D = handle_step_def on_line_def u
  consider "\<not> ok" | "ok" "m_T m = ''ping''" | "ok" "m_T m = ''getscreen''" | "ok" "m_T m = ''bye''"
    | "ok" "m_T m \<noteq> ''ping''" "m_T m \<noteq> ''getscreen''" "m_T m \<noteq> ''bye''" by blast
  then show ?case
  proof cases
    case 1
    have "conn_run kdf addr (Serving k) sv (Line l # is') (serve_lines scr ls) (Leaving k) sv"
      by (rule conn_run_step0 [OF _ I(1)]) (use 1 in \<open>simp add: D\<close>)
    then show ?thesis using I(2) 1 u by (intro exI [of _ "Line l # is'"]) simp
  next
    case 2
    have "conn_run kdf addr (Serving k) sv (Line l # is') ([Sent (msg_pong (m_Ts m))] @ serve_lines scr ls) (Leaving k) sv"
      by (rule conn_run.step [OF _ I(1)]) (use 2 in \<open>simp add: D\<close>)
    then show ?thesis using I(2) 2 u by (intro exI [of _ "Line l # is'"]) simp
  next
    case 3
    have "conn_run kdf addr (AskScreen k) sv (ScreenIs (fst scr) (snd scr) # is') (screen_reply scr @ serve_lines scr ls) (Leaving k) sv"
      by (rule conn_run.step [OF _ I(1)]) (simp add: handle_step_def screen_reply_def)
    then have "conn_run kdf addr (Serving k) sv (Line l # ScreenIs (fst scr) (snd scr) # is') (screen_reply scr @ serve_lines scr ls) (Leaving k) sv"
      by (rule conn_run_step0 [rotated]) (use 3 in \<open>simp add: D\<close>)
    then show ?thesis using I(2) 3 u by (intro exI [of _ "Line l # ScreenIs (fst scr) (snd scr) # is'"]) simp
  next
    case 4
    have "conn_run kdf addr (Serving k) sv [Line l] [] (Leaving k) sv"
      by (rule conn_run_step0 [OF _ stop]) (use 4 in \<open>simp add: D\<close>)
    then show ?thesis using 4 u by (intro exI [of _ "[Line l]"]) simp
  next
    case 5
    obtain js where J: "conn_run kdf addr (Injecting k (applyEvent m)) sv js (map Injected (applyEvent m)) (Serving k) sv"
      "input_lines js = []" using run_injecting by blast
    have "conn_run kdf addr (Serving k) sv (Line l # js @ is') (map Injected (applyEvent m) @ serve_lines scr ls) (Leaving k) sv"
      by (rule conn_run_step0 [OF _ conn_run_append [OF J(1) I(1)]]) (use 5 in \<open>simp add: D\<close>)
    then show ?thesis using I(2) J(2) 5 u by (intro exI [of _ "Line l # js @ is'"]) simp
  qed
qed

lemma run_leaving:
  assumes "withdraw k sv = (sv', evs)"
  shows "conn_run kdf addr (Leaving k) sv [Tau, Tau] (evs @ []) Closed sv'"
proof -
  have "handle_step kdf addr (Leaving k) Tau sv = Some (Closing, sv', evs)"
    using assms by (auto simp: handle_step_def on_leave_def withdraw_def split: option.splits prod.splits)
  then show ?thesis
    by (rule conn_run.step) (rule conn_run_step0 [OF _ stop], simp add: handle_step_def)
qed

lemma run_closing: "conn_run kdf addr Closing sv [Tau] [] Closed sv"
  by (rule conn_run_step0 [OF _ stop]) (simp add: handle_step_def)

text \<open>From the accepted proof on.\<close>

lemma run_accepted:
  assumes "enroll addr (m_Name hello) now sv = (sv1, k, evs1)" and "withdraw k sv1 = (sv2, evs3)"
  shows "\<exists>is rest. conn_run kdf addr (SendOk hello) sv is
            (Sent (msg_auth_ok (sv_name sv)) # evs1 @ serve_lines scr ls @ evs3) Closed sv2 \<and> ls = input_lines is @ rest"
proof -
  obtain js rest where J: "conn_run kdf addr (Serving k) sv1 js (serve_lines scr ls) (Leaving k) sv1" "ls = input_lines js @ rest"
    using run_serving by blast
  have "handle_step kdf addr (Enroll hello) (Clock now) sv = Some (Serving k, sv1, evs1)"
    using assms(1) by (auto simp: handle_step_def on_enroll_def enroll_def split: option.splits prod.splits)
  from conn_run.step [OF this conn_run_append [OF J(1) run_leaving [OF assms(2)]]]
  have "conn_run kdf addr (Enroll hello) sv (Clock now # js @ [Tau, Tau]) (evs1 @ serve_lines scr ls @ evs3) Closed sv2"
    by simp
  then have "conn_run kdf addr (SendOk hello) sv (Tau # Clock now # js @ [Tau, Tau])
      ([Sent (msg_auth_ok (sv_name sv))] @ (evs1 @ serve_lines scr ls @ evs3)) Closed sv2"
    by (rule conn_run.step [rotated]) (simp add: handle_step_def)
  with J(2) show ?thesis by (intro exI [of _ "Tau # Clock now # js @ [Tau, Tau]"]) simp
qed

text \<open>The whole function is a run of the goroutine's steps that ends with the socket closed.\<close>

lemma handle_is_run:
  assumes "length salt = 16" and "length nonce = 16" and "handle kdf addr salt nonce now scr input sv = (sv', evs)"
  shows "\<exists>is rest. conn_run kdf addr WaitHello sv is evs Closed sv' \<and> scan_lines input = input_lines is @ rest"
proof (cases "scan_lines input")
  case Nil
  have "conn_run kdf addr WaitHello sv (Eof # [Tau]) [] Closed sv"
    by (rule conn_run_step0 [OF _ run_closing]) (simp add: handle_step_def on_hello_def)
  with Nil assms(3) show ?thesis by (intro exI [of _ "Eof # [Tau]"]) (simp add: handle_def)
next
  case (Cons h ls)
  define hello where "hello = fst (unmarshal_in h)"
  note H = Cons hello_def [symmetric]
  show ?thesis
  proof (cases "m_T hello = ''hello''")
    case False
    have "conn_run kdf addr WaitHello sv (Line h # [Tau]) ([Sent (msg_error ''bad_hello'' ''expected hello'')] @ []) Closed sv"
      by (rule conn_run.step [OF _ run_closing]) (use False in \<open>simp add: handle_step_def on_hello_def H Let_def\<close>)
    with False assms(3) H show ?thesis by (intro exI [of _ "Line h # [Tau]"]) (simp add: handle_def Let_def)
  next
    case True
    have greet: "conn_run kdf addr WaitHello sv (Line h # Rand salt nonce # is) (Sent (msg_challenge salt nonce) # es) p' s'"
      if "conn_run kdf addr (WaitAuth hello salt nonce) sv is es p' s'" for "is" es p' s'
    proof -
      have "conn_run kdf addr (SendChallenge hello) sv (Rand salt nonce # is) ([Sent (msg_challenge salt nonce)] @ es) p' s'"
        by (rule conn_run.step [OF _ that]) (simp add: handle_step_def on_challenge_def assms(1,2))
      then have "conn_run kdf addr WaitHello sv (Line h # Rand salt nonce # is) ([Sent (msg_challenge salt nonce)] @ es) p' s'"
        by (rule conn_run_step0 [rotated]) (use True in \<open>simp add: handle_step_def on_hello_def H Let_def\<close>)
      then show ?thesis by simp
    qed
    show ?thesis
    proof (cases ls)
      case Nil
      have "conn_run kdf addr (WaitAuth hello salt nonce) sv (Eof # [Tau]) [] Closed sv"
        by (rule conn_run_step0 [OF _ run_closing]) (simp add: handle_step_def on_auth_def)
      from greet [OF this] Nil True assms(3) H show ?thesis
        by (intro exI [of _ "Line h # Rand salt nonce # Eof # [Tau]"]) (simp add: handle_def Let_def)
    next
      case (Cons a ls')
      define auth where "auth = fst (unmarshal_in a)"
      define pw where "pw = sv_password sv"
      have check: "conn_run kdf addr WaitHello sv (Line h # Rand salt nonce # Line a # Tau # is)
            (Sent (msg_challenge salt nonce) # e1 @ es) p' s'"
        if c: "on_check kdf hello salt nonce auth Tau sv = Some (p1, sv, e1)" and r: "conn_run kdf addr p1 sv is es p' s'"
        for p1 "is" e1 es p' s'
      proof -
        have "conn_run kdf addr (CheckAuth hello salt nonce auth) sv (Tau # is) (e1 @ es) p' s'"
          by (rule conn_run.step [OF _ r]) (simp add: handle_step_def c)
        then have "conn_run kdf addr (WaitAuth hello salt nonce) sv (Line a # Tau # is) (e1 @ es) p' s'"
          by (rule conn_run_step0 [rotated]) (simp add: handle_step_def on_auth_def auth_def)
        then show ?thesis by (rule greet)
      qed
      show ?thesis
      proof (cases "m_T auth = ''auth'' \<and> m_Proof auth = deriveProof kdf pw salt nonce")
        case False
        then have "on_check kdf hello salt nonce auth Tau sv = Some (Closing, sv,
            [Checked pw salt nonce auth False, Sent (msg_error ''auth_failed'' ''wrong password'')])"
          by (auto simp: on_check_def pw_def Let_def)
        from check [OF this run_closing] False assms(3) H Cons True show ?thesis
          by (intro exI [of _ "Line h # Rand salt nonce # Line a # Tau # [Tau]"])
            (auto simp: handle_def Let_def auth_def [symmetric] pw_def [symmetric])
      next
        case ok: True
        then have c: "on_check kdf hello salt nonce auth Tau sv = Some (SendOk hello, sv, [Checked pw salt nonce auth True])"
          by (simp add: on_check_def pw_def Let_def)
        obtain sv1 k evs1 where E: "enroll addr (m_Name hello) now sv = (sv1, k, evs1)" by (metis prod_cases3)
        obtain sv2 evs3 where W: "withdraw k sv1 = (sv2, evs3)" by fastforce
        obtain js rest where J: "conn_run kdf addr (SendOk hello) sv js
            (Sent (msg_auth_ok (sv_name sv)) # evs1 @ serve_lines scr ls' @ evs3) Closed sv2" "ls' = input_lines js @ rest"
          using run_accepted [OF E W] by blast
        from check [OF c J(1)] J(2) ok assms(3) H Cons True E W show ?thesis
          by (intro exI [of _ "Line h # Rand salt nonce # Line a # Tau # js"])
            (auto simp: handle_def Let_def auth_def [symmetric] pw_def [symmetric])
      qed
    qed
  qed
qed

text \<open>And a run of the goroutine is a run of the system that moves no other connection.\<close>

lemma conn_run_sys:
  assumes "conn_run kdf addr p sv is evs p' sv'" and "sy_conns s i = Some (p, addr)" and "sy_sv s = sv"
  shows "(sys_step kdf)\<^sup>*\<^sup>* s (s\<lparr>sy_sv := sv', sy_conns := (sy_conns s)(i \<mapsto> (p', addr)), sy_trace := sy_trace s @ map (Pair i) evs\<rparr>)"
  using assms
proof (induction arbitrary: s rule: conn_run.induct)
  case (stop p sv)
  then have "s\<lparr>sy_sv := sv, sy_conns := (sy_conns s)(i \<mapsto> (p, addr)), sy_trace := sy_trace s @ map (Pair i) []\<rparr> = s"
    by (simp add: fun_upd_idem)
  then show ?case by (simp only: rtranclp.rtrancl_refl)
next
  case (step p inp sv p1 sv1 e1 inps es p' sv')
  let ?s1 = "s\<lparr>sy_sv := sv1, sy_conns := (sy_conns s)(i \<mapsto> (p1, addr)), sy_trace := sy_trace s @ map (Pair i) e1\<rparr>"
  have "sys_step kdf s ?s1" using step.prems step.hyps(1) by (intro sys_step.run) simp_all
  moreover have "(sys_step kdf)\<^sup>*\<^sup>* ?s1 (?s1\<lparr>sy_sv := sv', sy_conns := (sy_conns ?s1)(i \<mapsto> (p', addr)),
      sy_trace := sy_trace ?s1 @ map (Pair i) es\<rparr>)"
    by (rule step.IH) simp_all
  ultimately have "(sys_step kdf)\<^sup>*\<^sup>* s (?s1\<lparr>sy_sv := sv', sy_conns := (sy_conns ?s1)(i \<mapsto> (p', addr)),
      sy_trace := sy_trace ?s1 @ map (Pair i) es\<rparr>)"
    by (rule converse_rtranclp_into_rtranclp)
  moreover have "?s1\<lparr>sy_sv := sv', sy_conns := (sy_conns ?s1)(i \<mapsto> (p', addr)), sy_trace := sy_trace ?s1 @ map (Pair i) es\<rparr> =
      s\<lparr>sy_sv := sv', sy_conns := (sy_conns s)(i \<mapsto> (p', addr)), sy_trace := sy_trace s @ map (Pair i) (e1 @ es)\<rparr>"
    by simp
  ultimately show ?case by (simp only:)
qed

subsection \<open>An honest client\<close>

definition respond :: "goint \<times> goint \<Rightarrow> inmsg \<Rightarrow> sv_event list" where
  "respond scr m =
    (if m_T m = ''ping'' then [Sent (msg_pong (m_Ts m))]
     else if m_T m = ''getscreen'' then screen_reply scr
     else map Injected (map norm_call (applyEvent m)))"

definition frame_bytes :: "inmsg list \<Rightarrow> string" where
  "frame_bytes ms = concat (map (\<lambda>m. encode (marshal_in m)) ms)"

lemma scan_frames:
  "(\<And>m. m \<in> set ms \<Longrightarrow> in_short m) \<Longrightarrow> scan_lines (frame_bytes ms) = map in_line ms"
proof (induction ms)
  case (Cons m ms)
  have "scan_lines (in_line m @ newline # frame_bytes ms) = drop_cr (in_line m) # scan_lines (frame_bytes ms)"
    using scan_lines_line [OF in_line_no_newline] Cons.prems by (simp add: in_short_def)
  then show ?case using Cons by (simp add: frame_bytes_def encode_in_line in_line_no_cr)
qed (simp add: frame_bytes_def)

lemma ctl_type_iff:
  "m_T (norm_in m) = ''ping'' \<longleftrightarrow> m_T m = ''ping''" "m_T (norm_in m) = ''getscreen'' \<longleftrightarrow> m_T m = ''getscreen''"
  "m_T (norm_in m) = ''bye'' \<longleftrightarrow> m_T m = ''bye''" "m_T (norm_in m) = ''hello'' \<longleftrightarrow> m_T m = ''hello''"
  "m_T (norm_in m) = ''auth'' \<longleftrightarrow> m_T m = ''auth''"
  by (simp add: norm_in_def, rule to_valid_literal_iff, force)+

lemma serve_frames:
  "(\<And>m. m \<in> set ms \<Longrightarrow> m_T m \<noteq> ''bye'') \<Longrightarrow> serve_lines scr (map in_line ms) = concat (map (respond scr) ms)"
proof (induction ms)
  case (Cons m ms)
  have "m_Ts (norm_in m) = m_Ts m" by (simp add: norm_in_def)
  then show ?case
    using Cons by (simp add: unmarshal_in_line ctl_type_iff respond_def applyEvent_norm)
qed simp

lemma norm_proof: "m_Proof (norm_in m) = deriveProof kdf pw salt nonce \<longleftrightarrow> m_Proof m = deriveProof kdf pw salt nonce"
proof -
  have "to_valid (m_Proof m) = deriveProof kdf pw salt nonce \<longleftrightarrow> m_Proof m = deriveProof kdf pw salt nonce"
    by (rule to_valid_literal_iff) (auto simp: deriveProof_def Let_def dest: base64_ascii)
  then show ?thesis by (simp add: norm_in_def)
qed

lemma handle_honest:
  assumes short: "\<And>m. m \<in> set (hello # auth # ms) \<Longrightarrow> in_short m"
    and types: "m_T hello = ''hello''" "m_T auth = ''auth''" "\<And>m. m \<in> set ms \<Longrightarrow> m_T m \<noteq> ''bye''"
    and pf: "m_Proof auth = deriveProof kdf (sv_password sv) salt nonce"
    and ends: "enroll addr (to_valid (m_Name hello)) now sv = (sv1, k, evs1)" "withdraw k sv1 = (sv2, evs3)"
  shows "handle kdf addr salt nonce now scr (frame_bytes (hello # auth # ms)) sv =
    (sv2, [Sent (msg_challenge salt nonce), Checked (sv_password sv) salt nonce (norm_in auth) True,
           Sent (msg_auth_ok (sv_name sv))] @ evs1 @ concat (map (respond scr) ms) @ evs3)"
proof -
  have "m_Name (norm_in hello) = to_valid (m_Name hello)" by (simp add: norm_in_def)
  moreover have "scan_lines (frame_bytes (hello # auth # ms)) = map in_line (hello # auth # ms)"
    by (rule scan_frames) (rule short)
  moreover have "serve_lines scr (map in_line ms) = concat (map (respond scr) ms)"
    by (rule serve_frames) (rule types(3))
  ultimately show ?thesis
    using types(1,2) pf ends
    by (simp add: handle_def unmarshal_in_line Let_def ctl_type_iff norm_proof)
qed

lemma handle_reject:
  assumes "in_short hello" "in_short auth" "m_T hello = ''hello''"
    and "m_T auth \<noteq> ''auth'' \<or> m_Proof auth \<noteq> deriveProof kdf (sv_password sv) salt nonce"
    and "\<And>m. m \<in> set ms \<Longrightarrow> in_short m"
  shows "handle kdf addr salt nonce now scr (frame_bytes (hello # auth # ms)) sv =
    (sv, [Sent (msg_challenge salt nonce), Checked (sv_password sv) salt nonce (norm_in auth) False,
          Sent (msg_error ''auth_failed'' ''wrong password'')])"
proof -
  have "scan_lines (frame_bytes (hello # auth # ms)) = map in_line (hello # auth # ms)"
    by (rule scan_frames) (use assms in auto)
  then show ?thesis
    using assms by (simp add: handle_def unmarshal_in_line Let_def ctl_type_iff norm_proof)
qed

text \<open>What one client does alone is reachable from a fresh server.\<close>

lemma handle_reachable:
  assumes "length salt = 16" and "length nonce = 16"
    and "handle kdf addr salt nonce now scr input (sy_sv (sys_init pw name cb)) = (sv', evs)"
  shows "reachable kdf \<lparr>sy_sv = sv', sy_conns = [i \<mapsto> (Closed, addr)], sy_trace = map (Pair i) evs\<rparr>"
proof -
  let ?s0 = "sys_init pw name cb"
  let ?s1 = "?s0\<lparr>sy_conns := (sy_conns ?s0)(i \<mapsto> (WaitHello, addr))\<rparr>"
  obtain "is" where "conn_run kdf addr WaitHello (sy_sv ?s0) is evs Closed sv'"
    using handle_is_run [OF assms] by blast
  then have "(sys_step kdf)\<^sup>*\<^sup>* ?s1
      (?s1\<lparr>sy_sv := sv', sy_conns := (sy_conns ?s1)(i \<mapsto> (Closed, addr)), sy_trace := sy_trace ?s1 @ map (Pair i) evs\<rparr>)"
    by (rule conn_run_sys) simp_all
  moreover have "sys_step kdf ?s0 ?s1" by (rule sys_step.accept) (simp add: sys_init_def)
  moreover have "?s1\<lparr>sy_sv := sv', sy_conns := (sy_conns ?s1)(i \<mapsto> (Closed, addr)), sy_trace := sy_trace ?s1 @ map (Pair i) evs\<rparr>
      = \<lparr>sy_sv = sv', sy_conns = [i \<mapsto> (Closed, addr)], sy_trace = map (Pair i) evs\<rparr>"
    by (simp add: sys_init_def)
  ultimately show ?thesis unfolding reachable_def by (metis converse_rtranclp_into_rtranclp)
qed

end
