(* ===== verification/Args.thy ===== *)
theory Args
  imports Prelude
begin

text \<open>
  The command lines the program builds for its own children and the way they are read back:
  \<open>elevatedArgLine\<close> (ui_service_windows.go), \<open>autostartCmd\<close> (autostart_windows.go) and the line
  \<open>spawnAgentOnDesktop\<close> passes to CreateProcessAsUser (spawn_windows.go).  Quoting is Go's
  \<open>syscall.EscapeArg\<close>; reading is the splitting Go's runtime does of a Windows command line to
  fill \<open>os.Args\<close>.  Both are written out here as the Go library has them.
\<close>

abbreviation space :: char where "space \<equiv> CHR 0x20"
abbreviation tab :: char where "tab \<equiv> CHR 0x09"

definition blank :: "char \<Rightarrow> bool" where
  "blank c \<longleftrightarrow> c = space \<or> c = tab"

lemma blank_simps [simp]: "blank space" "blank tab" "\<not> blank dquote" "\<not> blank backslash"
  by (simp_all add: blank_def)

subsection \<open>Quoting\<close>

text \<open>
  The loop of \<open>appendEscapeArg\<close>: \<open>n\<close> counts the backslashes just copied.  Before a quote, and at
  the end of a quoted argument, they are doubled.
\<close>

fun escape_loop :: "bool \<Rightarrow> nat \<Rightarrow> string \<Rightarrow> string" where
  "escape_loop hasSpace n [] = (if hasSpace then replicate n backslash @ [dquote] else [])"
| "escape_loop hasSpace n (c # s) =
    (if c = backslash then c # escape_loop hasSpace (Suc n) s
     else if c = dquote then replicate n backslash @ [backslash, c] @ escape_loop hasSpace 0 s
     else c # escape_loop hasSpace 0 s)"

definition EscapeArg :: "string \<Rightarrow> string" where
  "EscapeArg s =
    (if s = [] then [dquote, dquote]
     else let needsBackslash = (dquote \<in> set s \<or> backslash \<in> set s); hasSpace = list_ex blank s in
       if \<not> needsBackslash \<and> \<not> hasSpace then s
       else if \<not> needsBackslash then [dquote] @ s @ [dquote]
       else if hasSpace then [dquote] @ escape_loop True 0 s
       else escape_loop False 0 s)"

subsection \<open>Splitting\<close>

text \<open>
  \<open>readNextArg\<close>: \<open>b\<close> is the argument so far, \<open>n\<close> the number of backslashes read since and not yet
  decided; the result is the argument and the rest of the line.
\<close>

function readNextArg :: "string \<Rightarrow> bool \<Rightarrow> nat \<Rightarrow> string \<Rightarrow> string \<times> string" where
  "readNextArg b inquote n [] = (b @ replicate n backslash, [])"
| "readNextArg b inquote n (c # cmd) =
    (if blank c \<and> \<not> inquote then (b @ replicate n backslash, cmd)
     else if c = dquote then
       (let b1 = b @ replicate (n div 2) backslash in
        if even n then
          (if inquote \<and> cmd \<noteq> [] \<and> hd cmd = dquote then readNextArg (b1 @ [c]) (\<not> inquote) 0 (tl cmd)
           else readNextArg b1 (\<not> inquote) 0 cmd)
        else readNextArg (b1 @ [c]) inquote 0 cmd)
     else if c = backslash then readNextArg b inquote (Suc n) cmd
     else readNextArg (b @ replicate n backslash @ [c]) inquote 0 cmd)"
  by pat_completeness auto
termination by (relation "measure (\<lambda>(b, q, n, cmd). length cmd)") auto

declare readNextArg.simps(2) [simp del]

lemma read_steps:
  "blank c \<Longrightarrow> readNextArg b False n (c # cmd) = (b @ replicate n backslash, cmd)"
  "even n \<Longrightarrow> \<not> (q \<and> cmd \<noteq> [] \<and> hd cmd = dquote) \<Longrightarrow>
     readNextArg b q n (dquote # cmd) = readNextArg (b @ replicate (n div 2) backslash) (\<not> q) 0 cmd"
  "odd n \<Longrightarrow> readNextArg b q n (dquote # cmd) = readNextArg (b @ replicate (n div 2) backslash @ [dquote]) q 0 cmd"
  "readNextArg b q n (backslash # cmd) = readNextArg b q (Suc n) cmd"
  "c \<noteq> dquote \<Longrightarrow> c \<noteq> backslash \<Longrightarrow> q \<or> \<not> blank c \<Longrightarrow>
     readNextArg b q n (c # cmd) = readNextArg (b @ replicate n backslash @ [c]) q 0 cmd"
  by (subst readNextArg.simps(2), force simp: Let_def)+

lemma read_step_cases:
  "\<exists>x b' q' n'. readNextArg b q n (c # cmd) \<in> {(x, cmd), readNextArg b' q' n' cmd, readNextArg b' q' n' (tl cmd)}"
  by (subst readNextArg.simps(2)) (auto simp: Let_def)

lemma readNextArg_length: "length (snd (readNextArg b q n cmd)) \<le> length cmd"
proof (induction cmd arbitrary: b q n rule: length_induct)
  case (1 s)
  show ?case
  proof (cases s)
    case (Cons c cmd)
    have "length (snd (readNextArg b' q' n' cmd)) \<le> length cmd" "length (snd (readNextArg b' q' n' (tl cmd))) \<le> length cmd" for b' q' n'
      using 1 [rule_format, of cmd b' q' n'] 1 [rule_format, of "tl cmd" b' q' n'] Cons by (simp, force)
    then show ?thesis using read_step_cases [of b q n c cmd] Cons by (fastforce simp: le_SucI)
  qed simp
qed

lemma readNextArg_shorter:
  assumes "\<not> blank c" and "readNextArg [] False 0 (c # cmd) = (a, r)"
  shows "length r \<le> length cmd"
proof -
  have "\<exists>b q n. readNextArg [] False 0 (c # cmd) = readNextArg b q n cmd"
    using assms(1) by (cases "c = dquote"; cases "c = backslash") (auto simp: read_steps)
  with assms(2) readNextArg_length show ?thesis by (metis snd_conv)
qed

function commandLineToArgv :: "string \<Rightarrow> string list" where
  "commandLineToArgv [] = []"
| "commandLineToArgv (c # cmd) =
    (if blank c then commandLineToArgv cmd
     else case readNextArg [] False 0 (c # cmd) of (arg, rest) \<Rightarrow> arg # commandLineToArgv rest)"
  by pat_completeness auto
termination
  by (relation "measure length") (auto simp: less_Suc_eq_le intro: readNextArg_shorter [OF _ sym])

declare commandLineToArgv.simps(2) [simp del]

subsection \<open>What is quoted is read back\<close>

text \<open>A line goes on after an argument with a blank or not at all.\<close>

definition ends_arg :: "string \<Rightarrow> bool" where
  "ends_arg rest \<longleftrightarrow> (case rest of [] \<Rightarrow> True | c # _ \<Rightarrow> blank c)"

lemma read_backslashes:
  "readNextArg b q n (replicate k backslash @ s) = readNextArg b q (n + k) s"
  by (induction k arbitrary: n) (simp_all add: read_steps)

lemma read_end: "ends_arg rest \<Longrightarrow> readNextArg b False n rest = (b @ replicate n backslash, tl rest)"
  by (cases rest) (auto simp: ends_arg_def read_steps)

lemma read_close:
  assumes "ends_arg rest"
  shows "readNextArg b True (2 * n) (dquote # rest) = (b @ replicate n backslash, tl rest)"
  using assms read_end [OF assms, of "b @ replicate n backslash" 0]
  by (cases rest) (auto simp: ends_arg_def blank_def read_steps)

lemma read_escaped_quote:
  "readNextArg b q n (replicate n backslash @ [backslash, dquote] @ s) = readNextArg (b @ replicate n backslash @ [dquote]) q 0 s"
proof -
  have "readNextArg b q n (replicate n backslash @ [backslash, dquote] @ s) =
      readNextArg b q (Suc (2 * n)) (dquote # s)"
    using read_backslashes [of b q n n "[backslash, dquote] @ s"] by (simp add: read_steps(4) mult_2)
  also have "\<dots> = readNextArg (b @ replicate n backslash @ [dquote]) q 0 s" by (simp add: read_steps)
  finally show ?thesis .
qed

lemma read_quoted_loop:
  assumes "ends_arg rest"
  shows "readNextArg b True n (escape_loop True n s @ rest) = (b @ replicate n backslash @ s, tl rest)"
proof (induction s arbitrary: b n)
  case Nil
  show ?case using read_backslashes [of b True n n "dquote # rest"] read_close [OF assms, of b n] by (simp add: mult_2)
next
  case (Cons c s)
  show ?case
  proof (cases "c = backslash")
    case True
    then show ?thesis using Cons.IH [of b "Suc n"] by (simp add: read_steps replicate_append_same)
  next
    case False
    then show ?thesis
      using Cons.IH [of "b @ replicate n backslash @ [c]" 0] read_escaped_quote [of b True n "escape_loop True 0 s @ rest"]
      by (auto simp: read_steps)
  qed
qed

lemma read_plain_loop:
  assumes "ends_arg rest" and "\<not> list_ex blank s"
  shows "readNextArg b False n (escape_loop False n s @ rest) = (b @ replicate n backslash @ s, tl rest)"
  using assms(2)
proof (induction s arbitrary: b n)
  case Nil
  show ?case using read_end [OF assms(1), of b n] by simp
next
  case (Cons c s)
  show ?case
  proof (cases "c = backslash")
    case True
    then show ?thesis using Cons.IH [of b "Suc n"] Cons.prems by (simp add: read_steps replicate_append_same)
  next
    case False
    then show ?thesis
      using Cons.IH [of "b @ replicate n backslash @ [c]" 0] Cons.prems read_escaped_quote [of b False n "escape_loop False 0 s @ rest"]
      by (auto simp: read_steps)
  qed
qed

text \<open>An argument without backslash and quote is its own escape.\<close>

lemma escape_loop_plain:
  "dquote \<notin> set s \<Longrightarrow> backslash \<notin> set s \<Longrightarrow> escape_loop q 0 s = s @ (if q then [dquote] else [])"
  by (induction s) auto

lemma EscapeArg_loop:
  "s \<noteq> [] \<Longrightarrow> EscapeArg s = (if list_ex blank s then dquote # escape_loop True 0 s else escape_loop False 0 s)"
  by (simp add: EscapeArg_def Let_def escape_loop_plain)

lemma read_EscapeArg:
  assumes "ends_arg rest"
  shows "readNextArg [] False 0 (EscapeArg s @ rest) = (s, tl rest)"
proof (cases "s = []")
  case True
  then show ?thesis using read_close [OF assms, of "[]" 0] by (simp add: EscapeArg_def read_steps)
next
  case False
  then show ?thesis
    using read_quoted_loop [OF assms, of "[]" 0 s] read_plain_loop [OF assms, of s "[]" 0]
    by (auto simp: EscapeArg_loop read_steps)
qed

lemma EscapeArg_Cons: "\<exists>c t. EscapeArg s = c # t \<and> \<not> blank c"
proof (cases s)
  case (Cons c s')
  then show ?thesis by (auto simp: EscapeArg_loop)
qed (simp add: EscapeArg_def)

lemma argv_EscapeArg:
  assumes "ends_arg rest"
  shows "commandLineToArgv (EscapeArg s @ rest) = s # commandLineToArgv (tl rest)"
proof -
  obtain c t where c: "EscapeArg s = c # t" "\<not> blank c" using EscapeArg_Cons by blast
  with read_EscapeArg [OF assms, of s] show ?thesis by (simp add: commandLineToArgv.simps(2))
qed

interpretation argv: stream_codec "\<lambda>a. EscapeArg a @ [space]" commandLineToArgv "\<lambda>_. True" id
proof unfold_locales
  fix a rest
  show "commandLineToArgv ((EscapeArg a @ [space]) @ rest) = id a # commandLineToArgv rest"
    using argv_EscapeArg [of "space # rest" a] by (simp add: ends_arg_def)
qed simp

subsection \<open>The command lines of the program\<close>

text \<open>\<open>strings.Join\<close>.\<close>

fun strings_Join :: "string list \<Rightarrow> string \<Rightarrow> string" where
  "strings_Join [] sep = []"
| "strings_Join [p] sep = p"
| "strings_Join (p # ps) sep = p @ sep @ strings_Join ps sep"

definition elevatedArgLine :: "string list \<Rightarrow> string" where
  "elevatedArgLine args = strings_Join (map EscapeArg args) [space]"

text \<open>
  What \<open>elevatedSelf\<close> gives ShellExecute as parameters: a line with a NUL cannot be converted,
  the error is dropped and the pointer stays nil.
\<close>

definition elevatedSelf :: "string list \<Rightarrow> string option" where
  "elevatedSelf args = (let line = elevatedArgLine args in if CHR 0x00 \<in> set line then None else Some line)"

lemma elevatedArgLine_blocks:
  "elevatedArgLine (as @ [a]) = concat (map (\<lambda>a. EscapeArg a @ [space]) as) @ EscapeArg a"
proof (induction as)
  case (Cons b as)
  then show ?case by (cases "as @ [a]") (auto simp: elevatedArgLine_def)
qed (simp add: elevatedArgLine_def)

lemma argv_elevatedArgLine [codec_simps]: "commandLineToArgv (elevatedArgLine args) = args"
proof (cases args rule: rev_cases)
  case (snoc as a)
  then show ?thesis
    using argv.dec_blocks [of as "EscapeArg a"] argv_EscapeArg [of "[]" a]
    by (simp add: elevatedArgLine_blocks ends_arg_def)
qed (simp add: elevatedArgLine_def)

end
