(* ===== verification/Flags.thy ===== *)
theory Flags
  imports Args Json
begin

text \<open>
  main.go: the configuration the command line selects.  \<open>appConfig\<close> and its \<open>mode\<close>, the flags
  \<open>main\<close> defines, and the parts of Go's \<open>flag\<close>, \<open>strconv\<close> and \<open>strings\<close> packages it relies on:
  the parse loop of a flag set, \<open>ParseInt\<close> with base 0, \<open>ParseBool\<close> and \<open>TrimSpace\<close>.  With the
  command lines of \<open>Args\<close> this closes the loop: what a process puts on the command line of its
  child is the configuration the child starts with.
\<close>

subsection \<open>strings.TrimSpace\<close>

text \<open>\<open>unicode.IsSpace\<close>.\<close>

definition is_space_rune :: "nat \<Rightarrow> bool" where
  "is_space_rune r \<longleftrightarrow> 9 \<le> r \<and> r \<le> 13 \<or> 0x2000 \<le> r \<and> r \<le> 0x200A \<or>
     r \<in> set [0x20, 0x85, 0xA0, 0x1680, 0x2028, 0x2029, 0x202F, 0x205F, 0x3000]"

definition TrimSpace :: "string \<Rightarrow> string" where
  "TrimSpace s =
    (let sp = (\<lambda>(r, _). is_space_rune r)
     in concat (map snd (rev (dropWhile sp (rev (dropWhile sp (chunks s)))))))"

definition sanitizeName :: "string \<Rightarrow> string" where
  "sanitizeName n = TrimSpace n"

subsection \<open>strconv\<close>

definition lower_byte :: "char \<Rightarrow> nat" where
  "lower_byte c = or (byte_val c) 32"

definition digit_of :: "char \<Rightarrow> nat option" where
  "digit_of c =
    (if is_digit c then Some (byte_val c - 48)
     else if 97 \<le> lower_byte c \<and> lower_byte c \<le> 122 then Some (lower_byte c - 97 + 10) else None)"

text \<open>The base a literal announces, and what follows the prefix.\<close>

definition split_base :: "string \<Rightarrow> nat \<times> string" where
  "split_base s =
    (case s of
       c # t \<Rightarrow>
         if c \<noteq> CHR ''0'' then (10, s)
         else if 2 \<le> length t \<and> lower_byte (hd t) = 98 then (2, tl t)
         else if 2 \<le> length t \<and> lower_byte (hd t) = 111 then (8, tl t)
         else if 2 \<le> length t \<and> lower_byte (hd t) = 120 then (16, tl t)
         else (8, t)
     | [] \<Rightarrow> (10, s))"

fun underscore_scan :: "bool \<Rightarrow> char \<Rightarrow> string \<Rightarrow> bool" where
  "underscore_scan hex saw [] \<longleftrightarrow> saw \<noteq> CHR ''_''"
| "underscore_scan hex saw (c # s) =
    (if is_digit c \<or> hex \<and> 97 \<le> lower_byte c \<and> lower_byte c \<le> 102 then underscore_scan hex (CHR ''0'') s
     else if c = CHR ''_'' then saw = CHR ''0'' \<and> underscore_scan hex (CHR ''_'') s
     else saw \<noteq> CHR ''_'' \<and> underscore_scan hex (CHR ''!'') s)"

definition underscoreOK :: "string \<Rightarrow> bool" where
  "underscoreOK s0 =
    (let s = (if s0 \<noteq> [] \<and> (hd s0 = CHR ''-'' \<or> hd s0 = CHR ''+'') then tl s0 else s0)
     in if 2 \<le> length s \<and> hd s = CHR ''0'' \<and> lower_byte (s ! 1) \<in> {98, 111, 120}
        then underscore_scan (lower_byte (s ! 1) = 120) (CHR ''0'') (drop 2 s)
        else underscore_scan False (CHR ''^'') s)"

definition ParseUint0 :: "string \<Rightarrow> nat option" where
  "ParseUint0 s0 =
    (if s0 = [] then None
     else let (base, s) = split_base s0; ds = map digit_of (filter (\<lambda>c. c \<noteq> CHR ''_'') s)
       in if list_ex (\<lambda>d. case d of None \<Rightarrow> True | Some v \<Rightarrow> base \<le> v) ds then None
          else let n = foldl (\<lambda>a d. a * base + the d) 0 ds
            in if 2 ^ 64 \<le> n then None
               else if CHR ''_'' \<in> set s \<and> \<not> underscoreOK s0 then None
               else Some n)"

definition ParseInt0 :: "string \<Rightarrow> goint option" where
  "ParseInt0 s =
    (if s = [] then None
     else let neg = (hd s = CHR ''-''); t = (if hd s = CHR ''-'' \<or> hd s = CHR ''+'' then tl s else s)
       in case ParseUint0 t of
            None \<Rightarrow> None
          | Some n \<Rightarrow>
              if \<not> neg \<and> 2 ^ 63 \<le> n \<or> neg \<and> 2 ^ 63 < n then None
              else Some (word_of_int (if neg then - int n else int n)))"

definition ParseBool :: "string \<Rightarrow> bool option" where
  "ParseBool s =
    (if s \<in> set [''1'', ''t'', ''T'', ''true'', ''TRUE'', ''True''] then Some True
     else if s \<in> set [''0'', ''f'', ''F'', ''false'', ''FALSE'', ''False''] then Some False
     else None)"

definition Itoa :: "goint \<Rightarrow> string" where
  "Itoa i = fmt_int (sint i)"

text \<open>\<open>strconv.Atoi\<close> reads plain decimals only.\<close>

definition Atoi :: "string \<Rightarrow> goint option" where
  "Atoi s = map_option word_of_int (parse_int s)"

lemma digit_of_dec: "is_digit c \<Longrightarrow> digit_of c = Some (byte_val c - 48) \<and> byte_val c - 48 < (10 :: nat) \<and> c \<noteq> CHR ''_''"
  by (auto simp: digit_of_def is_digit_def)

lemma foldl_digits:
  "list_all is_digit s \<Longrightarrow> foldl (\<lambda>a d. a * 10 + the d) a (map digit_of s) = foldl (\<lambda>a c. a * 10 + (byte_val c - 48)) a s"
  by (induction s arbitrary: a) (simp_all add: digit_of_dec)

lemma ParseUint0_dec: "n < 2 ^ 64 \<Longrightarrow> ParseUint0 (dec_digits n) = Some n"
proof -
  assume n: "n < 2 ^ 64"
  have ds: "\<forall>c \<in> set (dec_digits n). is_digit c" by (simp add: dec_digits_digits)
  then have all: "list_all is_digit (dec_digits n)" by (simp add: list_all_iff)
  have f: "filter (\<lambda>c. c \<noteq> CHR ''_'') (dec_digits n) = dec_digits n"
    using ds digit_of_dec by (intro filter_True) blast
  have u: "CHR ''_'' \<notin> set (dec_digits n)" using ds digit_of_dec by blast
  have ok: "\<not> list_ex (\<lambda>d. case d of None \<Rightarrow> True | Some v \<Rightarrow> 10 \<le> v) (map digit_of (dec_digits n))"
    using ds digit_of_dec by (force simp: list_ex_iff)
  show ?thesis
  proof (cases "n = 0")
    case True
    then show ?thesis by (simp add: dec_digits.simps [of 0] ParseUint0_def split_base_def char_of_def bit_numeral_rec bit_0)
  next
    case False
    then have "split_base (dec_digits n) = (10, dec_digits n)"
      using dec_digits_zero [of n] by (auto simp: split_base_def split: list.split)
    with f u ok n foldl_digits [OF all, of 0] digits_val_dec [of n] show ?thesis
      by (simp add: ParseUint0_def digits_val_def)
  qed
qed

lemma ParseInt0_Itoa [codec_simps]: "ParseInt0 (Itoa i) = Some i"
proof (cases "sint i < 0")
  case True
  have "nat (- sint i) \<le> 2 ^ 63" using sint64_range [of i] by simp
  with True ParseUint0_dec [of "nat (- sint i)"] show ?thesis by (simp add: Itoa_def fmt_int_def ParseInt0_def)
next
  case False
  obtain c cs where c: "dec_digits (nat (sint i)) = c # cs" "is_digit c" using dec_digits_hd by blast
  have "nat (sint i) < 2 ^ 63" using sint64_range [of i] by simp
  with False c is_digit_sign [of c] ParseUint0_dec [of "nat (sint i)"] show ?thesis by (simp add: Itoa_def fmt_int_def ParseInt0_def)
qed

lemma Atoi_Itoa [codec_simps]: "Atoi (Itoa i) = Some i"
  using sint64_range [of i] by (simp add: Atoi_def Itoa_def parse_fmt_int)

subsection \<open>The configuration and its mode\<close>

record appConfig =
  ac_name :: string
  ac_pass :: string
  ac_port :: goint
  ac_notray :: bool
  ac_service :: bool
  ac_agent :: bool
  ac_absolute :: bool
  ac_pipe :: string
  ac_installService :: bool
  ac_uninstallService :: bool
  ac_probeDesktop :: bool
  ac_standalone :: bool
  ac_injectLog :: bool
  ac_startService :: bool
  ac_stopService :: bool
  ac_setStartType :: string
  ac_applyConfig :: bool

definition mode :: "appConfig \<Rightarrow> string" where
  "mode c =
    (if ac_installService c then ''install-service''
     else if ac_uninstallService c then ''uninstall-service''
     else if ac_startService c then ''start-service''
     else if ac_stopService c then ''stop-service''
     else if ac_setStartType c \<noteq> [] then ''set-start-type''
     else if ac_applyConfig c then ''apply-config''
     else if ac_service c then ''service''
     else if ac_agent c then ''agent''
     else if ac_probeDesktop c then ''probe-desktop''
     else if ac_standalone c then ''standalone''
     else ''ui'')"

text \<open>The zero value of the struct, and the defaults \<open>main\<close> gives its flags.\<close>

definition zero_config :: appConfig where
  "zero_config = \<lparr>ac_name = [], ac_pass = [], ac_port = 0, ac_notray = False, ac_service = False, ac_agent = False,
     ac_absolute = False, ac_pipe = [], ac_installService = False, ac_uninstallService = False,
     ac_probeDesktop = False, ac_standalone = False, ac_injectLog = False, ac_startService = False,
     ac_stopService = False, ac_setStartType = [], ac_applyConfig = False\<rparr>"

definition inject_pipe :: string where
  "inject_pipe = [backslash, backslash, CHR ''.'', backslash] @ ''pipe'' @ [backslash] @ ''remotemouse-inject''"

definition default_config :: "string \<Rightarrow> appConfig" where
  "default_config host = zero_config\<lparr>ac_name := sanitizeName host, ac_pass := ''1234'', ac_port := 27500, ac_pipe := inject_pipe\<rparr>"

subsection \<open>The flag package\<close>

datatype flag_var =
    StringVar "string \<Rightarrow> appConfig \<Rightarrow> appConfig"
  | IntVar "goint \<Rightarrow> appConfig \<Rightarrow> appConfig"
  | BoolVar "bool \<Rightarrow> appConfig \<Rightarrow> appConfig"

definition flag_table :: "(string \<times> flag_var) list" where
  "flag_table = [
     (''name'', StringVar (\<lambda>v c. c\<lparr>ac_name := v\<rparr>)),
     (''pass'', StringVar (\<lambda>v c. c\<lparr>ac_pass := v\<rparr>)),
     (''port'', IntVar (\<lambda>v c. c\<lparr>ac_port := v\<rparr>)),
     (''notray'', BoolVar (\<lambda>v c. c\<lparr>ac_notray := v\<rparr>)),
     (''service'', BoolVar (\<lambda>v c. c\<lparr>ac_service := v\<rparr>)),
     (''agent'', BoolVar (\<lambda>v c. c\<lparr>ac_agent := v\<rparr>)),
     (''absolute'', BoolVar (\<lambda>v c. c\<lparr>ac_absolute := v\<rparr>)),
     (''pipe'', StringVar (\<lambda>v c. c\<lparr>ac_pipe := v\<rparr>)),
     (''install-service'', BoolVar (\<lambda>v c. c\<lparr>ac_installService := v\<rparr>)),
     (''uninstall-service'', BoolVar (\<lambda>v c. c\<lparr>ac_uninstallService := v\<rparr>)),
     (''probe-desktop'', BoolVar (\<lambda>v c. c\<lparr>ac_probeDesktop := v\<rparr>)),
     (''standalone'', BoolVar (\<lambda>v c. c\<lparr>ac_standalone := v\<rparr>)),
     (''injectlog'', BoolVar (\<lambda>v c. c\<lparr>ac_injectLog := v\<rparr>)),
     (''start-service'', BoolVar (\<lambda>v c. c\<lparr>ac_startService := v\<rparr>)),
     (''stop-service'', BoolVar (\<lambda>v c. c\<lparr>ac_stopService := v\<rparr>)),
     (''set-start-type'', StringVar (\<lambda>v c. c\<lparr>ac_setStartType := v\<rparr>)),
     (''apply-config'', BoolVar (\<lambda>v c. c\<lparr>ac_applyConfig := v\<rparr>))]"

datatype flag_head = NotFlag | Terminator | BadSyntax | Flag string "string option"

definition flag_head :: "string \<Rightarrow> flag_head" where
  "flag_head s =
    (if length s < 2 \<or> hd s \<noteq> CHR ''-'' then NotFlag
     else if s = ''--'' then Terminator
     else let name = (if s ! 1 = CHR ''-'' then drop 2 s else drop 1 s) in
       if name = [] \<or> hd name = CHR ''-'' \<or> hd name = CHR ''='' then BadSyntax
       else if CHR ''='' \<in> set name
       then Flag (takeWhile (\<lambda>c. c \<noteq> CHR ''='') name) (Some (tl (dropWhile (\<lambda>c. c \<noteq> CHR ''='') name)))
       else Flag name None)"

text \<open>Every error ends the process: the flag set of \<open>flag.Parse\<close> exits on error.\<close>

datatype flag_error = SyntaxError string | NotDefined string | HelpRequested | InvalidValue string string | NeedsArgument string

fun flag_Parse :: "appConfig \<Rightarrow> string list \<Rightarrow> flag_error + appConfig" where
  "flag_Parse c [] = Inr c"
| "flag_Parse c (s # args) =
    (case flag_head s of
       NotFlag \<Rightarrow> Inr c
     | Terminator \<Rightarrow> Inr c
     | BadSyntax \<Rightarrow> Inl (SyntaxError s)
     | Flag name value \<Rightarrow>
         (case map_of flag_table name of
            None \<Rightarrow> Inl (if name = ''help'' \<or> name = ''h'' then HelpRequested else NotDefined name)
          | Some (BoolVar set_b) \<Rightarrow>
              (case ParseBool (case value of None \<Rightarrow> ''true'' | Some v \<Rightarrow> v) of
                 None \<Rightarrow> Inl (InvalidValue name (case value of None \<Rightarrow> ''true'' | Some v \<Rightarrow> v))
               | Some b \<Rightarrow> flag_Parse (set_b b c) args)
          | Some (StringVar set_s) \<Rightarrow>
              (case value of
                 Some v \<Rightarrow> flag_Parse (set_s v c) args
               | None \<Rightarrow> (case args of [] \<Rightarrow> Inl (NeedsArgument name) | v # args' \<Rightarrow> flag_Parse (set_s v c) args'))
          | Some (IntVar set_i) \<Rightarrow>
              (case value of
                 Some v \<Rightarrow> (case ParseInt0 v of None \<Rightarrow> Inl (InvalidValue name v) | Some i \<Rightarrow> flag_Parse (set_i i c) args)
               | None \<Rightarrow>
                   (case args of
                      [] \<Rightarrow> Inl (NeedsArgument name)
                    | v # args' \<Rightarrow>
                        (case ParseInt0 v of None \<Rightarrow> Inl (InvalidValue name v) | Some i \<Rightarrow> flag_Parse (set_i i c) args')))))"

text \<open>\<open>main\<close> up to \<open>run\<close>: \<open>args\<close> is \<open>os.Args[1:]\<close>.\<close>

definition main_config :: "string \<Rightarrow> string list \<Rightarrow> flag_error + appConfig" where
  "main_config host args = flag_Parse (default_config host) args"

subsection \<open>Reading one flag\<close>

lemma flag_Parse_string:
  "flag_head s = Flag name None \<Longrightarrow> map_of flag_table name = Some (StringVar f) \<Longrightarrow> flag_Parse c (s # v # args) = flag_Parse (f v c) args"
  by simp

lemma flag_Parse_int:
  "flag_head s = Flag name None \<Longrightarrow> map_of flag_table name = Some (IntVar f) \<Longrightarrow>
     flag_Parse c (s # Itoa i # args) = flag_Parse (f i c) args"
  by (simp add: ParseInt0_Itoa)

lemma flag_Parse_bool:
  "flag_head s = Flag name None \<Longrightarrow> map_of flag_table name = Some (BoolVar f) \<Longrightarrow> flag_Parse c (s # args) = flag_Parse (f True c) args"
  by (simp add: ParseBool_def)

declare flag_Parse.simps(2) [simp del]

text \<open>Each flag the program passes to a child, as the step it is of the parse.\<close>

lemma flag_Parse_steps [step_simps]:
  "flag_Parse c (''-name'' # v # args) = flag_Parse (c\<lparr>ac_name := v\<rparr>) args"
  "flag_Parse c (''-pass'' # v # args) = flag_Parse (c\<lparr>ac_pass := v\<rparr>) args"
  "flag_Parse c (''-pipe'' # v # args) = flag_Parse (c\<lparr>ac_pipe := v\<rparr>) args"
  "flag_Parse c (''-set-start-type'' # v # args) = flag_Parse (c\<lparr>ac_setStartType := v\<rparr>) args"
  "flag_Parse c (''-port'' # Itoa i # args) = flag_Parse (c\<lparr>ac_port := i\<rparr>) args"
  "flag_Parse c (''-agent'' # args) = flag_Parse (c\<lparr>ac_agent := True\<rparr>) args"
  "flag_Parse c (''-absolute'' # args) = flag_Parse (c\<lparr>ac_absolute := True\<rparr>) args"
  "flag_Parse c (''-injectlog'' # args) = flag_Parse (c\<lparr>ac_injectLog := True\<rparr>) args"
  "flag_Parse c (''-service'' # args) = flag_Parse (c\<lparr>ac_service := True\<rparr>) args"
  "flag_Parse c (''-apply-config'' # args) = flag_Parse (c\<lparr>ac_applyConfig := True\<rparr>) args"
  "flag_Parse c (''-install-service'' # args) = flag_Parse (c\<lparr>ac_installService := True\<rparr>) args"
  "flag_Parse c (''-uninstall-service'' # args) = flag_Parse (c\<lparr>ac_uninstallService := True\<rparr>) args"
  "flag_Parse c (''-start-service'' # args) = flag_Parse (c\<lparr>ac_startService := True\<rparr>) args"
  "flag_Parse c (''-stop-service'' # args) = flag_Parse (c\<lparr>ac_stopService := True\<rparr>) args"
  by (simp_all add: flag_Parse_string flag_Parse_int flag_Parse_bool flag_head_def flag_table_def)

end
