(* ===== verification/Wire.thy ===== *)
theory Wire
  imports Sessions Flags
begin

text \<open>
  What leaves the server of server.go on a connection: \<open>send\<close>, the schema of its messages, and
  \<open>Listen\<close> with \<open>Serve\<close>.
\<close>

subsection \<open>Sending\<close>

text \<open>
  The calls on the connection, at the time \<open>now\<close> in nanoseconds; the result of the write is not looked at.
\<close>

datatype conn_call = SetWriteDeadline int | Write string

definition send :: "int \<Rightarrow> json \<Rightarrow> conn_call list" where
  "send now v = [SetWriteDeadline (now + 5 * 10 ^ 9), Write (encode v)]"

subsection \<open>Listening\<close>

text \<open>
  What \<open>Accept\<close> answers, in order: a connection or the error that ends \<open>Serve\<close>.  The connections a
  goroutine is started for, and whether \<open>Serve\<close> has returned.
\<close>

fun Serve :: "'c option list \<Rightarrow> 'c list \<times> bool" where
  "Serve [] = ([], False)"
| "Serve (None # conns) = ([], True)"
| "Serve (Some c # conns) = apfst ((#) c) (Serve conns)"

definition Listen :: "(string \<Rightarrow> 'l option) \<Rightarrow> ('l \<Rightarrow> 'c option list) \<Rightarrow> goint \<Rightarrow> 'l option \<times> 'c list \<times> bool" where
  "Listen bind_tcp conns port =
    (case bind_tcp ('':'' @ Itoa port) of
       None \<Rightarrow> (None, [], True)
     | Some ln \<Rightarrow> (Some ln, Serve (conns ln)))"

lemma Serve_starts: "fst (Serve conns) = map the (takeWhile (\<lambda>c. c \<noteq> None) conns)"
  by (induction conns rule: Serve.induct) auto

subsection \<open>The schema of the messages\<close>

datatype jtype = TString | TNumber | TOther

fun jtype_of :: "json \<Rightarrow> jtype" where
  "jtype_of (JStr s) = TString"
| "jtype_of (JNum n) = TNumber"
| "jtype_of _ = TOther"

definition schemas :: "(string \<times> (string \<times> jtype) list) list" where
  "schemas =
    [(''challenge'', [(''iter'', TNumber), (''nonce'', TString), (''salt'', TString), (''t'', TString)]),
     (''error'', [(''code'', TString), (''msg'', TString), (''t'', TString)]),
     (''auth_ok'', [(''server'', TString), (''t'', TString), (''ver'', TString)]),
     (''pong'', [(''t'', TString), (''ts'', TNumber)]),
     (''screen'', [(''h'', TNumber), (''t'', TString), (''w'', TNumber)])]"

definition typed_msg :: "json \<Rightarrow> bool" where
  "typed_msg j \<longleftrightarrow>
    (case j of
       JObj kvs \<Rightarrow>
         (case map_of kvs ''t'' of
            Some (JStr t) \<Rightarrow> map_of schemas t = Some (map (\<lambda>(k, v). (k, jtype_of v)) kvs)
          | _ \<Rightarrow> False)
     | _ \<Rightarrow> False)"

inductive server_msg :: "json \<Rightarrow> bool" where
  challenge: "server_msg (msg_challenge salt nonce)"
| bad_hello: "server_msg (msg_error ''bad_hello'' ''expected hello'')"
| auth_failed: "server_msg (msg_error ''auth_failed'' ''wrong password'')"
| auth_ok: "server_msg (msg_auth_ok name)"
| pong: "server_msg (msg_pong ts)"
| screen: "server_msg (msg_screen w h)"

declare server_msg.intros [simp]

lemmas msg_defs = msg_challenge_def msg_error_def msg_auth_ok_def msg_pong_def msg_screen_def int_json_def

lemma handle_step_msgs:
  assumes "handle_step kdf ip p inp sv = Some (p', sv', evs)" and "Sent j \<in> set evs"
  shows "server_msg j"
  using assms
  by (cases p; cases inp; auto simp: step_defs Let_def split: if_splits option.splits prod.splits list.splits)

definition msgs_inv :: "sys \<Rightarrow> bool" where
  "msgs_inv s \<longleftrightarrow> (\<forall>i j. (i, Sent j) \<in> set (sy_trace s) \<longrightarrow> server_msg j)"

lemma reachable_msgs: "reachable kdf s \<Longrightarrow> msgs_inv s"
proof (rule reachable_invariant [where P = msgs_inv])
  fix s s'
  assume "sys_step kdf s s'" and "msgs_inv s"
  then show "msgs_inv s'"
    by (induction rule: sys_step.induct) (auto simp: msgs_inv_def dest: handle_step_msgs)
qed (simp_all add: msgs_inv_def sys_init_def)

text \<open>A message keeps its type on the wire: its line has one line end, and is read as the same message in valid UTF-8.\<close>

lemma to_valid_names:
  "to_valid ''iter'' = ''iter''" "to_valid ''nonce'' = ''nonce''" "to_valid ''salt'' = ''salt''" "to_valid ''t'' = ''t''"
  "to_valid ''code'' = ''code''" "to_valid ''msg'' = ''msg''" "to_valid ''server'' = ''server''" "to_valid ''ver'' = ''ver''"
  "to_valid ''ts'' = ''ts''" "to_valid ''h'' = ''h''" "to_valid ''w'' = ''w''"
  "to_valid ''challenge'' = ''challenge''" "to_valid ''error'' = ''error''" "to_valid ''auth_ok'' = ''auth_ok''"
  "to_valid ''pong'' = ''pong''" "to_valid ''screen'' = ''screen''"
  by (rule to_valid_ascii, force)+

lemma server_msg_typed:
  assumes "server_msg j"
  shows "typed_msg j" and "typed_msg (clean j)" and "wf_json j" and "jdepth j = 1"
  using assms by (cases; auto simp: msg_defs typed_msg_def schemas_def to_valid_names)+

lemma server_msg_wire:
  assumes "server_msg j"
  shows "\<exists>line. send now j = [SetWriteDeadline (now + 5 * 10 ^ 9), Write (line @ [newline])] \<and> newline \<notin> set line \<and> parse_json line = Some (clean j) \<and> typed_msg (clean j)"
proof -
  note t = server_msg_typed [OF assms]
  have "newline \<notin> set (enc_json j)" using enc_json_printable [OF t(3), of newline] by auto
  moreover have "parse_json (enc_json j) = Some (clean j)" using t by (intro parse_enc_json) (simp_all add: max_depth_def)
  ultimately show ?thesis using t(2) by (simp add: send_def encode_def)
qed

end
