(* ===== verification/Config.thy ===== *)
theory Config
  imports Flags
begin

text \<open>
  config_windows.go, starttype_windows.go and the registry side of autostart_windows.go: what
  the service, the elevated child and the panel keep in the registry.  A registry key is an
  association of value names to typed values; whether a key can be opened or a value set is
  answered by an environment.
\<close>

subsection \<open>The registry\<close>

datatype reg_value = REG_SZ string | REG_DWORD uint32 | REG_QWORD uint64 | REG_OTHER

type_synonym reg_key = "(string \<times> reg_value) list"

record reg_env =
  re_open :: bool
  re_set :: "string \<Rightarrow> bool"

text \<open>
  \<open>SetStringValue\<close> refuses a string with a NUL, and may be refused; the old value is replaced.
  \<open>GetStringValue\<close> and \<open>GetIntegerValue\<close> fail on a missing value and on one of another type.
\<close>

definition set_value :: "reg_env \<Rightarrow> string \<Rightarrow> reg_value \<Rightarrow> reg_key \<Rightarrow> reg_key option" where
  "set_value e n v k = (if re_set e n then Some ((n, v) # filter (\<lambda>p. fst p \<noteq> n) k) else None)"

definition SetStringValue :: "reg_env \<Rightarrow> string \<Rightarrow> string \<Rightarrow> reg_key \<Rightarrow> reg_key option" where
  "SetStringValue e n s k = (if CHR 0x00 \<in> set s then None else set_value e n (REG_SZ s) k)"

definition GetStringValue :: "string \<Rightarrow> reg_key \<Rightarrow> string option" where
  "GetStringValue n k = (case map_of k n of Some (REG_SZ s) \<Rightarrow> Some s | _ \<Rightarrow> None)"

definition GetIntegerValue :: "string \<Rightarrow> reg_key \<Rightarrow> uint64 option" where
  "GetIntegerValue n k = (case map_of k n of Some (REG_DWORD d) \<Rightarrow> Some (ucast d) | Some (REG_QWORD q) \<Rightarrow> Some q | _ \<Rightarrow> None)"

lemma map_of_set_value [simp]: "set_value e n v k = Some k' \<Longrightarrow> map_of k' = (map_of k)(n \<mapsto> v)"
  by (auto simp: set_value_def map_of_filter_key split: if_splits)

subsection \<open>The configuration\<close>

record serverConfig =
  sc_Password :: string
  sc_Port :: goint
  sc_Name :: string

text \<open>The result of \<open>readConfig\<close> is the configuration and whether there was no error.\<close>

definition readConfig :: "reg_env \<Rightarrow> reg_key option \<Rightarrow> serverConfig \<times> bool" where
  "readConfig e root =
    (let cfg = \<lparr>sc_Password = ''1234'', sc_Port = 27500, sc_Name = []\<rparr> in
     case (if re_open e then root else None) of
       None \<Rightarrow> (cfg, False)
     | Some k \<Rightarrow>
         let cfg = (case GetStringValue ''Password'' k of Some p \<Rightarrow> cfg\<lparr>sc_Password := p\<rparr> | None \<Rightarrow> cfg);
             cfg = (case GetIntegerValue ''Port'' k of Some n \<Rightarrow> cfg\<lparr>sc_Port := n\<rparr> | None \<Rightarrow> cfg);
             cfg = (case GetStringValue ''Name'' k of Some s \<Rightarrow> cfg\<lparr>sc_Name := s\<rparr> | None \<Rightarrow> cfg)
         in (cfg, True))"

text \<open>\<open>writeConfig\<close> creates the key if it has to; it stops at the first value it cannot set.\<close>

definition writeConfig :: "reg_env \<Rightarrow> serverConfig \<Rightarrow> reg_key option \<Rightarrow> reg_key option \<times> bool" where
  "writeConfig e cfg root =
    (if \<not> re_open e then (root, False)
     else
       let k = (case root of None \<Rightarrow> [] | Some k \<Rightarrow> k) in
       case SetStringValue e ''Password'' (sc_Password cfg) k of
         None \<Rightarrow> (Some k, False)
       | Some k1 \<Rightarrow>
           (case SetStringValue e ''Name'' (sc_Name cfg) k1 of
              None \<Rightarrow> (Some k1, False)
            | Some k2 \<Rightarrow>
                (case set_value e ''Port'' (REG_DWORD (ucast (sc_Port cfg))) k2 of
                   None \<Rightarrow> (Some k2, False)
                 | Some k3 \<Rightarrow> (Some k3, True))))"

text \<open>The three values \<open>readConfig\<close> looks at, after a successful \<open>writeConfig\<close>.\<close>

lemma map_of_SetStringValue: "SetStringValue e n s k = Some k' \<Longrightarrow> map_of k' = (map_of k)(n \<mapsto> REG_SZ s)"
  by (simp add: SetStringValue_def split: if_splits)

lemma writeConfig_values:
  assumes "writeConfig e cfg root = (root', True)"
  shows "\<exists>k. root' = Some k \<and> map_of k ''Password'' = Some (REG_SZ (sc_Password cfg)) \<and>
    map_of k ''Name'' = Some (REG_SZ (sc_Name cfg)) \<and> map_of k ''Port'' = Some (REG_DWORD (ucast (sc_Port cfg)))"
proof -
  obtain k k1 k2 k3 where k: "SetStringValue e ''Password'' (sc_Password cfg) k = Some k1"
    "SetStringValue e ''Name'' (sc_Name cfg) k1 = Some k2"
    "set_value e ''Port'' (REG_DWORD (ucast (sc_Port cfg))) k2 = Some k3" "root' = Some k3"
    using assms by (simp add: writeConfig_def Let_def split: if_splits option.splits) metis+
  from k(1,2) [THEN map_of_SetStringValue] map_of_set_value [OF k(3)] k(4) show ?thesis by simp
qed

lemma readConfig_writeConfig [codec_simps]:
  assumes "writeConfig e cfg root = (root', True)" and "re_open e'"
  shows "readConfig e' root' = (cfg\<lparr>sc_Port := ucast (ucast (sc_Port cfg) :: uint32)\<rparr>, True)"
proof -
  obtain k where "root' = Some k" "map_of k ''Password'' = Some (REG_SZ (sc_Password cfg))"
    "map_of k ''Name'' = Some (REG_SZ (sc_Name cfg))" "map_of k ''Port'' = Some (REG_DWORD (ucast (sc_Port cfg)))"
    using writeConfig_values [OF assms(1)] by blast
  with assms(2) show ?thesis by (simp add: readConfig_def GetStringValue_def GetIntegerValue_def Let_def)
qed

lemma port_dword:
  assumes "0 \<le> sint p" and "sint p < 2 ^ 32"
  shows "ucast (ucast (p :: goint) :: uint32) = p"
proof -
  have "uint (word_of_int i :: goint) = i" if "0 \<le> i" "i < 2 ^ 32" for i
    using that by (simp add: uint_word_of_int_eq take_bit_int_eq_self)
  from this [OF assms] have "uint p = sint p" by simp
  then show ?thesis using assms by (intro word_uint_eqI) (simp add: unsigned_ucast_eq unsigned_take_bit_eq take_bit_int_eq_self)
qed

text \<open>A failed \<open>writeConfig\<close> may have stored the new password under the old name and port.\<close>

lemma writeConfig_partial:
  assumes "re_open e" and "re_set e ''Password''" and "CHR 0x00 \<notin> set (sc_Password cfg)" and "\<not> re_set e ''Name''"
  shows "writeConfig e cfg (Some k) = (Some ((''Password'', REG_SZ (sc_Password cfg)) # filter (\<lambda>p. fst p \<noteq> ''Password'') k), False)"
  using assms by (simp add: writeConfig_def SetStringValue_def set_value_def)

subsection \<open>The autostart entry\<close>

definition runVal :: string where "runVal = ''RemoteMouse''"

definition autostartOn :: "reg_env \<Rightarrow> reg_key option \<Rightarrow> bool" where
  "autostartOn e run = (case (if re_open e then run else None) of None \<Rightarrow> False | Some k \<Rightarrow> GetStringValue runVal k \<noteq> None)"

text \<open>The key is opened, not created; an error changes nothing and is not reported.\<close>

definition setAutostartNamed :: "reg_env \<Rightarrow> string \<Rightarrow> bool \<Rightarrow> reg_key option \<Rightarrow> reg_key option" where
  "setAutostartNamed e cmd on run =
    (case (if re_open e then run else None) of
       None \<Rightarrow> run
     | Some k \<Rightarrow>
         if on then (case SetStringValue e runVal cmd k of None \<Rightarrow> run | Some k' \<Rightarrow> Some k')
         else if re_set e runVal then Some (filter (\<lambda>p. fst p \<noteq> runVal) k) else run)"

lemma autostart_on_off:
  assumes "re_open e" and "re_set e runVal" and "CHR 0x00 \<notin> set cmd"
  shows "autostartOn e (setAutostartNamed e cmd on (Some k)) = on"
  using assms map_of_filter_key [of runVal k]
  by (auto simp: setAutostartNamed_def autostartOn_def SetStringValue_def set_value_def GetStringValue_def)

subsection \<open>Start types\<close>

definition SERVICE_AUTO_START :: uint32 where "SERVICE_AUTO_START = 2"
definition SERVICE_DEMAND_START :: uint32 where "SERVICE_DEMAND_START = 3"
definition SERVICE_DISABLED :: uint32 where "SERVICE_DISABLED = 4"

lemmas start_types = SERVICE_AUTO_START_def SERVICE_DEMAND_START_def SERVICE_DISABLED_def

definition startTypeFromArg :: "string \<Rightarrow> uint32 \<times> bool" where
  "startTypeFromArg s =
    (if s = ''auto'' then (SERVICE_AUTO_START, True)
     else if s = ''manual'' then (SERVICE_DEMAND_START, True)
     else if s = ''disabled'' then (SERVICE_DISABLED, True)
     else (0, False))"

definition startTypeArg :: "uint32 \<Rightarrow> string" where
  "startTypeArg t =
    (if t = SERVICE_AUTO_START then ''auto''
     else if t = SERVICE_DEMAND_START then ''manual''
     else if t = SERVICE_DISABLED then ''disabled''
     else [])"

text \<open>The labels of the panel, as their UTF-8 bytes.\<close>

definition utf8 :: "nat list \<Rightarrow> string" where
  "utf8 rs = concat (map encode_rune rs)"

definition startTypeLabel :: "uint32 \<Rightarrow> string" where
  "startTypeLabel t =
    (if t = SERVICE_AUTO_START then utf8 [0x81EA, 0x52A8]
     else if t = SERVICE_DEMAND_START then utf8 [0x624B, 0x52A8]
     else if t = SERVICE_DISABLED then utf8 [0x7981, 0x7528]
     else utf8 [0x672A, 0x77E5])"

definition startTypeCombo :: "uint32 list" where
  "startTypeCombo = [SERVICE_AUTO_START, SERVICE_DEMAND_START, SERVICE_DISABLED]"

fun index_from :: "int \<Rightarrow> uint32 list \<Rightarrow> uint32 \<Rightarrow> int" where
  "index_from i [] t = - 1"
| "index_from i (v # vs) t = (if v = t then i else index_from (i + 1) vs t)"

definition startTypeIndex :: "uint32 \<Rightarrow> int" where
  "startTypeIndex t = index_from 0 startTypeCombo t"

definition startTypeByIndex :: "int \<Rightarrow> uint32" where
  "startTypeByIndex i =
    (if i < 0 \<or> int (length startTypeCombo) \<le> i then SERVICE_AUTO_START else startTypeCombo ! nat i)"

definition startTypeLabels :: "string list" where
  "startTypeLabels = map startTypeLabel startTypeCombo"

lemma startTypeIndex_cases:
  "startTypeIndex t = (if t = 2 then 0 else if t = 3 then 1 else if t = 4 then 2 else - 1)"
  by (auto simp: startTypeIndex_def startTypeCombo_def start_types)

lemma startType_index [codec_simps]: "t \<in> set startTypeCombo \<Longrightarrow> startTypeByIndex (startTypeIndex t) = t"
  by (auto simp: startTypeByIndex_def startTypeCombo_def startTypeIndex_cases start_types)

lemma startType_arg [codec_simps]: "t \<in> set startTypeCombo \<Longrightarrow> startTypeFromArg (startTypeArg t) = (t, True)"
  by (auto simp: startTypeFromArg_def startTypeArg_def startTypeCombo_def start_types)

lemma startTypeByIndex_known: "startTypeByIndex i \<in> set startTypeCombo"
proof (cases "i < 0 \<or> int (length startTypeCombo) \<le> i")
  case False
  then show ?thesis by (simp only: startTypeByIndex_def if_False) (intro nth_mem, auto simp: nat_less_iff)
qed (auto simp: startTypeByIndex_def startTypeCombo_def)

lemma startTypeFromArg_ok: "snd (startTypeFromArg s) \<longleftrightarrow> s \<in> set (map startTypeArg startTypeCombo)"
  by (auto simp: startTypeFromArg_def startTypeArg_def startTypeCombo_def start_types)

end
