(* ===== verification/Controller.thy ===== *)
theory Controller
  imports Clients Config
begin

text \<open>
  serving_windows.go: the controller that owns the in-process server of the Windows UI - its
  listener, its mDNS announcement and its \<open>Server\<close> - and starts, stops and reconfigures it.
  The network side it acts on is a ghost state with every listener and announcement that is
  open, so that a leak is visible; whether a bind or an announcement succeeds is an argument.
\<close>

subsection \<open>The network\<close>

record netos =
  no_next :: nat
  no_listeners :: "(nat \<times> goint) list"
  no_anns :: "(nat \<times> string \<times> goint) list"

definition net_init :: netos where
  "net_init = \<lparr>no_next = 0, no_listeners = [], no_anns = []\<rparr>"

definition open_listener :: "netos \<Rightarrow> goint \<Rightarrow> netos \<times> nat" where
  "open_listener o' p = (o'\<lparr>no_next := Suc (no_next o'), no_listeners := go_insert (no_next o') p (no_listeners o')\<rparr>, no_next o')"

definition close_listener :: "netos \<Rightarrow> nat \<Rightarrow> netos" where
  "close_listener o' l = o'\<lparr>no_listeners := go_delete l (no_listeners o')\<rparr>"

definition open_ann :: "netos \<Rightarrow> string \<times> goint \<Rightarrow> netos \<times> nat" where
  "open_ann o' a = (o'\<lparr>no_next := Suc (no_next o'), no_anns := go_insert (no_next o') a (no_anns o')\<rparr>, no_next o')"

definition close_ann :: "netos \<Rightarrow> nat \<Rightarrow> netos" where
  "close_ann o' z = o'\<lparr>no_anns := go_delete z (no_anns o')\<rparr>"

definition listeners :: "netos \<Rightarrow> nat \<rightharpoonup> goint" where
  "listeners o' = map_of (no_listeners o')"

definition anns :: "netos \<Rightarrow> nat \<rightharpoonup> string \<times> goint" where
  "anns o' = map_of (no_anns o')"

definition net_inv :: "netos \<Rightarrow> bool" where
  "net_inv o' \<longleftrightarrow> (\<forall>k p. listeners o' k = Some p \<longrightarrow> k < no_next o') \<and> (\<forall>k a. anns o' k = Some a \<longrightarrow> k < no_next o')"

lemmas net_defs = open_listener_def close_listener_def open_ann_def close_ann_def listeners_def anns_def net_inv_def

lemma net_fresh: "net_inv o' \<Longrightarrow> anns o' (no_next o') = None"
  unfolding net_inv_def by (metis less_irrefl not_None_eq)

interpretation lns: session_registry open_listener close_listener listeners net_inv "\<lambda>_. True"
  by unfold_locales (auto simp: net_defs less_Suc_eq split: if_splits)

interpretation ann: session_registry open_ann close_ann anns net_inv "\<lambda>_. True"
  by unfold_locales (use net_fresh in \<open>auto simp: net_defs less_Suc_eq split: if_splits\<close>)

lemma net_frame [simp]:
  "anns (close_listener o' l) = anns o'" "listeners (close_ann o' z) = listeners o'"
  "open_listener o' p = (o1, l) \<Longrightarrow> anns o1 = anns o'"
  "open_ann o' a = (o1, z) \<Longrightarrow> listeners o1 = listeners o'"
  by (auto simp: net_defs)

text \<open>\<open>net.Listen\<close>: the port must be one the machine lets us have and not one we hold open.\<close>

definition net_listen :: "(goint \<Rightarrow> bool) \<Rightarrow> netos \<Rightarrow> goint \<Rightarrow> (netos \<times> nat) option" where
  "net_listen can o' p = (if can p \<and> p \<notin> snd ` set (no_listeners o') then Some (open_listener o' p) else None)"

subsection \<open>The controller\<close>

definition wantStandalone :: "bool \<Rightarrow> bool" where
  "wantStandalone serviceRunning = (\<not> serviceRunning)"

definition needsRebind :: "serverConfig \<Rightarrow> serverConfig \<Rightarrow> bool" where
  "needsRebind old new = (sc_Port old \<noteq> sc_Port new)"

definition needsReannounce :: "serverConfig \<Rightarrow> serverConfig \<Rightarrow> bool" where
  "needsReannounce old new = (sc_Port old \<noteq> sc_Port new \<or> sc_Name old \<noteq> sc_Name new)"

text \<open>The fields of \<open>Server\<close> the controller sets: password and name.\<close>

record servingController =
  ct_cfg :: serverConfig
  ct_srv :: "(string \<times> string) option"
  ct_ln :: "nat option"
  ct_zc :: "nat option"
  ct_running :: bool

definition newServingController :: "serverConfig \<Rightarrow> servingController" where
  "newServingController cfg = \<lparr>ct_cfg = cfg, ct_srv = None, ct_ln = None, ct_zc = None, ct_running = False\<rparr>"

text \<open>\<open>announceMDNS\<close> gives nil when the registration fails.\<close>

definition announce :: "bool \<Rightarrow> netos \<Rightarrow> serverConfig \<Rightarrow> netos \<times> nat option" where
  "announce ok o' cfg =
    (if ok then (case open_ann o' (sc_Name cfg, sc_Port cfg) of (o1, z) \<Rightarrow> (o1, Some z)) else (o', None))"

definition shutdown_opt :: "netos \<Rightarrow> nat option \<Rightarrow> netos" where
  "shutdown_opt o' z = (case z of None \<Rightarrow> o' | Some k \<Rightarrow> close_ann o' k)"

definition close_opt :: "netos \<Rightarrow> nat option \<Rightarrow> netos" where
  "close_opt o' l = (case l of None \<Rightarrow> o' | Some k \<Rightarrow> close_listener o' k)"

definition Start :: "(goint \<Rightarrow> bool) \<Rightarrow> bool \<Rightarrow> servingController \<times> netos \<Rightarrow> (servingController \<times> netos) \<times> bool" where
  "Start can ann_ok = (\<lambda>(c, o').
    if ct_running c then ((c, o'), True)
    else
      let c = c\<lparr>ct_srv := Some (sc_Password (ct_cfg c), sc_Name (ct_cfg c))\<rparr> in
      case net_listen can o' (sc_Port (ct_cfg c)) of
        None \<Rightarrow> ((c, o'), False)
      | Some (o1, l) \<Rightarrow>
          (case announce ann_ok o1 (ct_cfg c) of (o2, z) \<Rightarrow>
            ((c\<lparr>ct_ln := Some l, ct_zc := z, ct_running := True\<rparr>, o2), True)))"

definition Stop :: "servingController \<times> netos \<Rightarrow> servingController \<times> netos" where
  "Stop = (\<lambda>(c, o').
    if \<not> ct_running c then (c, o')
    else
      let o1 = shutdown_opt o' (ct_zc c); o2 = close_opt o1 (ct_ln c)
      in (c\<lparr>ct_zc := None, ct_ln := None, ct_running := False\<rparr>, o2))"

definition Apply :: "(goint \<Rightarrow> bool) \<Rightarrow> bool \<Rightarrow> serverConfig \<Rightarrow> servingController \<times> netos \<Rightarrow> servingController \<times> netos" where
  "Apply can ann_ok nc = (\<lambda>(c, o').
    let old = ct_cfg c; c = c\<lparr>ct_cfg := nc\<rparr> in
    if \<not> ct_running c then (c, o')
    else
      let c = c\<lparr>ct_srv := Some (sc_Password nc, sc_Name nc)\<rparr>;
          reannounce = (\<lambda>(c, o').
            if needsReannounce old nc
            then (case announce ann_ok (shutdown_opt o' (ct_zc c)) (ct_cfg c) of (o1, z) \<Rightarrow> (c\<lparr>ct_zc := z\<rparr>, o1))
            else (c, o'))
      in if needsRebind old nc
         then let o1 = close_opt o' (ct_ln c) in
           (case net_listen can o1 (sc_Port nc) of
              Some (o2, l) \<Rightarrow> reannounce (c\<lparr>ct_ln := Some l\<rparr>, o2)
            | None \<Rightarrow>
                (case net_listen can o1 (sc_Port old) of
                   Some (o2, l2) \<Rightarrow>
                     (c\<lparr>ct_ln := Some l2, ct_cfg := nc\<lparr>sc_Port := sc_Port old, sc_Name := sc_Name old\<rparr>,
                        ct_srv := Some (sc_Password nc, sc_Name old)\<rparr>, o2)
                 | None \<Rightarrow> (c\<lparr>ct_ln := None, ct_running := False\<rparr>, o1)))
         else reannounce (c, o'))"

text \<open>The caller hands over an \<open>appConfig\<close>, of which three fields are kept.\<close>

definition serverConfig_of :: "appConfig \<Rightarrow> serverConfig" where
  "serverConfig_of next = \<lparr>sc_Password = ac_pass next, sc_Port = ac_port next, sc_Name = ac_name next\<rparr>"

definition isRunning :: "servingController \<Rightarrow> bool" where
  "isRunning c = ct_running c"

definition announceCfg :: "servingController \<Rightarrow> appConfig" where
  "announceCfg c = zero_config\<lparr>ac_name := sc_Name (ct_cfg c), ac_port := sc_Port (ct_cfg c)\<rparr>"

definition listenAddr :: "goint \<Rightarrow> string" where
  "listenAddr port = '':'' @ Itoa port"

subsection \<open>Invariant\<close>

text \<open>
  While running: one listener, on the configured port; an announcement, if any, of the
  configured name and port, and no other; the server's password and name are the configured
  ones.  While stopped: no listener.  \<open>clean\<close> is what a stopped controller also owes: no
  announcement.
\<close>

definition ann_of :: "nat option \<Rightarrow> string \<times> goint \<Rightarrow> nat \<rightharpoonup> string \<times> goint" where
  "ann_of z a = (case z of None \<Rightarrow> Map.empty | Some k \<Rightarrow> [k \<mapsto> a])"

lemma ann_of_simps [simp]: "ann_of None a = Map.empty" "ann_of (Some k) a = [k \<mapsto> a]"
  by (simp_all add: ann_of_def)

definition ctl_inv :: "servingController \<times> netos \<Rightarrow> bool" where
  "ctl_inv = (\<lambda>(c, o'). net_inv o' \<and>
     (if ct_running c
      then (\<exists>l. ct_ln c = Some l \<and> listeners o' = [l \<mapsto> sc_Port (ct_cfg c)]) \<and>
           ct_srv c = Some (sc_Password (ct_cfg c), sc_Name (ct_cfg c)) \<and>
           anns o' = ann_of (ct_zc c) (sc_Name (ct_cfg c), sc_Port (ct_cfg c))
      else ct_ln c = None \<and> listeners o' = Map.empty))"

definition clean :: "servingController \<times> netos \<Rightarrow> bool" where
  "clean = (\<lambda>(c, o'). ct_running c \<or> ct_zc c = None \<and> anns o' = Map.empty)"

lemma listeners_image: "listeners o' = Map.empty \<Longrightarrow> no_listeners o' = []"
  by (cases "no_listeners o'") (auto simp: listeners_def split: if_splits prod.splits) 

lemma net_listen_empty:
  "listeners o' = Map.empty \<Longrightarrow> net_listen can o' p = (if can p then Some (open_listener o' p) else None)"
  by (simp add: net_listen_def listeners_image)

lemma open_listener_empty:
  assumes "listeners o' = Map.empty" and "net_inv o'" and "open_listener o' p = (o1, l)"
  shows "listeners o1 = [l \<mapsto> p]" and "net_inv o1"
  using lns.reg_live [OF assms(2) TrueI assms(3)] lns.reg_inv [OF assms(2) TrueI assms(3)] assms(1) by simp_all

lemma announce_cases:
  assumes "net_inv o'" and "anns o' = Map.empty" and "announce ok o' cfg = (o1, z)"
  shows "net_inv o1 \<and> listeners o1 = listeners o' \<and>
     anns o1 = ann_of z (sc_Name cfg, sc_Port cfg)"
proof (cases ok)
  case True
  obtain o2 k where o: "open_ann o' (sc_Name cfg, sc_Port cfg) = (o2, k)" by fastforce
  with True assms(3) have "o1 = o2" "z = Some k" by (simp_all add: announce_def)
  then show ?thesis
    using ann.reg_live [OF assms(1) TrueI o] ann.reg_inv [OF assms(1) TrueI o] assms(2) o by simp
next
  case False
  with assms show ?thesis by (simp add: announce_def)
qed

lemma shutdown_opt_cases:
  assumes "net_inv o'" and "anns o' = ann_of z a"
  shows "net_inv (shutdown_opt o' z) \<and> listeners (shutdown_opt o' z) = listeners o' \<and> anns (shutdown_opt o' z) = Map.empty"
  using assms by (cases z) (simp_all add: shutdown_opt_def ann.dereg_inv ann.dereg_live)

lemma close_opt_cases:
  assumes "net_inv o'" and "listeners o' = [l \<mapsto> p]"
  shows "net_inv (close_opt o' (Some l)) \<and> listeners (close_opt o' (Some l)) = Map.empty \<and> anns (close_opt o' (Some l)) = anns o'"
  using assms by (simp add: close_opt_def lns.dereg_inv lns.dereg_live)

lemma ctl_inv_new: "ctl_inv (newServingController cfg, net_init) \<and> clean (newServingController cfg, net_init)"
  by (simp add: ctl_inv_def clean_def newServingController_def net_init_def net_defs)

lemma Start_inv:
  assumes "ctl_inv (c, o')" and "clean (c, o')" and "Start can ann_ok (c, o') = ((c', o1), ok)"
  shows "ctl_inv (c', o1) \<and> clean (c', o1)" and "ok \<longleftrightarrow> ct_running c'"
proof -
  have "(ctl_inv (c', o1) \<and> clean (c', o1)) \<and> (ok \<longleftrightarrow> ct_running c')"
  proof (cases "ct_running c")
    case True
    with assms show ?thesis by (auto simp: Start_def)
  next
    case False
    then have I: "net_inv o'" "listeners o' = Map.empty" "anns o' = Map.empty" "ct_ln c = None" "ct_zc c = None"
      using assms(1,2) by (simp_all add: ctl_inv_def clean_def)
    show ?thesis
    proof (cases "can (sc_Port (ct_cfg c))")
      case False
      with assms(3) I \<open>\<not> ct_running c\<close> show ?thesis
        by (auto simp: Start_def net_listen_empty Let_def ctl_inv_def clean_def)
    next
      case True
      obtain o2 l where o2: "open_listener o' (sc_Port (ct_cfg c)) = (o2, l)" by fastforce
      obtain o3 z where o3: "announce ann_ok o2 (ct_cfg c) = (o3, z)" by fastforce
      note L = open_listener_empty [OF I(2) I(1) o2]
      have "anns o2 = Map.empty" using I(3) o2 by simp
      from announce_cases [OF L(2) this o3] L True assms(3) I \<open>\<not> ct_running c\<close> o2 o3
      show ?thesis by (auto simp: Start_def net_listen_empty Let_def ctl_inv_def clean_def)
    qed
  qed
  then show "ctl_inv (c', o1) \<and> clean (c', o1)" and "ok \<longleftrightarrow> ct_running c'" by blast+
qed

lemma Stop_inv:
  assumes "ctl_inv (c, o')" and "clean (c, o')"
  shows "ctl_inv (Stop (c, o')) \<and> clean (Stop (c, o')) \<and> \<not> ct_running (fst (Stop (c, o')))"
proof (cases "ct_running c")
  case True
  with assms(1) obtain l where I: "net_inv o'" "ct_ln c = Some l" "listeners o' = [l \<mapsto> sc_Port (ct_cfg c)]"
    "anns o' = ann_of (ct_zc c) (sc_Name (ct_cfg c), sc_Port (ct_cfg c))"
    by (auto simp: ctl_inv_def)
  note S = shutdown_opt_cases [OF I(1) I(4)]
  have "listeners (shutdown_opt o' (ct_zc c)) = [l \<mapsto> sc_Port (ct_cfg c)]" using S I(3) by simp
  from close_opt_cases [OF conjunct1 [OF S] this] S I(2) True
  show ?thesis by (simp add: Stop_def Let_def ctl_inv_def clean_def)
next
  case False
  with assms show ?thesis by (simp add: Stop_def)
qed

text \<open>Both binds fail: the one way \<open>Apply\<close> ends stopped although it was running.\<close>

definition both_fail :: "(goint \<Rightarrow> bool) \<Rightarrow> serverConfig \<Rightarrow> servingController \<Rightarrow> bool" where
  "both_fail can nc c \<longleftrightarrow> ct_running c \<and> needsRebind (ct_cfg c) nc \<and> \<not> can (sc_Port nc) \<and> \<not> can (sc_Port (ct_cfg c))"

lemma Apply_inv:
  assumes "ctl_inv (c, o')"
  shows "ctl_inv (Apply can ann_ok nc (c, o'))"
    and "clean (c, o') \<Longrightarrow> \<not> both_fail can nc c \<Longrightarrow> clean (Apply can ann_ok nc (c, o'))"
    and "ct_running (fst (Apply can ann_ok nc (c, o'))) \<longleftrightarrow> ct_running c \<and> \<not> both_fail can nc c"
proof -
  have "ctl_inv (Apply can ann_ok nc (c, o')) \<and> (clean (c, o') \<longrightarrow> \<not> both_fail can nc c \<longrightarrow> clean (Apply can ann_ok nc (c, o'))) \<and>
    (ct_running (fst (Apply can ann_ok nc (c, o'))) \<longleftrightarrow> ct_running c \<and> \<not> both_fail can nc c)"
  proof (cases "ct_running c")
    case False
    with assms show ?thesis by (auto simp: Apply_def Let_def ctl_inv_def clean_def both_fail_def)
  next
    case True
    with assms obtain l where I: "net_inv o'" "ct_ln c = Some l" "listeners o' = [l \<mapsto> sc_Port (ct_cfg c)]"
      "anns o' = ann_of (ct_zc c) (sc_Name (ct_cfg c), sc_Port (ct_cfg c))"
      by (auto simp: ctl_inv_def)
    show ?thesis
    proof (cases "needsRebind (ct_cfg c) nc")
      case rebind: True
      let ?o1 = "close_opt o' (Some l)"
      note C = close_opt_cases [OF I(1,3)]
      have re: "needsReannounce (ct_cfg c) nc" using rebind by (simp add: needsRebind_def needsReannounce_def)
      show ?thesis
      proof (cases "can (sc_Port nc)")
        case new: True
        obtain o2 k where o2: "open_listener ?o1 (sc_Port nc) = (o2, k)" by fastforce
        note L = open_listener_empty [OF _ _ o2] 
        have "anns o2 = ann_of (ct_zc c) (sc_Name (ct_cfg c), sc_Port (ct_cfg c))"
          using C I(4) o2 by simp
        note S = shutdown_opt_cases [OF L(2) this]
        obtain o3 z where o3: "announce ann_ok (shutdown_opt o2 (ct_zc c)) nc = (o3, z)" by fastforce
        from announce_cases [OF _ _ o3] S L C True rebind re new I(2) o2 o3 show ?thesis
          by (simp add: Apply_def Let_def net_listen_empty ctl_inv_def clean_def both_fail_def)
      next
        case new: False
        show ?thesis
        proof (cases "can (sc_Port (ct_cfg c))")
          case True
          obtain o2 k where o2: "open_listener ?o1 (sc_Port (ct_cfg c)) = (o2, k)" by fastforce
          from open_listener_empty [OF _ _ o2] C \<open>ct_running c\<close> rebind new True I(2,4) o2 show ?thesis
            by (simp add: Apply_def Let_def net_listen_empty ctl_inv_def clean_def both_fail_def)
        next
          case False
          with C \<open>ct_running c\<close> rebind new I(2) show ?thesis
            by (simp add: Apply_def Let_def net_listen_empty ctl_inv_def clean_def both_fail_def)
        qed
      qed
    next
      case same: False
      then have port: "sc_Port (ct_cfg c) = sc_Port nc" by (simp add: needsRebind_def)
      show ?thesis
      proof (cases "needsReannounce (ct_cfg c) nc")
        case True
        note S = shutdown_opt_cases [OF I(1,4)]
        obtain o3 z where o3: "announce ann_ok (shutdown_opt o' (ct_zc c)) nc = (o3, z)" by fastforce
        from announce_cases [OF _ _ o3] S \<open>ct_running c\<close> same port True I(2,3) o3 show ?thesis
          by (simp add: Apply_def Let_def ctl_inv_def clean_def both_fail_def)
      next
        case False
        then have "sc_Name (ct_cfg c) = sc_Name nc" by (simp add: needsReannounce_def)
        with False \<open>ct_running c\<close> same port I show ?thesis
          by (simp add: Apply_def Let_def ctl_inv_def clean_def both_fail_def)
      qed
    qed
  qed
  then show "ctl_inv (Apply can ann_ok nc (c, o'))"
    and "clean (c, o') \<Longrightarrow> \<not> both_fail can nc c \<Longrightarrow> clean (Apply can ann_ok nc (c, o'))"
    and "ct_running (fst (Apply can ann_ok nc (c, o'))) \<longleftrightarrow> ct_running c \<and> \<not> both_fail can nc c" by blast+
qed

text \<open>What is left after both binds failed: stopped, yet still announced.\<close>

lemma Apply_both_fail:
  assumes "ctl_inv (c, o')" and "both_fail can nc c" and "ct_zc c = Some z"
  shows "anns (snd (Apply can ann_ok nc (c, o'))) = [z \<mapsto> (sc_Name (ct_cfg c), sc_Port (ct_cfg c))]"
    and "ct_zc (fst (Apply can ann_ok nc (c, o'))) = Some z"
    and "\<not> ct_running (fst (Apply can ann_ok nc (c, o')))"
proof -
  from assms obtain l where I: "net_inv o'" "ct_ln c = Some l" "listeners o' = [l \<mapsto> sc_Port (ct_cfg c)]"
    "anns o' = [z \<mapsto> (sc_Name (ct_cfg c), sc_Port (ct_cfg c))]"
    by (auto simp: ctl_inv_def both_fail_def)
  from close_opt_cases [OF I(1,3)] I assms(2,3)
  show "anns (snd (Apply can ann_ok nc (c, o'))) = [z \<mapsto> (sc_Name (ct_cfg c), sc_Port (ct_cfg c))]"
    and "ct_zc (fst (Apply can ann_ok nc (c, o'))) = Some z"
    and "\<not> ct_running (fst (Apply can ann_ok nc (c, o')))"
    by (simp_all add: Apply_def Let_def net_listen_empty both_fail_def)
qed

text \<open>
  Serving a configuration: running with it, one listener open, on its port, held by the controller, the server
  with its password and name, and no announcement but its own.
\<close>

definition serves :: "servingController \<times> netos \<Rightarrow> serverConfig \<Rightarrow> bool" where
  "serves = (\<lambda>(c, o') cfg.
     ct_running c \<and> ct_cfg c = cfg \<and> ct_srv c = Some (sc_Password cfg, sc_Name cfg) \<and>
     (\<exists>l. ct_ln c = Some l \<and> listeners o' = [l \<mapsto> sc_Port cfg]) \<and>
     anns o' = ann_of (ct_zc c) (sc_Name cfg, sc_Port cfg))"

lemma serves_inv: "ctl_inv s \<Longrightarrow> ct_running (fst s) \<Longrightarrow> ct_cfg (fst s) = cfg \<Longrightarrow> serves s cfg"
  by (cases s) (auto simp: serves_def ctl_inv_def)

lemma Apply_rollback:
  assumes "ctl_inv (c, o')" and "ct_running c" and "needsRebind (ct_cfg c) nc" and "\<not> can (sc_Port nc)" and "can (sc_Port (ct_cfg c))"
  shows "ct_cfg (fst (Apply can ok nc (c, o'))) = nc\<lparr>sc_Port := sc_Port (ct_cfg c), sc_Name := sc_Name (ct_cfg c)\<rparr> \<and>
    anns (snd (Apply can ok nc (c, o'))) = anns o'"
proof -
  obtain l where I: "net_inv o'" "ct_ln c = Some l" "listeners o' = [l \<mapsto> sc_Port (ct_cfg c)]"
    using assms(1,2) by (auto simp: ctl_inv_def)
  obtain o2 k where "open_listener (close_opt o' (Some l)) (sc_Port (ct_cfg c)) = (o2, k)" by fastforce
  with close_opt_cases [OF I(1,3)] I(2) assms(2-5) show ?thesis by (simp add: Apply_def Let_def net_listen_empty)
qed

lemma Apply_taken:
  assumes "ctl_inv (c, o')" and "ct_running c" and "needsRebind (ct_cfg c) nc \<longrightarrow> can (sc_Port nc)"
  shows "ct_cfg (fst (Apply can ok nc (c, o'))) = nc \<and>
    (\<not> needsRebind (ct_cfg c) nc \<longrightarrow> listeners (snd (Apply can ok nc (c, o'))) = listeners o')"
proof -
  obtain l where I: "net_inv o'" "ct_ln c = Some l" "listeners o' = [l \<mapsto> sc_Port (ct_cfg c)]"
    "anns o' = ann_of (ct_zc c) (sc_Name (ct_cfg c), sc_Port (ct_cfg c))"
    using assms(1,2) by (auto simp: ctl_inv_def)
  note S = shutdown_opt_cases [OF I(1,4)] and C = close_opt_cases [OF I(1,3)]
  obtain o2 k where o2: "open_listener (close_opt o' (Some l)) (sc_Port nc) = (o2, k)" by fastforce
  obtain o3 z where o3: "announce ok (shutdown_opt o' (ct_zc c)) nc = (o3, z)" by fastforce
  from announce_cases [OF _ _ o3] S have "listeners o3 = listeners o'" by simp
  with C I(2) assms(2,3) o2 o3 show ?thesis
    by (cases "needsRebind (ct_cfg c) nc"; simp add: Apply_def Let_def net_listen_empty split: prod.splits)
qed

text \<open>A start from a stopped state with an announcement left never closes that announcement.\<close>

lemma Start_orphan:
  assumes "ctl_inv (c, o')" and "\<not> ct_running c" and "Start can True (c, o') = ((c', o1), r)" and "anns o' z \<noteq> None" and r
  shows "ct_zc c' \<noteq> Some z \<and> anns o1 z \<noteq> None \<and> anns (snd (Stop (c', o1))) z \<noteq> None"
proof -
  have I: "net_inv o'" "listeners o' = Map.empty" using assms(1,2) by (simp_all add: ctl_inv_def)
  have can: "can (sc_Port (ct_cfg c))"
    using assms(2,3,5) I(2) by (auto simp: Start_def Let_def net_listen_empty split: if_splits)
  obtain o2 l where o2: "open_listener o' (sc_Port (ct_cfg c)) = (o2, l)" by fastforce
  obtain o3 k where o3: "open_ann o2 (sc_Name (ct_cfg c), sc_Port (ct_cfg c)) = (o3, k)" by fastforce
  have n2: "net_inv o2" using open_listener_empty(2) [OF I(2) I(1) o2] .
  have c': "c' = c\<lparr>ct_srv := Some (sc_Password (ct_cfg c), sc_Name (ct_cfg c)), ct_ln := Some l, ct_zc := Some k, ct_running := True\<rparr>"
    and o1: "o1 = o3"
    using assms(2,3) I(2) can o2 o3 by (auto simp: Start_def Let_def net_listen_empty announce_def)
  have a2: "anns o2 = anns o'" using o2 by simp
  have "anns o2 k = None" by (rule ann.reg_fresh [OF n2 TrueI o3])
  then have k: "k \<noteq> z" using assms(4) a2 by auto
  have "anns o3 = (anns o2)(k \<mapsto> (sc_Name (ct_cfg c), sc_Port (ct_cfg c)))" by (rule ann.reg_live [OF n2 TrueI o3])
  moreover have "net_inv o3" by (rule ann.reg_inv [OF n2 TrueI o3])
  ultimately show ?thesis
    using k assms(4) a2 by (simp add: c' o1 Stop_def Let_def shutdown_opt_def close_opt_def ann.dereg_live)
qed

subsection \<open>Runs\<close>

text \<open>What the status ticker and the settings dialog do to the controller over time.\<close>

datatype ctl_op =
    OpStart "goint list" bool
  | OpStop
  | OpApply "goint list" bool serverConfig

text \<open>The first argument of a bind is the list of ports the machine lets us have at that moment.\<close>

fun ctl_step :: "ctl_op \<Rightarrow> servingController \<times> netos \<Rightarrow> servingController \<times> netos" where
  "ctl_step (OpStart ports ok) s = fst (Start (\<lambda>p. p \<in> set ports) ok s)"
| "ctl_step OpStop s = Stop s"
| "ctl_step (OpApply ports ok nc) s = Apply (\<lambda>p. p \<in> set ports) ok nc s"

text \<open>No reconfiguration of the run finds both the new and the old port taken.\<close>

fun no_double_failure :: "ctl_op list \<Rightarrow> servingController \<times> netos \<Rightarrow> bool" where
  "no_double_failure [] s = True"
| "no_double_failure (op # ops) s =
    ((case op of OpApply ports ok nc \<Rightarrow> \<not> both_fail (\<lambda>p. p \<in> set ports) nc (fst s) | _ \<Rightarrow> True) \<and>
     no_double_failure ops (ctl_step op s))"

lemma ctl_step_inv:
  assumes "ctl_inv s" and "clean s" and "no_double_failure [op] s"
  shows "ctl_inv (ctl_step op s) \<and> clean (ctl_step op s)"
proof (cases s)
  case (Pair c o')
  show ?thesis
  proof (cases op)
    case (OpStart ports ok)
    obtain c' o1 r where "Start (\<lambda>p. p \<in> set ports) ok (c, o') = ((c', o1), r)" by (metis prod.exhaust)
    with Start_inv(1) [OF _ _ this] assms Pair OpStart show ?thesis by simp
  next
    case OpStop
    with Stop_inv [of c o'] assms Pair show ?thesis by simp
  next
    case (OpApply ports ok nc)
    with Apply_inv(1) [of c o' "\<lambda>p. p \<in> set ports" ok nc] Apply_inv(2) [of c o' "\<lambda>p. p \<in> set ports" nc ok] assms Pair show ?thesis by simp
  qed
qed

lemma ctl_run_inv:
  "ctl_inv s \<Longrightarrow> clean s \<Longrightarrow> no_double_failure ops s \<Longrightarrow> ctl_inv (fold ctl_step ops s) \<and> clean (fold ctl_step ops s)"
proof (induction ops arbitrary: s)
  case (Cons op ops)
  then have "ctl_inv (ctl_step op s) \<and> clean (ctl_step op s)" by (intro ctl_step_inv) simp_all
  with Cons show ?case by simp
qed simp

end
