(* ===== verification/Monitor.thy ===== *)
theory Monitor
  imports Clients
begin

text \<open>
  desktop_windows.go and the agent monitor of service_windows.go: which desktops need an agent,
  and the loop that starts, reaps and stops agents and points the pipe injector at the live
  ones.  Processes, handles and pipe connections are the machine's, kept in a ghost part of
  the state, so that what is still open is visible.  Whether a token, a process or a
  connection can be had is an argument of the tick.  \<open>mo_stale\<close> counts the \<open>Accept\<close>
  goroutines of \<open>acceptWithTimeout\<close> that were given up on and still wait: the listener ends the
  oldest one waiting, with the next connection - of the agent it was meant for, when that is late, or of any
  other - or with an error.  \<open>mo_lost\<close> holds the connections that ended up there.
\<close>

subsection \<open>desktop_windows.go\<close>

definition wtsStateLock :: int32 where "wtsStateLock = 0"

definition desktopForFlags :: "int32 \<Rightarrow> string" where
  "desktopForFlags flags = (if flags = wtsStateLock then ''Winlogon'' else ''Default'')"

definition desiredDesktops :: "int32 \<Rightarrow> string list" where
  "desiredDesktops flags =
    (let primary = desktopForFlags flags in
     if flags = wtsStateLock then [''Default'', primary] else [primary])"

text \<open>\<open>alive\<close> lists the keys of a Go map in its iteration order; \<open>start\<close> keeps the order of \<open>want\<close>.\<close>

definition planAgents :: "string list \<Rightarrow> string list \<Rightarrow> string list \<times> string list" where
  "planAgents alive want = (filter (\<lambda>d. d \<notin> set want) alive, filter (\<lambda>d. d \<notin> set alive) want)"

datatype tokenStrategy = TokenUser | TokenWinlogon

definition tokenStrategyFor :: "string \<Rightarrow> tokenStrategy" where
  "tokenStrategyFor desktop = (if desktop = ''Default'' then TokenUser else TokenWinlogon)"

lemma desiredDesktops_distinct: "distinct (desiredDesktops flags)"
  by (simp add: desiredDesktops_def desktopForFlags_def Let_def)

lemma set_desiredDesktops: "set (desiredDesktops flags) = (if flags = 0 then {''Default'', ''Winlogon''} else {''Default''})"
  by (simp add: desiredDesktops_def desktopForFlags_def wtsStateLock_def Let_def)

lemma planAgents_result:
  assumes "planAgents alive want = (stop, start)"
  shows "set alive - set stop \<union> set start = set want"
    and "set stop \<inter> set want = {}" and "set start \<inter> set alive = {}"
  using assms by (auto simp: planAgents_def)

subsection \<open>The monitor\<close>

record agentProc =
  ap_h :: nat
  ap_conn :: "nat option"

record monitor =
  mo_curSess :: uint32
  mo_agents :: "(string \<times> agentProc) list"
  mo_writer :: "nat list option"
  mo_next :: nat
  mo_procs :: "nat list"
  mo_conns :: "nat list"
  mo_stale :: nat
  mo_lost :: "nat list"

definition mon_init :: monitor where
  "mon_init = \<lparr>mo_curSess = 0, mo_agents = [], mo_writer = None, mo_next = 1, mo_procs = [], mo_conns = [], mo_stale = 0, mo_lost = []\<rparr>"

text \<open>
  What the machine answers a spawn: the token, the process, and how the waiting calls of \<open>Accept\<close> that
  end within the five seconds end, in order.
\<close>

datatype accept_reply = Connected | AcceptFailed

record spawn_env =
  se_token :: bool
  se_spawn :: bool
  se_accepts :: "accept_reply list"

definition procAlive :: "nat set \<Rightarrow> nat \<Rightarrow> bool" where
  "procAlive dead h = (h \<noteq> 0 \<and> h \<notin> dead)"

text \<open>The ghost side of \<open>conn.Close\<close> and of \<open>TerminateProcess\<close> with \<open>CloseHandle\<close>.\<close>

definition close_conn :: "nat option \<Rightarrow> monitor \<Rightarrow> monitor" where
  "close_conn c m = (case c of None \<Rightarrow> m | Some k \<Rightarrow> m\<lparr>mo_conns := filter (\<lambda>x. x \<noteq> k) (mo_conns m)\<rparr>)"

definition end_proc :: "nat \<Rightarrow> monitor \<Rightarrow> monitor" where
  "end_proc h m = (if h \<noteq> 0 then m\<lparr>mo_procs := filter (\<lambda>x. x \<noteq> h) (mo_procs m)\<rparr> else m)"

text \<open>The end of one \<open>Accept\<close>: a connection the process has from then on, or an error.\<close>

fun accept_end :: "accept_reply \<Rightarrow> monitor \<Rightarrow> monitor \<times> nat option" where
  "accept_end Connected m =
    (m\<lparr>mo_next := Suc (mo_next m), mo_conns := mo_next m # mo_conns m\<rparr>, Some (mo_next m))"
| "accept_end AcceptFailed m = (m, None)"

text \<open>The result of one that was given up on goes into a channel nobody reads.\<close>

definition late_accept :: "accept_reply \<Rightarrow> monitor \<Rightarrow> monitor" where
  "late_accept r m =
    (if mo_stale m = 0 then m
     else case accept_end r m of
         (m1, c) \<Rightarrow> m1\<lparr>mo_stale := mo_stale m - 1, mo_lost := (case c of None \<Rightarrow> [] | Some k \<Rightarrow> [k]) @ mo_lost m\<rparr>)"

fun acceptWithTimeout :: "accept_reply list \<Rightarrow> monitor \<Rightarrow> monitor \<times> nat option" where
  "acceptWithTimeout [] m = (m\<lparr>mo_stale := Suc (mo_stale m)\<rparr>, None)"
| "acceptWithTimeout (r # rs) m =
    (if mo_stale m = 0 then accept_end r m else acceptWithTimeout rs (late_accept r m))"

definition spawnOne :: "(string \<Rightarrow> spawn_env) \<Rightarrow> string \<Rightarrow> monitor \<Rightarrow> monitor" where
  "spawnOne env desk m =
    (if \<not> se_token (env desk) then m
     else if \<not> se_spawn (env desk) then m
     else
       let h = mo_next m; m1 = m\<lparr>mo_next := Suc h, mo_procs := h # mo_procs m\<rparr> in
       case acceptWithTimeout (se_accepts (env desk)) m1 of
         (m2, None) \<Rightarrow> end_proc h m2
       | (m2, Some c) \<Rightarrow> m2\<lparr>mo_agents := go_insert desk \<lparr>ap_h = h, ap_conn = Some c\<rparr> (mo_agents m2)\<rparr>)"

definition stopAgent :: "string \<Rightarrow> monitor \<Rightarrow> monitor" where
  "stopAgent desk m =
    (case map_of (mo_agents m) desk of
       None \<Rightarrow> m
     | Some ap \<Rightarrow> end_proc (ap_h ap) (close_conn (ap_conn ap) (m\<lparr>mo_agents := go_delete desk (mo_agents m)\<rparr>)))"

definition killAll :: "monitor \<Rightarrow> monitor" where
  "killAll m =
    (let m1 = fold (\<lambda>(_, ap) m. end_proc (ap_h ap) (close_conn (ap_conn ap) m)) (mo_agents m) (m\<lparr>mo_agents := []\<rparr>)
     in m1\<lparr>mo_writer := None\<rparr>)"

definition rebindWriters :: "monitor \<Rightarrow> monitor" where
  "rebindWriters m =
    (let ws = List.map_filter (\<lambda>(_, ap). ap_conn ap) (mo_agents m)
     in if ws = [] then m\<lparr>mo_writer := None\<rparr> else m\<lparr>mo_writer := Some ws\<rparr>)"

text \<open>
  The lock state cannot be asked of no session, or the query fails: a result of 0.  Otherwise it is
  the 32-bit number, least byte first, at offset 16 of the buffer.
\<close>

type_synonym wts_reply = "uint64 \<times> (nat \<Rightarrow> 8 word)"

definition read_int32 :: "(nat \<Rightarrow> 8 word) \<Rightarrow> nat \<Rightarrow> int32" where
  "read_int32 mem a =
    word_of_nat (unat (mem a) + 256 * (unat (mem (a + 1)) + 256 * (unat (mem (a + 2)) + 256 * unat (mem (a + 3)))))"

definition write_int32 :: "int32 \<Rightarrow> nat \<Rightarrow> nat \<Rightarrow> 8 word" where
  "write_int32 v a i = (if a \<le> i \<and> i < a + 4 then word_of_nat (unat v div 256 ^ (i - a)) else 0)"

lemma read_write_int32: "read_int32 (write_int32 v a) a = v"
proof -
  have step: "n mod 256 + 256 * (n div 256 mod k) = n mod (256 * k)" for n k :: nat
    by (simp add: mod_mult2_eq)
  have d: "unat v div 65536 = unat v div 256 div 256" "unat v div 16777216 = unat v div 256 div 256 div 256"
    by (simp_all add: div_mult2_eq [symmetric])
  have "unat v mod 256 + 256 * (unat v div 256 mod 256 + 256 * (unat v div 65536 mod 256 + 256 * (unat v div 16777216 mod 256))) =
      unat v mod (256 * (256 * (256 * 256)))"
    unfolding d step by (rule refl)
  also have "\<dots> = unat v" using unsigned_less [of v, where ?'a = nat] by simp
  finally have all: "unat v mod 256 + 256 * (unat v div 256 mod 256 + 256 * (unat v div 65536 mod 256 + 256 * (unat v div 16777216 mod 256))) =
      unat v" .
  have "unat (write_int32 v a a) = unat v mod 256" "unat (write_int32 v a (a + 1)) = unat v div 256 mod 256"
    "unat (write_int32 v a (a + 2)) = unat v div 65536 mod 256" "unat (write_int32 v a (a + 3)) = unat v div 16777216 mod 256"
    by (simp_all add: write_int32_def unat_of_nat unsigned_ucast_eq take_bit_eq_mod)
  then have "read_int32 (write_int32 v a) a = word_of_nat (unat v)"
    unfolding read_int32_def by (simp only: all)
  then show ?thesis by simp
qed

definition wtsNoSession :: uint32 where "wtsNoSession = 0xFFFFFFFF"

definition sessionLockState :: "uint32 \<Rightarrow> wts_reply \<Rightarrow> int32 option" where
  "sessionLockState sess query =
    (if sess = wtsNoSession then None
     else case query of (r, buf) \<Rightarrow> if r = 0 then None else Some (read_int32 buf 16))"

lemma sessionLockState_reply: "sess \<noteq> wtsNoSession \<Longrightarrow> sessionLockState sess (1, write_int32 flags 16) = Some flags"
  by (simp add: sessionLockState_def read_write_int32)

definition reconcile :: "uint32 \<Rightarrow> wts_reply \<Rightarrow> nat set \<Rightarrow> (string \<Rightarrow> spawn_env) \<Rightarrow> monitor \<Rightarrow> monitor" where
  "reconcile sess query died env m =
    (case sessionLockState sess query of
       None \<Rightarrow> m
     | Some flags \<Rightarrow>
         let want = desiredDesktops flags;
             sessChanged = (sess \<noteq> mo_curSess m);
             m1 = (if sessChanged then (killAll m)\<lparr>mo_curSess := sess\<rparr> else m);
             alive = map fst (filter (\<lambda>(_, ap). procAlive died (ap_h ap)) (mo_agents m1));
             dead = map fst (filter (\<lambda>(_, ap). \<not> procAlive died (ap_h ap)) (mo_agents m1));
             m2 = fold stopAgent dead m1;
             (stop, start) = planAgents alive want;
             changed = (sessChanged \<or> dead \<noteq> [] \<or> stop \<noteq> [] \<or> start \<noteq> []);
             m3 = fold stopAgent stop m2;
             m4 = fold (spawnOne env) start m3
         in if changed then rebindWriters m4 else m4)"

subsection \<open>What the monitor keeps\<close>

text \<open>
  Every process the monitor started and has not terminated, and every connection it accepted
  and has not closed, belongs to exactly one agent of its table - except the connections
  handed to an \<open>Accept\<close> that was given up on, which nobody closes.
\<close>

abbreviation table :: "monitor \<Rightarrow> string \<rightharpoonup> agentProc" where
  "table m \<equiv> map_of (mo_agents m)"

definition procs_of :: "(string \<rightharpoonup> agentProc) \<Rightarrow> nat set" where
  "procs_of T = ap_h ` ran T"

definition conns_of :: "(string \<rightharpoonup> agentProc) \<Rightarrow> nat set" where
  "conns_of T = {c. \<exists>ap \<in> ran T. ap_conn ap = Some c}"

definition tab_inv :: "(string \<rightharpoonup> agentProc) \<Rightarrow> bool" where
  "tab_inv T \<longleftrightarrow> (\<forall>d ap. T d = Some ap \<longrightarrow> 0 < ap_h ap \<and> ap_conn ap \<noteq> None) \<and>
     (\<forall>d d' ap ap'. T d = Some ap \<longrightarrow> T d' = Some ap' \<longrightarrow> ap_h ap = ap_h ap' \<or> ap_conn ap = ap_conn ap' \<longrightarrow> d = d')"

definition conn_inv :: "monitor \<Rightarrow> bool" where
  "conn_inv m \<longleftrightarrow>
     set (mo_conns m) = conns_of (table m) \<union> set (mo_lost m) \<and> conns_of (table m) \<inter> set (mo_lost m) = {} \<and>
     (\<forall>k \<in> set (mo_conns m). k < mo_next m)"

definition mon_inv :: "monitor \<Rightarrow> bool" where
  "mon_inv m \<longleftrightarrow>
     distinct (map fst (mo_agents m)) \<and> tab_inv (table m) \<and> set (mo_procs m) = procs_of (table m) \<and>
     (\<forall>k \<in> set (mo_procs m). k < mo_next m) \<and> 0 < mo_next m \<and> conn_inv m"

lemma conn_inv_upd [simp]:
  "conn_inv (m\<lparr>mo_writer := w\<rparr>) = conn_inv m" "conn_inv (m\<lparr>mo_curSess := s\<rparr>) = conn_inv m"
  by (simp_all add: conn_inv_def)

text \<open>The injector writes to the connections of the agents in the table.\<close>

definition agent_conns :: "monitor \<Rightarrow> nat list" where
  "agent_conns m = List.map_filter (\<lambda>(_, ap). ap_conn ap) (mo_agents m)"

definition writer_ok :: "monitor \<Rightarrow> bool" where
  "writer_ok m \<longleftrightarrow> mo_writer m = (if agent_conns m = [] then None else Some (agent_conns m))"

lemma mon_inv_init: "mon_inv mon_init \<and> writer_ok mon_init"
  by (simp add: mon_inv_def conn_inv_def writer_ok_def mon_init_def tab_inv_def procs_of_def conns_of_def agent_conns_def List.map_filter_def)

lemma set_agent_conns: "distinct (map fst (mo_agents m)) \<Longrightarrow> set (agent_conns m) = conns_of (table m)"
  by (force simp: agent_conns_def conns_of_def List.map_filter_def ran_def)

text \<open>What each operation leaves alone.\<close>

lemma end_proc_fields [simp]:
  "mo_agents (end_proc h m) = mo_agents m" "mo_writer (end_proc h m) = mo_writer m" "mo_next (end_proc h m) = mo_next m"
  "mo_conns (end_proc h m) = mo_conns m" "mo_lost (end_proc h m) = mo_lost m" "mo_stale (end_proc h m) = mo_stale m" "mo_curSess (end_proc h m) = mo_curSess m"
  "set (mo_procs (end_proc h m)) = set (mo_procs m) - (if h = 0 then {} else {h})"
  by (auto simp: end_proc_def)

lemma close_conn_fields [simp]:
  "mo_agents (close_conn c m) = mo_agents m" "mo_writer (close_conn c m) = mo_writer m" "mo_next (close_conn c m) = mo_next m"
  "mo_procs (close_conn c m) = mo_procs m" "mo_lost (close_conn c m) = mo_lost m" "mo_stale (close_conn c m) = mo_stale m" "mo_curSess (close_conn c m) = mo_curSess m"
  "set (mo_conns (close_conn c m)) = set (mo_conns m) - set_option c"
  by (auto simp: close_conn_def split: option.splits)

lemma stopAgent_fields [simp]:
  "mo_writer (stopAgent d m) = mo_writer m" "mo_next (stopAgent d m) = mo_next m" "mo_stale (stopAgent d m) = mo_stale m"
  "mo_curSess (stopAgent d m) = mo_curSess m" "mo_lost (stopAgent d m) = mo_lost m" "table (stopAgent d m) = (table m)(d := None)"
  by (auto simp: stopAgent_def split: option.splits)

lemma ran_table_drop:
  assumes "tab_inv T" and "T d = Some ap"
  shows "ran (T(d := None)) = ran T - {ap}"
proof -
  have "d' = d" if "T d' = Some ap" for d' using assms that unfolding tab_inv_def by blast
  then have ne: "d' \<noteq> d \<longleftrightarrow> ap' \<noteq> ap" if "T d' = Some ap'" for d' ap'
    using assms(2) that by (metis option.inject)
  show ?thesis
  proof (intro equalityI subsetI)
    fix x assume "x \<in> ran (T(d := None))"
    then obtain d' where "(T(d := None)) d' = Some x" unfolding ran_def by blast
    then have "d' \<noteq> d" "T d' = Some x" by (simp_all split: if_splits)
    with ne show "x \<in> ran T - {ap}" by (simp add: ranI)
  next
    fix x assume "x \<in> ran T - {ap}"
    then obtain d' where x: "T d' = Some x" "x \<noteq> ap" unfolding ran_def by blast
    with ne have "(T(d := None)) d' = Some x" by simp
    then show "x \<in> ran (T(d := None))" by (rule ranI)
  qed
qed

lemma tab_inv_same:
  assumes "tab_inv T" and "ap \<in> ran T" and "ap' \<in> ran T" and "ap_h ap = ap_h ap' \<or> ap_conn ap = ap_conn ap'"
  shows "ap = ap'"
proof -
  obtain d d' where "T d = Some ap" "T d' = Some ap'" using assms(2,3) by (auto simp: ran_def)
  moreover from this assms(1,4) have "d = d'" unfolding tab_inv_def by blast
  ultimately show ?thesis by simp
qed

lemma procs_of_drop: "tab_inv T \<Longrightarrow> T d = Some ap \<Longrightarrow> procs_of (T(d := None)) = procs_of T - {ap_h ap}"
  using tab_inv_same [of T _ ap] ranI [of T d ap] by (auto simp: procs_of_def ran_table_drop)

lemma conns_of_drop: "tab_inv T \<Longrightarrow> T d = Some ap \<Longrightarrow> conns_of (T(d := None)) = conns_of T - set_option (ap_conn ap)"
  using tab_inv_same [of T _ ap] ranI [of T d ap] by (auto simp: conns_of_def ran_table_drop)

lemma conns_of_ran: "T d = Some ap \<Longrightarrow> ap_conn ap = Some c \<Longrightarrow> c \<in> conns_of T"
  by (auto simp: conns_of_def ran_def)

lemma tab_inv_drop: "tab_inv T \<Longrightarrow> tab_inv (T(d := None))"
  unfolding tab_inv_def by (auto split: if_splits)

lemma stopAgent_inv [inv_intros]: "mon_inv m \<Longrightarrow> mon_inv (stopAgent d m)"
proof (cases "table m d")
  case (Some ap)
  assume I: "mon_inv m"
  then have T: "tab_inv (table m)" and h: "ap_h ap \<noteq> 0" using Some by (auto simp: mon_inv_def tab_inv_def)
  have ps: "set (mo_procs (stopAgent d m)) = procs_of ((table m)(d := None))"
    using I h by (simp add: stopAgent_def Some procs_of_drop [OF T Some] mon_inv_def)
  have cs: "set (mo_conns (stopAgent d m)) = set (mo_conns m) - set_option (ap_conn ap)"
    by (simp add: stopAgent_def Some)
  have "distinct (map fst (mo_agents (stopAgent d m)))"
    using I by (auto simp: stopAgent_def Some mon_inv_def)
  then show ?thesis
    using I tab_inv_drop [OF T, of d] ps cs
    using conns_of_ran [of "table m" d ap, OF Some]
    by (auto simp: mon_inv_def conn_inv_def conns_of_drop [OF T Some] procs_of_drop [OF T Some])
qed (simp add: stopAgent_def)

lemma fold_stopAgent:
  "mon_inv m \<Longrightarrow> mon_inv (fold stopAgent ds m) \<and> table (fold stopAgent ds m) = table m |` (- set ds) \<and>
     mo_stale (fold stopAgent ds m) = mo_stale m \<and> mo_curSess (fold stopAgent ds m) = mo_curSess m"
proof (induction ds arbitrary: m)
  case (Cons d ds)
  from Cons.IH [OF stopAgent_inv [OF Cons.prems, of d]] show ?case
    by (auto simp: restrict_map_def fun_eq_iff)
qed (simp add: restrict_map_def)

subsection \<open>Starting agents\<close>

lemma accept_frame:
  assumes "acceptWithTimeout rs m = (m', c)"
  shows "mo_agents m' = mo_agents m \<and> mo_procs m' = mo_procs m \<and> mo_writer m' = mo_writer m \<and>
    mo_curSess m' = mo_curSess m \<and> mo_next m \<le> mo_next m'"
  using assms
proof (induction rs arbitrary: m)
  case (Cons r rs)
  then show ?case
    by (cases r) (fastforce simp: late_accept_def split: if_splits)+
qed auto

lemma late_accept_conn_inv: "conn_inv m \<Longrightarrow> conn_inv (late_accept r m)"
  by (cases r) (auto simp: conn_inv_def late_accept_def less_Suc_eq)

lemma accept_conn_inv:
  assumes "acceptWithTimeout rs m = (m', c)" and "conn_inv m"
  shows "case c of None \<Rightarrow> conn_inv m'
    | Some k \<Rightarrow> k \<notin> conns_of (table m) \<union> set (mo_lost m') \<and> k < mo_next m' \<and>
        set (mo_conns m') = insert k (conns_of (table m) \<union> set (mo_lost m')) \<and>
        conns_of (table m) \<inter> set (mo_lost m') = {} \<and> (\<forall>x \<in> set (mo_conns m'). x < mo_next m')"
  using assms
proof (induction rs arbitrary: m)
  case Nil
  then show ?case by (auto simp: conn_inv_def)
next
  case (Cons r rs)
  show ?case
  proof (cases "mo_stale m = 0")
    case True
    with Cons.prems show ?thesis by (cases r) (auto simp: conn_inv_def less_Suc_eq)
  next
    case False
    have t: "table (late_accept r m) = table m" by (cases r) (simp_all add: late_accept_def)
    have "acceptWithTimeout rs (late_accept r m) = (m', c)" using Cons.prems(1) False by simp
    from Cons.IH [OF this late_accept_conn_inv [OF Cons.prems(2)], unfolded t] show ?thesis .
  qed
qed

lemma spawnOne_cases:
  obtains (none) "spawnOne env d m = m"
  | (fail) m' where "spawnOne env d m = end_proc (mo_next m) m'"
      "acceptWithTimeout (se_accepts (env d)) (m\<lparr>mo_next := Suc (mo_next m), mo_procs := mo_next m # mo_procs m\<rparr>) = (m', None)"
  | (bound) m' c where
      "spawnOne env d m = m'\<lparr>mo_agents := go_insert d \<lparr>ap_h = mo_next m, ap_conn = Some c\<rparr> (mo_agents m')\<rparr>"
      "acceptWithTimeout (se_accepts (env d)) (m\<lparr>mo_next := Suc (mo_next m), mo_procs := mo_next m # mo_procs m\<rparr>) = (m', Some c)"
proof (cases "se_token (env d) \<and> se_spawn (env d)")
  case False
  then show ?thesis by (intro none) (auto simp: spawnOne_def)
next
  case True
  obtain m' c where
    A: "acceptWithTimeout (se_accepts (env d)) (m\<lparr>mo_next := Suc (mo_next m), mo_procs := mo_next m # mo_procs m\<rparr>) = (m', c)"
    by fastforce
  with True fail bound show ?thesis by (cases c) (simp_all add: spawnOne_def Let_def)
qed

lemma procs_of_insert: "T d = None \<Longrightarrow> procs_of (T(d \<mapsto> ap)) = insert (ap_h ap) (procs_of T)"
  by (simp add: procs_of_def ran_map_upd)

lemma conns_of_insert: "T d = None \<Longrightarrow> conns_of (T(d \<mapsto> ap)) = set_option (ap_conn ap) \<union> conns_of T"
  by (auto simp: conns_of_def ran_map_upd)

lemma tab_inv_insert:
  assumes "tab_inv T" and "T d = None" and "0 < h" and "h \<notin> procs_of T" and "c \<notin> conns_of T"
  shows "tab_inv (T(d \<mapsto> \<lparr>ap_h = h, ap_conn = Some c\<rparr>))"
proof -
  have "ap_h ap \<noteq> h \<and> ap_conn ap \<noteq> Some c" if "T d' = Some ap" for d' ap
    using assms(4,5) ranI [of T d' ap, OF that] by (auto simp: procs_of_def conns_of_def)
  with assms(1-3) show ?thesis unfolding tab_inv_def by (auto split: if_splits) metis+
qed

lemma spawnOne_inv [inv_intros]:
  assumes "mon_inv m" and "table m d = None"
  shows "mon_inv (spawnOne env d m)"
proof -
  let ?m1 = "m\<lparr>mo_next := Suc (mo_next m), mo_procs := mo_next m # mo_procs m\<rparr>"
  have I: "conn_inv ?m1" using assms(1) by (auto simp: mon_inv_def conn_inv_def less_Suc_eq)
  have fresh: "mo_next m \<notin> procs_of (table m)" "mo_next m \<notin> set (mo_procs m)" "0 < mo_next m"
    using assms(1) by (auto simp: mon_inv_def)
  show ?thesis
  proof (cases rule: spawnOne_cases [of env d m])
    case none
    with assms(1) show ?thesis by simp
  next
    case (fail m')
    from accept_frame [OF fail(2)] accept_conn_inv [OF fail(2) I] fresh assms(1) show ?thesis
      by (fastforce simp: fail(1) mon_inv_def conn_inv_def)
  next
    case (bound m' c)
    note F = accept_frame [OF bound(2)] and C = accept_conn_inv [OF bound(2) I]
    have T: "tab_inv ((table m)(d \<mapsto> \<lparr>ap_h = mo_next m, ap_conn = Some c\<rparr>))"
      using assms fresh C by (intro tab_inv_insert) (auto simp: mon_inv_def)
    have "distinct (map fst (go_insert d \<lparr>ap_h = mo_next m, ap_conn = Some c\<rparr> (mo_agents m)))"
      using assms(1) by (intro distinct_go_insert) (simp add: mon_inv_def)
    moreover have "k < mo_next m'" if "k = mo_next m \<or> k \<in> set (mo_procs m)" for k
      using that F assms(1) by (fastforce simp: mon_inv_def)
    ultimately show ?thesis
      using assms F C T by (auto simp: bound(1) mon_inv_def conn_inv_def procs_of_insert conns_of_insert)
  qed
qed

lemma spawnOne_other: "d' \<noteq> d \<Longrightarrow> table (spawnOne env d m) d' = table m d'"
  by (cases rule: spawnOne_cases [of env d m]) (simp_all add: accept_frame)

lemma spawnOne_writer: "mo_writer (spawnOne env d m) = mo_writer m"
  by (cases rule: spawnOne_cases [of env d m]) (simp_all add: accept_frame)

lemma fold_spawnOne_inv:
  assumes "mon_inv m" and "distinct ds" and "\<And>d. d \<in> set ds \<Longrightarrow> table m d = None"
  shows "mon_inv (fold (spawnOne env) ds m) \<and> (\<forall>d. d \<notin> set ds \<longrightarrow> table (fold (spawnOne env) ds m) d = table m d)"
  using assms
proof (induction ds arbitrary: m)
  case (Cons d ds)
  have "mon_inv (spawnOne env d m)" using Cons.prems by (intro spawnOne_inv) simp_all
  moreover have "table (spawnOne env d m) d' = None" if "d' \<in> set ds" for d'
    using Cons.prems that spawnOne_other [of d' d env m] by auto
  ultimately have IH: "mon_inv (fold (spawnOne env) ds (spawnOne env d m)) \<and>
      (\<forall>d'. d' \<notin> set ds \<longrightarrow> table (fold (spawnOne env) ds (spawnOne env d m)) d' = table (spawnOne env d m) d')"
    using Cons.prems by (intro Cons.IH) simp_all
  then show ?case using spawnOne_other by auto
qed simp

definition spawn_ok :: "spawn_env \<Rightarrow> bool" where
  "spawn_ok e \<longleftrightarrow> se_token e \<and> se_spawn e \<and> (\<exists>rs. se_accepts e = Connected # rs)"

lemma spawnOne_ok:
  "spawn_ok (env d) \<Longrightarrow> mo_stale m = 0 \<Longrightarrow> dom (table (spawnOne env d m)) = insert d (dom (table m)) \<and> mo_stale (spawnOne env d m) = 0"
  by (auto simp: spawnOne_def spawn_ok_def Let_def)

lemma fold_spawnOne_ok:
  "(\<And>d. d \<in> set ds \<Longrightarrow> spawn_ok (env d)) \<Longrightarrow> mo_stale m = 0 \<Longrightarrow>
     dom (table (fold (spawnOne env) ds m)) = set ds \<union> dom (table m) \<and> mo_stale (fold (spawnOne env) ds m) = 0"
proof (induction ds arbitrary: m)
  case (Cons d ds)
  then have "dom (table (spawnOne env d m)) = insert d (dom (table m))" "mo_stale (spawnOne env d m) = 0"
    using spawnOne_ok [of env d m] by simp_all
  with Cons show ?case by simp
qed simp

text \<open>
  As long as no more calls of \<open>Accept\<close> end than agents are started, one that was given up on takes what the
  next agent should get, and no agent is bound any more.
\<close>

definition own_accepts :: "(string \<Rightarrow> spawn_env) \<Rightarrow> bool" where
  "own_accepts env \<longleftrightarrow> (\<forall>d. length (se_accepts (env d)) \<le> 1)"

lemma accept_starved:
  "0 < mo_stale m \<Longrightarrow> length rs \<le> 1 \<Longrightarrow> acceptWithTimeout rs m = (m', c) \<Longrightarrow> c = None \<and> mo_stale m \<le> mo_stale m'"
proof (cases rs)
  case (Cons r rs')
  assume "0 < mo_stale m" "length rs \<le> 1" "acceptWithTimeout rs m = (m', c)"
  with Cons show ?thesis by (cases r) (auto simp: late_accept_def)
qed auto

lemma spawnOne_starved:
  assumes "own_accepts env" and "0 < mo_stale m"
  shows "table (spawnOne env d m) = table m \<and> mo_stale m \<le> mo_stale (spawnOne env d m)"
proof (cases rule: spawnOne_cases [of env d m])
  case (fail m')
  with accept_starved [OF _ _ fail(2)] accept_frame [OF fail(2)] assms show ?thesis by (simp add: own_accepts_def)
next
  case (bound m' c)
  with accept_starved [OF _ _ bound(2)] assms show ?thesis by (simp add: own_accepts_def)
qed simp

lemma fold_spawnOne_starved:
  "own_accepts env \<Longrightarrow> 0 < mo_stale m \<Longrightarrow>
     table (fold (spawnOne env) ds m) = table m \<and> mo_stale m \<le> mo_stale (fold (spawnOne env) ds m)"
proof (induction ds arbitrary: m)
  case (Cons d ds)
  note S = spawnOne_starved [OF Cons.prems, of d]
  with Cons.prems have "0 < mo_stale (spawnOne env d m)" by linarith
  from Cons.IH [OF Cons.prems(1) this] S show ?case by simp
qed simp

text \<open>A connection or an error that comes between the ticks ends one that was given up on.\<close>

lemma late_accept_fields [simp]:
  "mo_agents (late_accept r m) = mo_agents m" "mo_procs (late_accept r m) = mo_procs m"
  "mo_writer (late_accept r m) = mo_writer m" "mo_curSess (late_accept r m) = mo_curSess m"
  "mo_stale (late_accept r m) = mo_stale m - 1" "mo_next m \<le> mo_next (late_accept r m)"
  by (cases r; simp add: late_accept_def)+

lemma late_accept_inv [inv_intros]: "mon_inv m \<and> writer_ok m \<Longrightarrow> mon_inv (late_accept r m) \<and> writer_ok (late_accept r m)"
  using late_accept_conn_inv [of m r] late_accept_fields(6) [of m r]
  by (auto simp: mon_inv_def writer_ok_def agent_conns_def simp del: late_accept_fields(6) intro: less_le_trans)

lemma fold_late_accept:
  "mon_inv m \<and> writer_ok m \<Longrightarrow> mon_inv (fold late_accept rs m) \<and> writer_ok (fold late_accept rs m)"
  "mo_agents (fold late_accept rs m) = mo_agents m" "mo_stale (fold late_accept rs m) = mo_stale m - length rs"
  "mo_curSess (fold late_accept rs m) = mo_curSess m"
proof -
  show "mon_inv m \<and> writer_ok m \<Longrightarrow> mon_inv (fold late_accept rs m) \<and> writer_ok (fold late_accept rs m)"
    by (induction rs arbitrary: m) (simp_all add: late_accept_inv)
qed (induction rs arbitrary: m; simp)+

subsection \<open>Killing all\<close>

lemma fold_kill:
  "mo_agents (fold (\<lambda>(_, ap) m. end_proc (ap_h ap) (close_conn (ap_conn ap) m)) L m) = mo_agents m \<and>
   mo_next (fold (\<lambda>(_, ap) m. end_proc (ap_h ap) (close_conn (ap_conn ap) m)) L m) = mo_next m \<and>
   mo_stale (fold (\<lambda>(_, ap) m. end_proc (ap_h ap) (close_conn (ap_conn ap) m)) L m) = mo_stale m \<and>
   mo_lost (fold (\<lambda>(_, ap) m. end_proc (ap_h ap) (close_conn (ap_conn ap) m)) L m) = mo_lost m \<and>
   set (mo_procs (fold (\<lambda>(_, ap) m. end_proc (ap_h ap) (close_conn (ap_conn ap) m)) L m)) =
     set (mo_procs m) - {ap_h ap | d ap. (d, ap) \<in> set L \<and> ap_h ap \<noteq> 0} \<and>
   set (mo_conns (fold (\<lambda>(_, ap) m. end_proc (ap_h ap) (close_conn (ap_conn ap) m)) L m)) =
     set (mo_conns m) - {c. \<exists>d ap. (d, ap) \<in> set L \<and> ap_conn ap = Some c}"
proof (induction L arbitrary: m)
  case (Cons x L)
  obtain d ap where x: "x = (d, ap)" by (cases x)
  show ?case using Cons.IH [of "end_proc (ap_h ap) (close_conn (ap_conn ap) m)"] by (auto simp: x)
qed simp

lemma killAll_fields:
  "mo_agents (killAll m) = []" "mo_writer (killAll m) = None" "mo_next (killAll m) = mo_next m" "mo_stale (killAll m) = mo_stale m"
  "mo_lost (killAll m) = mo_lost m"
  "set (mo_procs (killAll m)) = set (mo_procs m) - {ap_h ap | d ap. (d, ap) \<in> set (mo_agents m) \<and> ap_h ap \<noteq> 0}"
  "set (mo_conns (killAll m)) = set (mo_conns m) - {c. \<exists>d ap. (d, ap) \<in> set (mo_agents m) \<and> ap_conn ap = Some c}"
  using fold_kill [of "mo_agents m" "m\<lparr>mo_agents := []\<rparr>"] by (simp_all add: killAll_def Let_def)

lemma killAll_all:
  assumes "mon_inv m"
  shows "set (mo_procs (killAll m)) = {}" and "set (mo_conns (killAll m)) = set (mo_lost m)"
proof -
  have r: "ran (table m) = snd ` set (mo_agents m)" using assms by (simp add: mon_inv_def ran_distinct)
  have pos: "ap_h ap \<noteq> 0" if "ap \<in> ran (table m)" for ap
    using assms that by (auto simp: mon_inv_def tab_inv_def ran_def)
  have ran: "{ap_h ap | d ap. (d, ap) \<in> set (mo_agents m) \<and> ap_h ap \<noteq> 0} = procs_of (table m)"
    "{c. \<exists>d ap. (d, ap) \<in> set (mo_agents m) \<and> ap_conn ap = Some c} = conns_of (table m)"
    unfolding procs_of_def conns_of_def r using pos [unfolded r] by force+
  have "set (mo_procs m) = procs_of (table m)" using assms by (simp add: mon_inv_def)
  then show "set (mo_procs (killAll m)) = {}" unfolding killAll_fields ran by simp
  have "set (mo_conns m) = conns_of (table m) \<union> set (mo_lost m)" "conns_of (table m) \<inter> set (mo_lost m) = {}"
    using assms by (simp_all add: mon_inv_def conn_inv_def)
  then show "set (mo_conns (killAll m)) = set (mo_lost m)" unfolding killAll_fields ran by blast
qed

lemma killAll_inv [inv_intros]:
  assumes "mon_inv m"
  shows "mon_inv (killAll m)" and "writer_ok (killAll m)"
proof -
  have "set (mo_conns m) = conns_of (table m) \<union> set (mo_lost m)" "\<forall>k \<in> set (mo_conns m). k < mo_next m"
    using assms by (simp_all add: mon_inv_def conn_inv_def)
  then have "conn_inv (killAll m)"
    unfolding conn_inv_def killAll_all(2) [OF assms] killAll_fields(1,3,5) by (auto simp: conns_of_def)
  moreover have "mo_procs (killAll m) = []" using killAll_all(1) [OF assms] by simp
  moreover have "0 < mo_next m" using assms by (simp add: mon_inv_def)
  ultimately show "mon_inv (killAll m)"
    by (simp add: mon_inv_def killAll_fields tab_inv_def procs_of_def)
  show "writer_ok (killAll m)"
    by (simp add: writer_ok_def killAll_fields agent_conns_def List.map_filter_def)
qed

subsection \<open>One tick\<close>

lemma rebindWriters_fields [simp]:
  "mo_agents (rebindWriters m) = mo_agents m" "mo_stale (rebindWriters m) = mo_stale m" "mo_next (rebindWriters m) = mo_next m"
  "mo_procs (rebindWriters m) = mo_procs m" "mo_conns (rebindWriters m) = mo_conns m" "mo_curSess (rebindWriters m) = mo_curSess m"
  by (simp_all add: rebindWriters_def Let_def)

lemma rebindWriters_inv [inv_intros]: "mon_inv m \<Longrightarrow> mon_inv (rebindWriters m) \<and> writer_ok (rebindWriters m)"
  by (simp add: mon_inv_def writer_ok_def agent_conns_def) (simp add: rebindWriters_def Let_def)

definition alive_desks :: "nat set \<Rightarrow> monitor \<Rightarrow> string list" where
  "alive_desks died m = map fst (filter (\<lambda>(_, ap). procAlive died (ap_h ap)) (mo_agents m))"

definition dead_desks :: "nat set \<Rightarrow> monitor \<Rightarrow> string list" where
  "dead_desks died m = map fst (filter (\<lambda>(_, ap). \<not> procAlive died (ap_h ap)) (mo_agents m))"

definition enter_session :: "uint32 \<Rightarrow> monitor \<Rightarrow> monitor" where
  "enter_session sess m = (if sess \<noteq> mo_curSess m then (killAll m)\<lparr>mo_curSess := sess\<rparr> else m)"

text \<open>The agents after the reaping and stopping of one tick, and the ones to start.\<close>

definition surviving :: "nat set \<Rightarrow> int32 \<Rightarrow> monitor \<Rightarrow> monitor" where
  "surviving died flags m =
     fold stopAgent (fst (planAgents (alive_desks died m) (desiredDesktops flags))) (fold stopAgent (dead_desks died m) m)"

definition to_start :: "nat set \<Rightarrow> int32 \<Rightarrow> monitor \<Rightarrow> string list" where
  "to_start died flags m = snd (planAgents (alive_desks died m) (desiredDesktops flags))"

lemma reconcile_form:
  assumes "sessionLockState sess query = Some flags"
  shows "reconcile sess query died env m =
    (let m1 = enter_session sess m;
         m4 = fold (spawnOne env) (to_start died flags m1) (surviving died flags m1)
     in if sess \<noteq> mo_curSess m \<or> dead_desks died m1 \<noteq> [] \<or>
           fst (planAgents (alive_desks died m1) (desiredDesktops flags)) \<noteq> [] \<or> to_start died flags m1 \<noteq> []
        then rebindWriters m4 else m4)"
  unfolding reconcile_def assms option.case Let_def enter_session_def alive_desks_def dead_desks_def
    surviving_def to_start_def case_prod_beta by (rule refl)

lemma reconcile_cases:
  assumes "sessionLockState sess query = Some flags"
  obtains (same) "reconcile sess query died env m = m" "enter_session sess m = m" "dead_desks died m = []"
      "planAgents (alive_desks died m) (desiredDesktops flags) = ([], [])"
  | (change) "reconcile sess query died env m =
      rebindWriters (fold (spawnOne env) (to_start died flags (enter_session sess m)) (surviving died flags (enter_session sess m)))"
proof (cases "sess \<noteq> mo_curSess m \<or> dead_desks died (enter_session sess m) \<noteq> [] \<or>
    fst (planAgents (alive_desks died (enter_session sess m)) (desiredDesktops flags)) \<noteq> [] \<or>
    to_start died flags (enter_session sess m) \<noteq> []")
  case True
  then show ?thesis by (intro change) (simp only: reconcile_form [OF assms] Let_def if_True)
next
  case False
  then have m1: "enter_session sess m = m" by (simp add: enter_session_def)
  have plan: "planAgents (alive_desks died m) (desiredDesktops flags) = ([], [])"
    using False by (cases "planAgents (alive_desks died m) (desiredDesktops flags)") (simp add: m1 to_start_def)
  have dead: "dead_desks died m = []" using False by (simp add: m1)
  have "reconcile sess query died env m = m"
    unfolding reconcile_form [OF assms] Let_def m1 using False by (simp add: m1 plan dead surviving_def to_start_def)
  then show ?thesis using m1 dead plan by (rule same)
qed

lemma enter_session_inv [inv_intros]:
  assumes "mon_inv m" and "writer_ok m"
  shows "mon_inv (enter_session sess m)" and "writer_ok (enter_session sess m)"
    and "mo_stale (enter_session sess m) = mo_stale m" and "dom (table (enter_session sess m)) \<subseteq> dom (table m)"
  using assms killAll_inv [OF assms(1)]
  by (auto simp: enter_session_def mon_inv_def writer_ok_def agent_conns_def killAll_fields)

lemma alive_dead_desks:
  assumes "mon_inv m"
  shows "dom (table m) = set (alive_desks died m) \<union> set (dead_desks died m)"
    and "set (alive_desks died m) \<inter> set (dead_desks died m) = {}"
proof -
  have d: "distinct (map fst (mo_agents m))" using assms by (simp add: mon_inv_def)
  have "set (alive_desks died m) = {k. \<exists>ap. table m k = Some ap \<and> procAlive died (ap_h ap)}"
    "set (dead_desks died m) = {k. \<exists>ap. table m k = Some ap \<and> \<not> procAlive died (ap_h ap)}"
    using d by (force simp: alive_desks_def dead_desks_def)+
  then show "dom (table m) = set (alive_desks died m) \<union> set (dead_desks died m)"
    and "set (alive_desks died m) \<inter> set (dead_desks died m) = {}" by auto
qed

lemma surviving_props:
  assumes "mon_inv m"
  shows "mon_inv (surviving died flags m)" and "mo_stale (surviving died flags m) = mo_stale m"
    and "dom (table (surviving died flags m)) = set (alive_desks died m) \<inter> set (desiredDesktops flags)"
    and "set (to_start died flags m) = set (desiredDesktops flags) - set (alive_desks died m)"
    and "distinct (to_start died flags m)"
proof -
  let ?m2 = "fold stopAgent (dead_desks died m) m"
  note F = fold_stopAgent [OF assms, of "dead_desks died m"]
  note G = fold_stopAgent [OF conjunct1 [OF F], of "fst (planAgents (alive_desks died m) (desiredDesktops flags))"]
  show "mon_inv (surviving died flags m)" and "mo_stale (surviving died flags m) = mo_stale m"
    using F G by (simp_all add: surviving_def)
  have "dom (table ?m2) = set (alive_desks died m)"
    using F alive_dead_desks [OF assms, of died] by auto
  then show "dom (table (surviving died flags m)) = set (alive_desks died m) \<inter> set (desiredDesktops flags)"
    using G by (auto simp: surviving_def planAgents_def)
  show "set (to_start died flags m) = set (desiredDesktops flags) - set (alive_desks died m)"
    by (auto simp: to_start_def planAgents_def)
  show "distinct (to_start died flags m)"
    by (simp add: to_start_def planAgents_def desiredDesktops_distinct)
qed

lemma reconcile_inv [inv_intros]:
  assumes "mon_inv m" and "writer_ok m"
  shows "mon_inv (reconcile sess query died env m) \<and> writer_ok (reconcile sess query died env m)"
proof (cases "sessionLockState sess query")
  case None
  with assms show ?thesis by (simp add: reconcile_def)
next
  case (Some flags)
  let ?m1 = "enter_session sess m"
  note S = surviving_props [OF enter_session_inv(1) [OF assms], of died flags sess]
  from Some show ?thesis
  proof (cases rule: reconcile_cases [where m = m and died = died and env = env])
    case same
    with assms show ?thesis by simp
  next
    case change
    have "table (surviving died flags ?m1) d = None" if "d \<in> set (to_start died flags ?m1)" for d
      using that S(3,4) by (metis DiffD2 IntD1 domIff)
    then have "mon_inv (fold (spawnOne env) (to_start died flags ?m1) (surviving died flags ?m1))"
      using fold_spawnOne_inv [OF S(1) S(5)] by blast
    then show ?thesis unfolding change by (rule rebindWriters_inv)
  qed
qed

lemma reconcile_desired:
  assumes "mon_inv m" and "writer_ok m" and "sessionLockState sess query = Some flags"
    and "mo_stale m = 0" and "\<And>d. d \<in> set (desiredDesktops flags) \<Longrightarrow> spawn_ok (env d)"
  shows "dom (table (reconcile sess query died env m)) = set (desiredDesktops flags) \<and> mo_stale (reconcile sess query died env m) = 0"
  using assms(3)
proof (cases rule: reconcile_cases [where m = m and died = died and env = env])
  case same
  then have "dom (table m) = set (alive_desks died m)" using alive_dead_desks(1) [OF assms(1), of died] by simp
  with planAgents_result(1) [OF same(4)] same(1) assms(4) show ?thesis by simp
next
  case change
  let ?m1 = "enter_session sess m"
  note E = enter_session_inv [OF assms(1,2), of sess]
  note S = surviving_props [OF E(1), of died flags]
  have "spawn_ok (env d)" if "d \<in> set (to_start died flags ?m1)" for d using that S(4) assms(5) by blast
  with fold_spawnOne_ok [of "to_start died flags ?m1" env "surviving died flags ?m1"] S E(3) assms(4)
  show ?thesis unfolding change by auto
qed

lemma spawnOne_session: "mo_curSess (spawnOne env d m) = mo_curSess m"
  by (cases rule: spawnOne_cases [of env d m]) (simp_all add: accept_frame)

lemma stopAgent_session: "mo_curSess (stopAgent d m) = mo_curSess m"
  by (simp add: stopAgent_def end_proc_def close_conn_def split: option.splits)

lemma fold_stopAgent_session: "mo_curSess (fold stopAgent ds m) = mo_curSess m"
  by (induction ds arbitrary: m) (simp_all add: stopAgent_session)

lemma enter_session_curSess [simp]: "mo_curSess (enter_session sess m) = sess"
  by (simp add: enter_session_def)

lemma fold_spawnOne_session: "mo_curSess (fold (spawnOne env) ds m) = mo_curSess m"
  by (induction ds arbitrary: m) (simp_all add: spawnOne_session)

lemma reconcile_session:
  assumes "mon_inv m" and "writer_ok m" and "sessionLockState sess query = Some flags"
  shows "mo_curSess (reconcile sess query died env m) = sess"
  using assms(3)
proof (cases rule: reconcile_cases [where m = m and died = died and env = env])
  case same
  then show ?thesis by (metis enter_session_curSess)
next
  case change
  show ?thesis unfolding change by (simp add: rebindWriters_def fold_spawnOne_session surviving_def fold_stopAgent_session Let_def)
qed

text \<open>With nothing to do, a tick does nothing: no agent restarted, no writer replaced.\<close>

lemma reconcile_steady:
  assumes "mon_inv m" and "sessionLockState sess query = Some flags" and "sess = mo_curSess m"
    and "dom (table m) = set (desiredDesktops flags)" and "\<And>d ap. table m d = Some ap \<Longrightarrow> ap_h ap \<notin> died"
  shows "reconcile sess query died env m = m"
proof -
  have al: "procAlive died (ap_h ap)" if "(d, ap) \<in> set (mo_agents m)" for d ap
    using assms(1,5) that by (auto simp: mon_inv_def tab_inv_def procAlive_def)
  then have dead: "dead_desks died m = []" by (auto simp: dead_desks_def filter_empty_conv)
  then have "set (alive_desks died m) = set (desiredDesktops flags)"
    using alive_dead_desks(1) [OF assms(1), of died] assms(4) by simp
  then have plan: "planAgents (alive_desks died m) (desiredDesktops flags) = ([], [])"
    by (simp add: planAgents_def filter_empty_conv)
  show ?thesis
    using dead plan assms(2,3) by (simp add: reconcile_def Let_def alive_desks_def dead_desks_def)
qed

lemma reconcile_starved:
  assumes "mon_inv m" and "writer_ok m" and "0 < mo_stale m" and "own_accepts env"
  shows "dom (table (reconcile sess query died env m)) \<subseteq> dom (table m) \<and> mo_stale m \<le> mo_stale (reconcile sess query died env m)"
proof (cases "sessionLockState sess query")
  case None
  with assms show ?thesis by (simp add: reconcile_def)
next
  case (Some flags)
  let ?m1 = "enter_session sess m"
  note E = enter_session_inv [OF assms(1,2), of sess]
  note S = surviving_props [OF E(1), of died flags]
  from Some show ?thesis
  proof (cases rule: reconcile_cases [where m = m and died = died and env = env])
    case same
    with assms show ?thesis by simp
  next
    case change
    have "0 < mo_stale (surviving died flags ?m1)" using S(2) E(3) assms(3) by simp
    from fold_spawnOne_starved [OF assms(4) this, of "to_start died flags ?m1"]
    have "table (fold (spawnOne env) (to_start died flags ?m1) (surviving died flags ?m1)) = table (surviving died flags ?m1)"
      "mo_stale m \<le> mo_stale (fold (spawnOne env) (to_start died flags ?m1) (surviving died flags ?m1))"
      using S(2) E(3) by simp_all
    moreover have "dom (table (surviving died flags ?m1)) \<subseteq> dom (table m)"
      using S(3) E(4) alive_dead_desks(1) [OF E(1), of died] by blast
    ultimately show ?thesis unfolding change by simp
  qed
qed

subsection \<open>The run of the service\<close>

text \<open>\<open>tk_late\<close>: how the waiting calls of \<open>Accept\<close> that end before the tick do so.\<close>

record tick =
  tk_late :: "accept_reply list"
  tk_sess :: uint32
  tk_query :: wts_reply
  tk_died :: "nat list"
  tk_env :: "string \<Rightarrow> spawn_env"

definition do_tick :: "tick \<Rightarrow> monitor \<Rightarrow> monitor" where
  "do_tick t m = reconcile (tk_sess t) (tk_query t) (set (tk_died t)) (tk_env t) (fold late_accept (tk_late t) m)"

lemma do_tick_inv: "mon_inv m \<Longrightarrow> writer_ok m \<Longrightarrow> mon_inv (do_tick t m) \<and> writer_ok (do_tick t m)"
  using fold_late_accept(1) [of m "tk_late t"] by (simp add: do_tick_def reconcile_inv)

text \<open>\<open>run\<close>: the ticks, and \<open>killAll\<close> when the service is stopped.\<close>

definition run_monitor :: "tick list \<Rightarrow> bool \<Rightarrow> monitor \<Rightarrow> monitor" where
  "run_monitor ts stopped m = (let m1 = fold do_tick ts m in if stopped then killAll m1 else m1)"

lemma fold_tick_inv: "mon_inv m \<Longrightarrow> writer_ok m \<Longrightarrow> mon_inv (fold do_tick ts m) \<and> writer_ok (fold do_tick ts m)"
proof (induction ts arbitrary: m)
  case (Cons t ts)
  then show ?case using do_tick_inv [OF Cons.prems] by simp
qed simp

lemma run_monitor_inv: "mon_inv (run_monitor ts stopped mon_init) \<and> writer_ok (run_monitor ts stopped mon_init)"
  using fold_tick_inv [of mon_init ts] mon_inv_init killAll_inv by (simp add: run_monitor_def Let_def)

text \<open>No \<open>Accept\<close> ends but those of the agents a tick starts, one each at most.\<close>

definition own_connections :: "tick \<Rightarrow> bool" where
  "own_connections t \<longleftrightarrow> tk_late t = [] \<and> own_accepts (tk_env t)"

lemma fold_tick_starved:
  "mon_inv m \<Longrightarrow> writer_ok m \<Longrightarrow> 0 < mo_stale m \<Longrightarrow> \<forall>t \<in> set ts. own_connections t \<Longrightarrow>
    dom (table (fold do_tick ts m)) \<subseteq> dom (table m) \<and> mo_stale m \<le> mo_stale (fold do_tick ts m)"
proof (induction ts arbitrary: m)
  case (Cons t ts)
  have t: "dom (table (do_tick t m)) \<subseteq> dom (table m) \<and> mo_stale m \<le> mo_stale (do_tick t m)"
    using Cons.prems(4) reconcile_starved [OF Cons.prems(1-3)] by (simp add: do_tick_def own_connections_def)
  have I: "mon_inv (do_tick t m)" "writer_ok (do_tick t m)" using do_tick_inv [OF Cons.prems(1,2)] by simp_all
  from Cons.IH [OF I] t Cons.prems(3,4)
  have "dom (table (fold do_tick ts (do_tick t m))) \<subseteq> dom (table (do_tick t m))"
    "mo_stale (do_tick t m) \<le> mo_stale (fold do_tick ts (do_tick t m))" by simp_all
  with t show ?case by (simp add: subset_trans [of _ "dom (table (do_tick t m))"])
qed simp

text \<open>Once late ends have used up those that were given up on, a tick binds its agents again.\<close>

lemma do_tick_desired:
  assumes "mon_inv m" and "writer_ok m" and "sessionLockState (tk_sess t) (tk_query t) = Some flags"
    and "mo_stale m \<le> length (tk_late t)" and "\<And>d. d \<in> set (desiredDesktops flags) \<Longrightarrow> spawn_ok (tk_env t d)"
  shows "dom (table (do_tick t m)) = set (desiredDesktops flags) \<and> mo_stale (do_tick t m) = 0"
  using fold_late_accept(1) [of m "tk_late t"] fold_late_accept(3) [of "tk_late t" m] assms
  by (simp add: do_tick_def reconcile_desired)

end
