(* ===== verification/Spawn.thy ===== *)
theory Spawn
  imports Flags Monitor Pipe WinInject
begin

text \<open>
  spawn_windows.go, agent_windows.go and the command of autostart_windows.go: how the service
  gets a token for a session, finds winlogon, starts an agent on a desktop, and what the agent
  does with its command line.  The Win32 calls are answered by an environment; every handle they
  open is kept in a ghost list, so that a leak is visible.
\<close>

subsection \<open>Handles\<close>

record handles =
  hd_next :: nat
  hd_open :: "nat list"

definition handles_ok :: "handles \<Rightarrow> bool" where
  "handles_ok s \<longleftrightarrow> (\<forall>h \<in> set (hd_open s). h < hd_next s)"

definition acquire :: "bool \<Rightarrow> handles \<Rightarrow> nat option \<times> handles" where
  "acquire ok s = (if ok then (Some (hd_next s), s\<lparr>hd_next := Suc (hd_next s), hd_open := hd_next s # hd_open s\<rparr>) else (None, s))"

definition release :: "nat \<Rightarrow> handles \<Rightarrow> handles" where
  "release h s = s\<lparr>hd_open := filter (\<lambda>x. x \<noteq> h) (hd_open s)\<rparr>"

subsection \<open>Privileges and tokens\<close>

datatype spawn_error =
    ErrOpenProcessToken | ErrLookupPrivilege | ErrAdjustPrivileges
  | ErrQueryUserToken | ErrDuplicateToken | ErrSnapshot | ErrNotFound | ErrOpenProcess
  | ErrEnvironmentBlock | ErrCreateProcess | PanicNUL

record token_env =
  te_openToken :: bool
  te_lookup :: bool
  te_adjust :: bool
  te_query :: bool
  te_dup :: bool
  te_openProcess :: bool

definition enablePrivilege :: "token_env \<Rightarrow> handles \<Rightarrow> (spawn_error + unit) \<times> handles" where
  "enablePrivilege e s =
    (case acquire (te_openToken e) s of
       (None, s1) \<Rightarrow> (Inl ErrOpenProcessToken, s1)
     | (Some tok, s1) \<Rightarrow>
         (if \<not> te_lookup e then Inl ErrLookupPrivilege else if te_adjust e then Inr () else Inl ErrAdjustPrivileges, release tok s1))"

text \<open>The three privileges are asked for one after the other; an error is only logged.\<close>

definition enableServicePrivileges :: "(string \<Rightarrow> token_env) \<Rightarrow> handles \<Rightarrow> handles" where
  "enableServicePrivileges e s =
     fold (\<lambda>p s. snd (enablePrivilege (e p) s)) [''SeTcbPrivilege'', ''SeAssignPrimaryTokenPrivilege'', ''SeIncreaseQuotaPrivilege''] s"

definition duplicatePrimary :: "token_env \<Rightarrow> handles \<Rightarrow> (spawn_error + nat) \<times> handles" where
  "duplicatePrimary e s =
    (case acquire (te_dup e) s of (None, s1) \<Rightarrow> (Inl ErrDuplicateToken, s1) | (Some dup, s1) \<Rightarrow> (Inr dup, s1))"

definition userTokenForSession :: "token_env \<Rightarrow> handles \<Rightarrow> (spawn_error + nat) \<times> handles" where
  "userTokenForSession e s =
    (case acquire (te_query e) s of
       (None, s1) \<Rightarrow> (Inl ErrQueryUserToken, s1)
     | (Some tok, s1) \<Rightarrow> (case duplicatePrimary e s1 of (r, s2) \<Rightarrow> (r, release tok s2)))"

text \<open>
  A process of the snapshot: the name, the id and the session, if it can be asked.  The name is
  compared with \<open>strings.EqualFold\<close>; no letter of ``winlogon.exe'' folds to anything but its own
  two cases, so folding it is folding ASCII.
\<close>

record proc_entry =
  pe_ExeFile :: string
  pe_ProcessID :: uint32
  pe_session :: "uint32 option"

definition fold_ascii :: "string \<Rightarrow> string" where
  "fold_ascii s = map (\<lambda>c. if 65 \<le> (byte_val c :: nat) \<and> byte_val c \<le> (90 :: nat) then byte_chr (byte_val c + 32) else c) s"

fun first_in_session :: "string \<Rightarrow> uint32 \<Rightarrow> proc_entry list \<Rightarrow> uint32 option" where
  "first_in_session exe session [] = None"
| "first_in_session exe session (pe # pes) =
    (if fold_ascii (pe_ExeFile pe) \<noteq> fold_ascii exe then first_in_session exe session pes
     else if pe_session pe = Some session then Some (pe_ProcessID pe)
     else first_in_session exe session pes)"

definition findProcessInSession :: "proc_entry list option \<Rightarrow> string \<Rightarrow> uint32 \<Rightarrow> handles \<Rightarrow> (spawn_error + uint32) \<times> handles" where
  "findProcessInSession snapshot exe session s =
    (case acquire (snapshot \<noteq> None) s of
       (None, s1) \<Rightarrow> (Inl ErrSnapshot, s1)
     | (Some snap, s1) \<Rightarrow>
         ((case first_in_session exe session (case snapshot of None \<Rightarrow> [] | Some pes \<Rightarrow> pes) of
             None \<Rightarrow> Inl ErrNotFound | Some pid \<Rightarrow> Inr pid), release snap s1))"

definition winlogonTokenForSession ::
  "proc_entry list option \<Rightarrow> token_env \<Rightarrow> uint32 \<Rightarrow> handles \<Rightarrow> (spawn_error + nat) \<times> handles" where
  "winlogonTokenForSession snapshot e session s =
    (case findProcessInSession snapshot ''winlogon.exe'' session s of
       (Inl err, s1) \<Rightarrow> (Inl err, s1)
     | (Inr pid, s1) \<Rightarrow>
         (case acquire (te_openProcess e) s1 of
            (None, s2) \<Rightarrow> (Inl ErrOpenProcess, s2)
          | (Some h, s2) \<Rightarrow>
              (case acquire (te_openToken e) s2 of
                 (None, s3) \<Rightarrow> (Inl ErrOpenProcessToken, release h s3)
               | (Some tok, s3) \<Rightarrow> (case duplicatePrimary e s3 of (r, s4) \<Rightarrow> (r, release h (release tok s4))))))"

subsection \<open>Starting an agent\<close>

definition agentDesk :: "string \<Rightarrow> string" where
  "agentDesk desktop = ''WinSta0'' @ [backslash] @ desktop"

definition agentCmd :: "string \<Rightarrow> string \<Rightarrow> bool \<Rightarrow> bool \<Rightarrow> string" where
  "agentCmd exePath pipe absolute injectLog =
    [dquote] @ exePath @ [dquote] @ '' -agent -pipe '' @ pipe @
    (if absolute then '' -absolute'' else []) @ (if injectLog then '' -injectlog'' else [])"

text \<open>What is asked of CreateProcessAsUser: the token, the desktop and the command line.\<close>

record launch =
  ln_token :: nat
  ln_desk :: string
  ln_cmd :: string

definition spawnAgentOnDesktop ::
  "bool \<Rightarrow> bool \<Rightarrow> nat \<Rightarrow> string \<Rightarrow> string \<Rightarrow> string \<Rightarrow> bool \<Rightarrow> bool \<Rightarrow> handles \<Rightarrow> (spawn_error + nat \<times> launch) \<times> handles" where
  "spawnAgentOnDesktop env_ok create_ok token exePath desktop pipe absolute injectLog s =
    (case acquire env_ok s of
       (None, s1) \<Rightarrow> (Inl ErrEnvironmentBlock, s1)
     | (Some env, s1) \<Rightarrow>
         let deskPath = agentDesk desktop; cmd = agentCmd exePath pipe absolute injectLog in
         if CHR 0x00 \<in> set deskPath \<or> CHR 0x00 \<in> set cmd then (Inl PanicNUL, release env s1)
         else (case acquire create_ok s1 of
                 (None, s2) \<Rightarrow> (Inl ErrCreateProcess, release env s2)
               | (Some process, s2) \<Rightarrow>
                   (case acquire True s2 of
                      (Some thread, s3) \<Rightarrow>
                        (Inr (process, \<lparr>ln_token = token, ln_desk = deskPath, ln_cmd = cmd\<rparr>), release env (release thread s3))
                    | (None, s3) \<Rightarrow> (Inl ErrCreateProcess, release env s3))))"

text \<open>
  The part of \<open>spawnOne\<close> up to the running process: the token of the strategy, the agent under
  it, and the token closed whatever happens.
\<close>

record launch_env =
  le_tokens :: token_env
  le_snapshot :: "proc_entry list option"
  le_envBlock :: bool
  le_create :: bool

definition launchAgent ::
  "launch_env \<Rightarrow> string \<Rightarrow> string \<Rightarrow> bool \<Rightarrow> uint32 \<Rightarrow> string \<Rightarrow> handles \<Rightarrow> (spawn_error + nat \<times> launch) \<times> handles" where
  "launchAgent e exe pipe injectLog sess desk s =
    (let strat = tokenStrategyFor desk in
     case (case strat of TokenUser \<Rightarrow> userTokenForSession (le_tokens e) s
                       | _ \<Rightarrow> winlogonTokenForSession (le_snapshot e) (le_tokens e) sess s) of
       (Inl err, s1) \<Rightarrow> (Inl err, s1)
     | (Inr tok, s1) \<Rightarrow>
         (case spawnAgentOnDesktop (le_envBlock e) (le_create e) tok exe desk pipe (strat \<noteq> TokenUser) injectLog s1 of
            (r, s2) \<Rightarrow> (r, release tok s2)))"

subsection \<open>No handle is lost\<close>

text \<open>A step that leaves open what it returns and nothing else.\<close>

definition balanced :: "handles \<Rightarrow> nat option \<Rightarrow> handles \<Rightarrow> bool" where
  "balanced s r s' \<longleftrightarrow> handles_ok s' \<and> hd_next s \<le> hd_next s' \<and>
     (case r of None \<Rightarrow> hd_open s' = hd_open s | Some h \<Rightarrow> hd_open s' = h # hd_open s \<and> hd_next s \<le> h)"

lemma acquire_balanced [inv_intros]: "handles_ok s \<Longrightarrow> acquire ok s = (r, s') \<Longrightarrow> balanced s r s'"
  by (auto simp: acquire_def balanced_def handles_ok_def less_Suc_eq split: if_splits)

lemma release_last:
  assumes "handles_ok s" and "balanced s (Some h) s'"
  shows "balanced s None (release h s')"
proof -
  have "filter (\<lambda>x. x \<noteq> h) (hd_open s) = hd_open s"
    using assms by (intro filter_True) (auto simp: balanced_def handles_ok_def)
  with assms show ?thesis by (auto simp: balanced_def release_def handles_ok_def)
qed

lemma release_under:
  assumes "handles_ok s" and "balanced s (Some t) s1" and "balanced s1 r s2"
  shows "balanced s r (release t s2)"
proof -
  have "filter (\<lambda>x. x \<noteq> t) (hd_open s) = hd_open s"
    using assms(1,2) by (intro filter_True) (auto simp: balanced_def handles_ok_def)
  moreover have "r \<noteq> Some t" using assms(2,3) by (auto simp: balanced_def handles_ok_def)
  ultimately show ?thesis using assms by (cases r) (auto simp: balanced_def release_def handles_ok_def)
qed

lemma balanced_ok: "balanced s r s' \<Longrightarrow> handles_ok s'"
  by (simp add: balanced_def)

lemma balanced_trans: "balanced s None s1 \<Longrightarrow> balanced s1 r s2 \<Longrightarrow> balanced s r s2"
  by (cases r) (auto simp: balanced_def)

definition ok_handle :: "spawn_error + nat \<Rightarrow> nat option" where
  "ok_handle r = (case r of Inl _ \<Rightarrow> None | Inr h \<Rightarrow> Some h)"

lemma ok_handle_simps [simp]: "ok_handle (Inl e) = None" "ok_handle (Inr h) = Some h"
  by (simp_all add: ok_handle_def)

lemma enablePrivilege_balanced: "handles_ok s \<Longrightarrow> balanced s None (snd (enablePrivilege e s))"
  by (auto simp: enablePrivilege_def split: option.splits prod.splits
      dest: acquire_balanced intro: release_last)

lemma duplicatePrimary_balanced: "handles_ok s \<Longrightarrow> duplicatePrimary e s = (r, s') \<Longrightarrow> balanced s (ok_handle r) s'"
  by (auto simp: duplicatePrimary_def split: option.splits prod.splits dest: acquire_balanced)

lemma userToken_balanced:
  assumes "handles_ok s" and "userTokenForSession e s = (r, s')"
  shows "balanced s (ok_handle r) s'"
proof (cases "acquire (te_query e) s")
  case (Pair t s1)
  note A = acquire_balanced [OF assms(1) Pair]
  show ?thesis
  proof (cases t)
    case None
    with assms(2) Pair A show ?thesis by (auto simp: userTokenForSession_def)
  next
    case (Some tok)
    obtain r2 s2 where D: "duplicatePrimary e s1 = (r2, s2)" by fastforce
    from release_under [OF assms(1) A [unfolded Some] duplicatePrimary_balanced [OF balanced_ok [OF A] D]]
    show ?thesis using assms(2) Pair Some D by (auto simp: userTokenForSession_def)
  qed
qed

lemma findProcess_balanced: "handles_ok s \<Longrightarrow> balanced s None (snd (findProcessInSession snapshot exe session s))"
  by (auto simp: findProcessInSession_def split: option.splits prod.splits dest: acquire_balanced intro: release_last)

lemma winlogonToken_balanced:
  assumes "handles_ok s" and "winlogonTokenForSession snapshot e session s = (r, s')"
  shows "balanced s (ok_handle r) s'"
proof -
  obtain f s1 where F: "findProcessInSession snapshot ''winlogon.exe'' session s = (f, s1)" by fastforce
  have B1: "balanced s None s1" using findProcess_balanced [OF assms(1), of snapshot "''winlogon.exe''" session] F by simp
  obtain t2 s2 where A2: "acquire (te_openProcess e) s1 = (t2, s2)" by fastforce
  note B2 = acquire_balanced [OF balanced_ok [OF B1] A2]
  obtain t3 s3 where A3: "acquire (te_openToken e) s2 = (t3, s3)" by fastforce
  note B3 = acquire_balanced [OF balanced_ok [OF B2] A3]
  obtain r4 s4 where D: "duplicatePrimary e s3 = (r4, s4)" by fastforce
  note B4 = duplicatePrimary_balanced [OF balanced_ok [OF B3] D]
  consider (found) "\<exists>err. f = Inl err" | (noproc) pid where "f = Inr pid" "t2 = None"
    | (tok) pid h where "f = Inr pid" "t2 = Some h" "t3 = None" | (all) pid h tok where "f = Inr pid" "t2 = Some h" "t3 = Some tok"
    by (metis not_None_eq old.sum.exhaust)
  then show ?thesis
  proof cases
    case found
    with assms(2) F B1 show ?thesis by (auto simp: winlogonTokenForSession_def)
  next
    case noproc
    with assms(2) F A2 balanced_trans [OF B1 B2] show ?thesis by (auto simp: winlogonTokenForSession_def)
  next
    case tok
    have "balanced s1 None (release h s3)"
      using release_under [OF balanced_ok [OF B1] B2 [unfolded tok] B3 [unfolded tok]] .
    with assms(2) F A2 A3 tok balanced_trans [OF B1] show ?thesis by (auto simp: winlogonTokenForSession_def)
  next
    case all
    have "balanced s2 (ok_handle r4) (release tok s4)"
      using release_under [OF balanced_ok [OF B2] B3 [unfolded all] B4] .
    then have "balanced s1 (ok_handle r4) (release h (release tok s4))"
      by (rule release_under [OF balanced_ok [OF B1] B2 [unfolded all]])
    with assms(2) F A2 A3 D all balanced_trans [OF B1] show ?thesis by (auto simp: winlogonTokenForSession_def)
  qed
qed

definition launched :: "spawn_error + nat \<times> launch \<Rightarrow> nat option" where
  "launched r = (case r of Inl _ \<Rightarrow> None | Inr (h, _) \<Rightarrow> Some h)"

lemma launched_simps [simp]: "launched (Inl e) = None" "launched (Inr (h, l)) = Some h"
  by (simp_all add: launched_def)

lemma spawnAgent_balanced:
  assumes "handles_ok s" and "spawnAgentOnDesktop env_ok create_ok token exe desk pipe ab il s = (r, s')"
  shows "balanced s (launched r) s'"
proof -
  obtain t1 s1 where A1: "acquire env_ok s = (t1, s1)" by fastforce
  note B1 = acquire_balanced [OF assms(1) A1]
  obtain t2 s2 where A2: "acquire create_ok s1 = (t2, s2)" by fastforce
  note B2 = acquire_balanced [OF balanced_ok [OF B1] A2]
  obtain th s3 where A3: "acquire True s2 = (Some th, s3)" by (simp add: acquire_def)
  note B3 = release_last [OF balanced_ok [OF B2] acquire_balanced [OF balanced_ok [OF B2] A3]]
  show ?thesis
  proof (cases t1)
    case None
    with assms(2) A1 B1 show ?thesis by (auto simp: spawnAgentOnDesktop_def)
  next
    case (Some env)
    note R = release_last [OF assms(1) B1 [unfolded Some]]
    have R2: "balanced s t2 (release env s2)" by (rule release_under [OF assms(1) B1 [unfolded Some] B2])
    have "balanced s1 t2 (release th s3)" using B2 B3 by (cases t2) (auto simp: balanced_def)
    then have R3: "balanced s t2 (release env (release th s3))" by (rule release_under [OF assms(1) B1 [unfolded Some]])
    show ?thesis using assms(2) A1 A2 A3 Some R R2 R3
      by (cases t2) (auto simp: spawnAgentOnDesktop_def Let_def split: if_splits)
  qed
qed

lemma launchAgent_balanced [inv_intros]:
  assumes "handles_ok s" and "launchAgent e exe pipe il sess desk s = (r, s')"
  shows "balanced s (launched r) s'"
proof -
  let ?tok = "case tokenStrategyFor desk of TokenUser \<Rightarrow> userTokenForSession (le_tokens e) s
      | _ \<Rightarrow> winlogonTokenForSession (le_snapshot e) (le_tokens e) sess s"
  obtain t s1 where T: "?tok = (t, s1)" by (metis surj_pair)
  have B1: "balanced s (ok_handle t) s1"
    using userToken_balanced [OF assms(1)] winlogonToken_balanced [OF assms(1)] T by (cases "tokenStrategyFor desk") auto
  show ?thesis
  proof (cases t)
    case (Inl err)
    with assms(2) T B1 show ?thesis by (auto simp: launchAgent_def Let_def)
  next
    case (Inr tok)
    obtain r2 s2 where S: "spawnAgentOnDesktop (le_envBlock e) (le_create e) tok exe desk pipe (tokenStrategyFor desk \<noteq> TokenUser) il s1 = (r2, s2)"
      by (metis surj_pair)
    have "balanced s (launched r2) (release tok s2)"
      using release_under [OF assms(1) _ spawnAgent_balanced [OF balanced_ok [OF B1] S]] B1 Inr by simp
    with assms(2) T S Inr show ?thesis by (auto simp: launchAgent_def Let_def)
  qed
qed

text \<open>What a successful launch asks for.\<close>

lemma launchAgent_request:
  assumes "launchAgent e exe pipe il sess desk s = (Inr (h, l), s')"
  shows "ln_desk l = agentDesk desk" and "ln_cmd l = agentCmd exe pipe (desk \<noteq> ''Default'') il"
  using assms
  by (auto simp: launchAgent_def spawnAgentOnDesktop_def tokenStrategyFor_def Let_def
      split: sum.splits prod.splits option.splits if_splits)

subsection \<open>The agent's command line, read back\<close>

lemma escape_loop_no_quote:
  "dquote \<notin> set s \<Longrightarrow> escape_loop False n s = s"
  by (induction s arbitrary: n) auto

lemma argv_plain:
  assumes "s \<noteq> []" and "dquote \<notin> set s" and "\<not> list_ex blank s" and "ends_arg rest"
  shows "commandLineToArgv (s @ rest) = s # commandLineToArgv (tl rest)"
  using argv_EscapeArg [OF assms(4), of s] assms(1-3) by (simp add: EscapeArg_loop escape_loop_no_quote)

lemma argv_word:
  assumes "s \<noteq> []" and "dquote \<notin> set s" and "\<not> list_ex blank s"
  shows "commandLineToArgv (s @ space # rest) = s # commandLineToArgv rest"
  using argv_plain [OF assms, of "space # rest"] by (simp add: ends_arg_def)

lemma escape_loop_quoted:
  "dquote \<notin> set s \<Longrightarrow> s = [] \<longrightarrow> n = 0 \<Longrightarrow> s \<noteq> [] \<longrightarrow> last s \<noteq> backslash \<Longrightarrow> escape_loop True n s = s @ [dquote]"
  by (induction s arbitrary: n) (auto split: if_splits)

lemma argv_quoted:
  assumes "dquote \<notin> set s" and "s \<noteq> []" and "last s \<noteq> backslash"
  shows "commandLineToArgv ([dquote] @ s @ [dquote, space] @ rest) = s # commandLineToArgv rest"
proof -
  have "readNextArg [] True 0 (escape_loop True 0 s @ space # rest) = (s, rest)"
    using read_quoted_loop [of "space # rest" "[]" 0 s] by (simp add: ends_arg_def)
  then have "readNextArg [] True 0 (s @ dquote # space # rest) = (s, rest)" using escape_loop_quoted [of s 0] assms by simp
  moreover have "hd (s @ dquote # space # rest) \<noteq> dquote" using assms(1,2) by (cases s) auto
  ultimately show ?thesis by (simp add: commandLineToArgv.simps(2) read_steps)
qed

definition agent_config :: "string \<Rightarrow> string \<Rightarrow> bool \<Rightarrow> bool \<Rightarrow> appConfig" where
  "agent_config host pipe absolute injectLog =
    (default_config host)\<lparr>ac_agent := True, ac_pipe := pipe, ac_absolute := absolute, ac_injectLog := injectLog\<rparr>"

lemma agentCmd_argv:
  assumes "exe \<noteq> []" and "dquote \<notin> set exe" and "last exe \<noteq> backslash" and "pipe \<noteq> []" and "dquote \<notin> set pipe" and "\<not> list_ex blank pipe"
  shows "commandLineToArgv (agentCmd exe pipe ab il) =
    [exe, ''-agent'', ''-pipe'', pipe] @ (if ab then [''-absolute''] else []) @ (if il then [''-injectlog''] else [])"
proof -
  let ?tail = "(if ab then '' -absolute'' else []) @ (if il then '' -injectlog'' else [])"
  have "commandLineToArgv (agentCmd exe pipe ab il) = exe # commandLineToArgv (''-agent'' @ space # ''-pipe'' @ space # pipe @ ?tail)"
    using argv_quoted [OF assms(2,1,3), of "''-agent -pipe '' @ pipe @ ?tail"] by (simp add: agentCmd_def)
  also have "commandLineToArgv (''-agent'' @ space # ''-pipe'' @ space # pipe @ ?tail) = ''-agent'' # ''-pipe'' # commandLineToArgv (pipe @ ?tail)"
    using argv_word [of "''-agent''" "''-pipe'' @ space # pipe @ ?tail"] argv_word [of "''-pipe''" "pipe @ ?tail"]
    by (simp add: blank_def)
  also have "commandLineToArgv (pipe @ ?tail) = pipe # commandLineToArgv (tl ?tail)"
    by (rule argv_plain [OF assms(4-6)]) (simp add: ends_arg_def)
  also have "commandLineToArgv (tl ?tail) = (if ab then [''-absolute''] else []) @ (if il then [''-injectlog''] else [])"
    using argv_word [of "''-absolute''" "''-injectlog''"] argv_plain [of "''-absolute''" "[]"] argv_plain [of "''-injectlog''" "[]"]
    by (simp add: blank_def ends_arg_def)
  finally show ?thesis by simp
qed

lemma agentCmd_config:
  assumes "exe \<noteq> []" and "dquote \<notin> set exe" and "last exe \<noteq> backslash" and "pipe \<noteq> []" and "dquote \<notin> set pipe" and "\<not> list_ex blank pipe"
  shows "main_config host (tl (commandLineToArgv (agentCmd exe pipe ab il))) = Inr (agent_config host pipe ab il)"
  by (simp add: agentCmd_argv [OF assms] main_config_def step_simps agent_config_def default_config_def zero_config_def)

lemma agent_config_mode: "mode (agent_config host pipe ab il) = ''agent''"
  by (simp add: mode_def agent_config_def default_config_def zero_config_def)

subsection \<open>The autostart command\<close>

definition autostartCmd :: "string \<Rightarrow> string \<Rightarrow> goint \<Rightarrow> string \<Rightarrow> string" where
  "autostartCmd exe pass port name =
    EscapeArg exe @ '' -pass '' @ EscapeArg pass @ '' -port '' @ Itoa port @
    (if TrimSpace name \<noteq> [] then '' -name '' @ EscapeArg name else [])"

lemma fmt_int_chars: "c \<in> set (fmt_int i) \<Longrightarrow> is_digit c \<or> c = CHR ''-''"
  by (auto simp: fmt_int_def dec_digits_digits split: if_splits)

lemma EscapeArg_Itoa [simp]: "EscapeArg (Itoa i) = Itoa i"
proof -
  have "\<not> list_ex blank (Itoa i)" "dquote \<notin> set (Itoa i)" "backslash \<notin> set (Itoa i)"
    using fmt_int_chars [of _ "sint i"] by (fastforce simp: Itoa_def list_ex_iff blank_def is_digit_def)+
  moreover have "Itoa i \<noteq> []" by (simp add: Itoa_def fmt_int_def)
  ultimately show ?thesis by (simp add: EscapeArg_def Let_def)
qed

lemma autostartCmd_line:
  "autostartCmd exe pass port name =
    elevatedArgLine ([exe, ''-pass'', pass, ''-port'', Itoa port] @ (if TrimSpace name \<noteq> [] then [''-name'', name] else []))"
  by (simp add: autostartCmd_def elevatedArgLine_def EscapeArg_def [of "CHR ''-'' # _"] blank_def)

lemma autostartCmd_argv:
  "commandLineToArgv (autostartCmd exe pass port name) =
    [exe, ''-pass'', pass, ''-port'', Itoa port] @ (if TrimSpace name \<noteq> [] then [''-name'', name] else [])"
  by (simp only: autostartCmd_line argv_elevatedArgLine)

lemma autostartCmd_config:
  "main_config host (tl (commandLineToArgv (autostartCmd exe pass port name))) =
    Inr ((default_config host)\<lparr>ac_pass := pass, ac_port := port,
           ac_name := (if TrimSpace name \<noteq> [] then name else sanitizeName host)\<rparr>)"
  by (simp add: autostartCmd_argv main_config_def step_simps default_config_def zero_config_def)

subsection \<open>The agent process\<close>

text \<open>Up to twenty attempts; the connection is the bytes it will deliver until it is closed.\<close>

fun dial_loop :: "(nat \<Rightarrow> 'c option) \<Rightarrow> nat \<Rightarrow> nat \<Rightarrow> 'c option" where
  "dial_loop dial i 0 = None"
| "dial_loop dial i (Suc n) = (case dial i of Some c \<Rightarrow> Some c | None \<Rightarrow> dial_loop dial (Suc i) n)"

record agent_run =
  ag_role :: string
  ag_inj :: winInjector
  ag_verbose :: bool
  ag_calls :: "call list"

definition runAgent :: "(nat \<Rightarrow> string \<Rightarrow> int option \<Rightarrow> string option) \<Rightarrow> appConfig \<Rightarrow> agent_run option" where
  "runAgent dial cfg =
    (let role = (if ac_absolute cfg then ''agent-secure'' else ''agent-user'') in
     case dial_loop (\<lambda>i. dialInjectPipe (dial i) (ac_pipe cfg)) 0 20 of
       None \<Rightarrow> None
     | Some conn \<Rightarrow>
         Some \<lparr>ag_role = role, ag_inj = (if ac_absolute cfg then newSecureInjector else newInjector),
               ag_verbose = ac_injectLog cfg, ag_calls = runAgentLoop conn\<rparr>)"

lemma dial_loop_iff: "dial_loop dial i n \<noteq> None \<longleftrightarrow> (\<exists>k < n. dial (i + k) \<noteq> None)"
proof (induction n arbitrary: i)
  case (Suc n)
  show ?case
  proof (cases "dial i")
    case None
    have "(\<exists>k < Suc n. dial (i + k) \<noteq> None) \<longleftrightarrow> (\<exists>k < n. dial (Suc i + k) \<noteq> None)"
      using None by (metis Suc_less_eq add_Suc_shift add_0_right gr0_implies_Suc not_gr_zero)
    with Suc None show ?thesis by simp
  qed (auto intro!: exI [of _ 0])
qed simp

end
