(* ===== verification/Netinfo.thy ===== *)
theory Netinfo
  imports Config
begin

unbundle bit_operations_syntax

text \<open>
  netinfo.go and the interface selection of serve.go: which IPv4 address the panel recommends,
  and on which interfaces the service announces itself.  The interfaces of the machine are an
  argument; a \<open>net.IP\<close> is its bytes, of length 0, 4 or 16.
\<close>

subsection \<open>Addresses\<close>

record ifaceAddrs =
  ia_Name :: string
  ia_Up :: bool
  ia_Loop :: bool
  ia_Addrs :: "string list"

record hostIPs =
  ip_Primary :: string
  ip_Secondary :: "string list"

definition To4 :: "string \<Rightarrow> string option" where
  "To4 ip =
    (if length ip = 4 then Some ip
     else if length ip = 16 \<and> take 10 ip = replicate 10 (CHR 0x00) \<and> ip ! 10 = CHR 0xFF \<and> ip ! 11 = CHR 0xFF
     then Some (drop 12 ip) else None)"

text \<open>On the four bytes of an IPv4 address.\<close>

definition octet :: "string \<Rightarrow> nat \<Rightarrow> nat" where
  "octet v4 i = byte_val (v4 ! i)"

definition IsLoopback :: "string \<Rightarrow> bool" where
  "IsLoopback v4 \<longleftrightarrow> octet v4 0 = 127"

definition IsLinkLocalUnicast :: "string \<Rightarrow> bool" where
  "IsLinkLocalUnicast v4 \<longleftrightarrow> octet v4 0 = 169 \<and> octet v4 1 = 254"

definition IsPrivate :: "string \<Rightarrow> bool" where
  "IsPrivate v4 \<longleftrightarrow> octet v4 0 = 10 \<or> octet v4 0 = 172 \<and> octet v4 1 div 16 = 1 \<or> octet v4 0 = 192 \<and> octet v4 1 = 168"

definition ip_String :: "string \<Rightarrow> string" where
  "ip_String v4 = strings_Join (map (\<lambda>c. dec_digits (byte_val c)) v4) ''.''"

subsection \<open>Virtual adapters\<close>

definition virtualKeywords :: "string list" where
  "virtualKeywords = [''vethernet'', ''hyper-v'', ''vmware'', ''virtualbox'', ''vbox'',
     ''loopback'', ''bluetooth'', ''wsl'', ''tailscale'', ''docker'', ''tun'', ''tap'']"

text \<open>
  \<open>strings.ToLower\<close> as far as its result can hold ASCII letters: the capital letters, and the two
  other runes whose lower case is one (I with a dot above, the Kelvin sign).  The keywords are
  ASCII, so no other rune of a name can take part in a match.
\<close>

definition lower_rune :: "nat \<Rightarrow> nat" where
  "lower_rune r = (if 65 \<le> r \<and> r \<le> 90 then r + 32 else if r = 0x130 then 105 else if r = 0x212A then 107 else r)"

definition lower_name :: "string \<Rightarrow> string" where
  "lower_name n = utf8 (map lower_rune (runes n))"

fun strings_Contains :: "string \<Rightarrow> string \<Rightarrow> bool" where
  "strings_Contains [] k \<longleftrightarrow> k = []"
| "strings_Contains (c # s) k \<longleftrightarrow> take (length k) (c # s) = k \<or> strings_Contains s k"

definition isVirtualName :: "string \<Rightarrow> bool" where
  "isVirtualName name = list_ex (strings_Contains (lower_name name)) virtualKeywords"

subsection \<open>pickIPs\<close>

text \<open>The body of the inner loop, then of the outer one; the two lists grow at their end.\<close>

definition add_ip :: "bool \<Rightarrow> string list \<times> string list \<Rightarrow> string \<Rightarrow> string list \<times> string list" where
  "add_ip virtual acc ip =
    (case To4 ip of
       None \<Rightarrow> acc
     | Some v4 \<Rightarrow>
         if IsLoopback v4 \<or> IsLinkLocalUnicast v4 then acc
         else if \<not> virtual \<and> IsPrivate v4 then (fst acc @ [ip_String v4], snd acc)
         else (fst acc, snd acc @ [ip_String v4]))"

definition add_iface :: "string list \<times> string list \<Rightarrow> ifaceAddrs \<Rightarrow> string list \<times> string list" where
  "add_iface acc f =
    (if \<not> ia_Up f \<or> ia_Loop f then acc else foldl (add_ip (isVirtualName (ia_Name f))) acc (ia_Addrs f))"

definition pickIPs :: "ifaceAddrs list \<Rightarrow> hostIPs" where
  "pickIPs ifaces =
    (case foldl add_iface ([], []) ifaces of (physPrivate, others) \<Rightarrow>
       if physPrivate \<noteq> [] then \<lparr>ip_Primary = hd physPrivate, ip_Secondary = tl physPrivate @ others\<rparr>
       else if others \<noteq> [] then \<lparr>ip_Primary = hd others, ip_Secondary = tl others\<rparr>
       else \<lparr>ip_Primary = [], ip_Secondary = []\<rparr>)"

subsection \<open>Interfaces to announce on\<close>

definition hasRoutableV4 :: "string list \<Rightarrow> bool" where
  "hasRoutableV4 addrs =
     list_ex (\<lambda>ip. case To4 ip of None \<Rightarrow> False | Some v4 \<Rightarrow> \<not> IsLoopback v4 \<and> \<not> IsLinkLocalUnicast v4) addrs"

definition keepAnnounceIface :: "ifaceAddrs \<Rightarrow> bool" where
  "keepAnnounceIface f = (ia_Up f \<and> \<not> ia_Loop f \<and> \<not> isVirtualName (ia_Name f) \<and> hasRoutableV4 (ia_Addrs f))"

text \<open>A \<open>net.Interface\<close>; its addresses may fail to be read, and may be no \<open>IPNet\<close>.\<close>

datatype net_addr = IPNet string | OtherAddr

record net_iface =
  ni_Name :: string
  ni_Flags :: uint32
  ni_Addrs :: "net_addr list option"

definition FlagUp :: uint32 where "FlagUp = 1"
definition FlagLoopback :: uint32 where "FlagLoopback = 4"

definition iface_of :: "net_iface \<Rightarrow> ifaceAddrs" where
  "iface_of i =
    \<lparr>ia_Name = ni_Name i, ia_Up = (ni_Flags i AND FlagUp \<noteq> 0), ia_Loop = (ni_Flags i AND FlagLoopback \<noteq> 0),
     ia_Addrs = List.map_filter (\<lambda>a. case a of IPNet ip \<Rightarrow> Some ip | OtherAddr \<Rightarrow> None)
       (case ni_Addrs i of None \<Rightarrow> [] | Some as \<Rightarrow> as)\<rparr>"

definition DetectIPs :: "net_iface list option \<Rightarrow> hostIPs" where
  "DetectIPs list = (case list of None \<Rightarrow> \<lparr>ip_Primary = [], ip_Secondary = []\<rparr> | Some is \<Rightarrow> pickIPs (map iface_of is))"

definition announceIfaces :: "net_iface list option \<Rightarrow> (net_iface list \<times> string list) option" where
  "announceIfaces list =
    (case list of
       None \<Rightarrow> None
     | Some is \<Rightarrow>
         let ifs = filter (\<lambda>i. keepAnnounceIface (iface_of i)) is
         in if ifs = [] then None else Some (ifs, map ni_Name ifs))"

subsection \<open>What is picked\<close>

text \<open>The usable addresses of an interface, and which of them are preferred.\<close>

definition usable :: "ifaceAddrs \<Rightarrow> string list" where
  "usable f =
    (if ia_Up f \<and> \<not> ia_Loop f
     then filter (\<lambda>v4. \<not> IsLoopback v4 \<and> \<not> IsLinkLocalUnicast v4) (List.map_filter To4 (ia_Addrs f)) else [])"

definition preferred :: "ifaceAddrs \<Rightarrow> string \<Rightarrow> bool" where
  "preferred f v4 \<longleftrightarrow> \<not> isVirtualName (ia_Name f) \<and> IsPrivate v4"

definition phys_ips :: "ifaceAddrs list \<Rightarrow> string list" where
  "phys_ips fs = concat (map (\<lambda>f. map ip_String (filter (preferred f) (usable f))) fs)"

definition other_ips :: "ifaceAddrs list \<Rightarrow> string list" where
  "other_ips fs = concat (map (\<lambda>f. map ip_String (filter (\<lambda>v. \<not> preferred f v) (usable f))) fs)"

lemma foldl_add_ip:
  "foldl (add_ip virtual) acc ips =
    (let us = filter (\<lambda>v4. \<not> IsLoopback v4 \<and> \<not> IsLinkLocalUnicast v4) (List.map_filter To4 ips); p = (\<lambda>v4. \<not> virtual \<and> IsPrivate v4)
     in (fst acc @ map ip_String (filter p us), snd acc @ map ip_String (filter (\<lambda>v. \<not> p v) us)))"
  by (induction ips arbitrary: acc) (auto simp: add_ip_def Let_def List.map_filter_def split: option.splits)

lemma add_iface_spec:
  "add_iface acc f = (fst acc @ map ip_String (filter (preferred f) (usable f)), snd acc @ map ip_String (filter (\<lambda>v. \<not> preferred f v) (usable f)))"
  by (simp add: add_iface_def foldl_add_ip usable_def preferred_def Let_def)

lemma foldl_add_iface: "foldl add_iface acc fs = (fst acc @ phys_ips fs, snd acc @ other_ips fs)"
  by (induction fs arbitrary: acc) (simp_all add: add_iface_spec phys_ips_def other_ips_def)

lemma pickIPs_lists:
  "pickIPs fs = (case phys_ips fs @ other_ips fs of [] \<Rightarrow> \<lparr>ip_Primary = [], ip_Secondary = []\<rparr> | p # ps \<Rightarrow> \<lparr>ip_Primary = p, ip_Secondary = ps\<rparr>)"
  by (cases "phys_ips fs"; cases "other_ips fs") (simp_all add: pickIPs_def foldl_add_iface)

lemma mset_ips: "mset (phys_ips fs @ other_ips fs) = mset (concat (map (\<lambda>f. map ip_String (usable f)) fs))"
proof (induction fs)
  case (Cons f fs)
  have "mset (map ip_String (filter (preferred f) (usable f))) + mset (map ip_String (filter (\<lambda>v. \<not> preferred f v) (usable f))) =
      mset (map ip_String (usable f))"
    by (simp flip: image_mset_union)
  with Cons show ?case by (simp add: phys_ips_def other_ips_def ac_simps)
qed (simp_all add: phys_ips_def other_ips_def)

lemma hasRoutableV4_filter:
  "hasRoutableV4 ips \<longleftrightarrow> filter (\<lambda>v4. \<not> IsLoopback v4 \<and> \<not> IsLinkLocalUnicast v4) (List.map_filter To4 ips) \<noteq> []"
  by (induction ips) (auto simp: hasRoutableV4_def List.map_filter_def split: option.splits)

lemma hasRoutableV4_usable: "ia_Up f \<Longrightarrow> \<not> ia_Loop f \<Longrightarrow> hasRoutableV4 (ia_Addrs f) \<longleftrightarrow> usable f \<noteq> []"
  by (simp only: hasRoutableV4_filter usable_def if_True simp_thms)

lemma keepAnnounceIface_usable: "keepAnnounceIface f \<longleftrightarrow> \<not> isVirtualName (ia_Name f) \<and> usable f \<noteq> []"
proof (cases "ia_Up f \<and> \<not> ia_Loop f")
  case True
  then show ?thesis by (auto simp: keepAnnounceIface_def hasRoutableV4_usable)
qed (auto simp: keepAnnounceIface_def usable_def)

text \<open>A preferred address belongs to an interface that is announced on.\<close>

lemma phys_ip_announced:
  assumes "p \<in> set (phys_ips fs)"
  shows "\<exists>f \<in> set fs. keepAnnounceIface f \<and> p \<in> ip_String ` set (usable f)"
proof -
  obtain f v where f: "f \<in> set fs" "v \<in> set (usable f)" "preferred f v" "p = ip_String v"
    using assms by (auto simp: phys_ips_def)
  then have "keepAnnounceIface f" by (auto simp: keepAnnounceIface_usable preferred_def)
  with f show ?thesis by blast
qed

end
