(* ===== verification/Times.thy ===== *)
theory Times
  imports Json
begin

text \<open>
  The part of Go's time package the status payload needs: the calendar, the text
  \<open>Time.MarshalJSON\<close> writes (RFC 3339 with nanoseconds) and the one \<open>Time.UnmarshalJSON\<close> reads.  An instant is its
  nanoseconds since 1970, as in the registry; the zone is its offset in seconds.
\<close>

subsection \<open>The calendar\<close>

definition is_leap :: "int \<Rightarrow> bool" where
  "is_leap y \<longleftrightarrow> y mod 4 = 0 \<and> (y mod 100 \<noteq> 0 \<or> y mod 400 = 0)"

definition month_lengths :: "bool \<Rightarrow> nat list" where
  "month_lengths leap = [31, if leap then 29 else 28, 31, 30, 31, 30, 31, 31, 30, 31, 30, 31]"

definition days_in :: "nat \<Rightarrow> int \<Rightarrow> nat" where
  "days_in m y = month_lengths (is_leap y) ! (m - 1)"

text \<open>Days from 1 January of year 1, in years of 365 days and 4, 100 and 400 years.\<close>

definition days_before_year :: "int \<Rightarrow> int" where
  "days_before_year y =
    (let a = y - 1 in 146097 * (a div 400) + 36524 * (a mod 400 div 100) + 1461 * (a mod 100 div 4) + 365 * (a mod 4))"

definition days_of_date :: "int \<Rightarrow> nat \<Rightarrow> nat \<Rightarrow> int" where
  "days_of_date y m d = days_before_year y + int (sum_list (take (m - 1) (month_lengths (is_leap y))) + d - 1)"

fun split_months :: "nat list \<Rightarrow> nat \<Rightarrow> nat \<times> nat" where
  "split_months [] d = (1, d + 1)"
| "split_months (l # ls) d = (if d < l then (1, d + 1) else apfst Suc (split_months ls (d - l)))"

definition split_years :: "int \<Rightarrow> int \<times> nat" where
  "split_years n =
    (let n400 = n div 146097; r400 = n mod 146097;
         n100 = min 3 (r400 div 36524); r100 = r400 - 36524 * n100;
         n4 = r100 div 1461; r4 = r100 mod 1461;
         n1 = min 3 (r4 div 365)
     in (400 * n400 + 100 * n100 + 4 * n4 + n1 + 1, nat (r4 - 365 * n1)))"

definition date_of_days :: "int \<Rightarrow> int \<times> nat \<times> nat" where
  "date_of_days n = (let (y, yd) = split_years n in (y, split_months (month_lengths (is_leap y)) yd))"

lemma split_months_correct:
  assumes "d < sum_list ls" and "split_months ls d = (m, k)"
  shows "1 \<le> m \<and> m \<le> length ls \<and> 1 \<le> k \<and> k \<le> ls ! (m - 1) \<and> sum_list (take (m - 1) ls) + k = d + 1"
  using assms
proof (induction ls d arbitrary: m k rule: split_months.induct)
  case (2 l ls d)
  show ?case
  proof (cases "d < l")
    case False
    then obtain m' where m': "split_months ls (d - l) = (m', k)" "m = Suc m'"
      using "2.prems"(2) by (cases "split_months ls (d - l)") auto
    with "2.IH" [OF False _ m'(1)] "2.prems"(1) False
    have "1 \<le> m' \<and> m' \<le> length ls \<and> 1 \<le> k \<and> k \<le> ls ! (m' - 1) \<and> sum_list (take (m' - 1) ls) + k = d - l + 1" by simp
    with m'(2) False show ?thesis by (cases m') auto
  qed (use "2.prems" in auto)
qed auto

lemma div_mod_parts:
  fixes n q r :: int
  assumes "0 \<le> r" "r < n"
  shows "(n * q + r) div n = q" and "(n * q + r) mod n = r"
  using assms by (simp_all add: div_add1_eq)

lemma div_bounds:
  fixes n x :: int
  assumes "0 < n"
  shows "n * (x div n) \<le> x" and "x < n * (x div n) + n"
  using assms pos_mod_bound [of n x] pos_mod_sign [of n x] by (simp_all add: minus_mod_eq_mult_div [symmetric])

lemma div_range:
  fixes n k z :: int
  assumes "0 < n" "0 \<le> z" "z < n * k"
  shows "0 \<le> z div n \<and> z div n < k"
proof -
  have "n * (z div n) < n * k" using div_bounds(1) [OF assms(1), of z] assms(3) by (rule le_less_trans)
  with assms show ?thesis by (simp add: pos_imp_zdiv_nonneg_iff)
qed

lemma year_parts:
  fixes a b c e :: int
  assumes "0 \<le> b" "b \<le> 3" "0 \<le> c" "c \<le> 24" "0 \<le> e" "e \<le> 3" and y: "y = 400 * a + 100 * b + 4 * c + e"
  shows "y div 400 = a" "y mod 400 div 100 = b" "y mod 100 div 4 = c" "y mod 4 = e"
proof -
  have y400: "y = 400 * a + (100 * b + (4 * c + e))" and y100: "y = 100 * (4 * a + b) + (4 * c + e)"
    and y4: "y = 4 * (100 * a + 25 * b + c) + e"
    using y by simp_all
  have r: "0 \<le> 4 * c + e" "4 * c + e < 100" "0 \<le> 100 * b + (4 * c + e)" "100 * b + (4 * c + e) < 400"
    using assms by simp_all
  show "y div 400 = a" "y mod 400 div 100 = b"
    unfolding y400 div_mod_parts [OF r(3,4)] div_mod_parts [OF r(1,2)] by (rule refl)+
  have "e < 4" using assms(6) by simp
  with assms(5) show "y mod 100 div 4 = c" and "y mod 4 = e"
    using div_mod_parts(1) [of e 4 c] div_mod_parts(2) [of e 4 "100 * a + 25 * b + c"] div_mod_parts(2) [OF r(1,2), of "4 * a + b"]
    by (simp_all only: y100 [symmetric] y4 [symmetric])
qed

lemma split_years_correct:
  assumes "split_years n = (y, yd)"
  shows "days_before_year y + int yd = n" and "yd < 365 + (if is_leap y then 1 else 0)"
proof -
  define a where "a = n div 146097"
  define r400 where "r400 = n mod 146097"
  define b where "b = min 3 (r400 div 36524)"
  define r100 where "r100 = r400 - 36524 * b"
  define c where "c = r100 div 1461"
  define r4 where "r4 = r100 mod 1461"
  define e where "e = min 3 (r4 div 365)"
  have y: "y = 400 * a + 100 * b + 4 * c + e + 1" and yd: "yd = nat (r4 - 365 * e)"
    using assms by (auto simp: split_years_def Let_def a_def b_def c_def e_def r400_def r100_def r4_def)
  have n: "n = 146097 * a + r400" "0 \<le> r400" "r400 < 146097" by (simp_all add: a_def r400_def)
  have b: "0 \<le> b" "b \<le> 3" "0 \<le> r100" "r100 \<le> 36524" "b < 3 \<Longrightarrow> r100 < 36524"
    using n(2,3) div_bounds [of 36524 r400] unfolding r100_def b_def min_def by (simp_all split: if_splits)
  have c: "r100 = 1461 * c + r4" "0 \<le> r4" "r4 < 1461" "0 \<le> c" "c \<le> 24"
    using b(3,4) div_bounds [of 1461 r100] unfolding c_def r4_def by (simp_all add: pos_imp_zdiv_nonneg_iff)
  have e: "0 \<le> e" "e \<le> 3" "0 \<le> r4 - 365 * e" "r4 - 365 * e \<le> 365" "e < 3 \<Longrightarrow> r4 - 365 * e < 365"
    using c(2,3) div_bounds [of 365 r4] unfolding e_def min_def by (simp_all split: if_splits)
  have "y - 1 = 400 * a + 100 * b + 4 * c + e" using y by simp
  note p = year_parts [OF b(1,2) c(4,5) e(1,2) this]
  show "days_before_year y + int yd = n"
    using n(1) c(1) e(3) yd p by (simp add: days_before_year_def Let_def r100_def)
  have "is_leap y" if "r4 - 365 * e = 365"
  proof -
    have e3: "e = 3" "r4 = 1460" using that e c(3) by linarith+
    then have last: "c = 24 \<Longrightarrow> b = 3" using b c(1) by linarith
    have y': "y = 100 * (4 * a + b) + 4 * (c + 1)" using y e3(1) by simp
    then have "y = 4 * (25 * (4 * a + b) + c + 1)" by simp
    then have four: "y mod 4 = 0" by simp
    show ?thesis
    proof (cases "c = 24")
      case True
      then have "y = 400 * (a + 1)" using last y' by simp
      then have "y mod 400 = 0" by simp
      with four show ?thesis by (simp add: is_leap_def)
    next
      case False
      then have "0 \<le> 4 * (c + 1)" and "4 * (c + 1) < 100" using c(4,5) by simp_all
      then have "y mod 100 = 4 * (c + 1)" unfolding y' by (rule div_mod_parts)
      with four c(4) show ?thesis by (simp add: is_leap_def)
    qed
  qed
  then have "is_leap y \<or> r4 - 365 * e < 365" using e(4) by linarith
  then show "yd < 365 + (if is_leap y then 1 else 0)" using yd e(3,4) by auto
qed

lemma date_of_days_correct:
  assumes "date_of_days n = (y, m, d)"
  shows "1 \<le> m" "m \<le> 12" "1 \<le> d" "d \<le> days_in m y" "days_of_date y m d = n"
proof -
  obtain yd where s: "split_years n = (y, yd)" "split_months (month_lengths (is_leap y)) yd = (m, d)"
    using assms by (auto simp: date_of_days_def split: prod.splits)
  have "yd < sum_list (month_lengths (is_leap y))"
    using split_years_correct(2) [OF s(1)] by (simp add: month_lengths_def split: if_splits)
  note k = split_months_correct [OF this s(2)]
  have "length (month_lengths (is_leap y)) = 12" by (simp add: month_lengths_def)
  with k split_years_correct(1) [OF s(1)]
  show "1 \<le> m" "m \<le> 12" "1 \<le> d" "d \<le> days_in m y" "days_of_date y m d = n"
    by (auto simp: days_in_def days_of_date_def)
qed

lemma year_range:
  assumes "date_of_days n = (y, m, d)" and "0 \<le> n" and "n < 3652059"
  shows "1 \<le> y \<and> y \<le> 9999"
proof -
  obtain yd where s: "split_years n = (y, yd)" using assms(1) by (auto simp: date_of_days_def split: prod.splits)
  define a where "a = (y - 1) div 400"
  define b where "b = (y - 1) mod 400 div 100"
  define c where "c = (y - 1) mod 100 div 4"
  define e where "e = (y - 1) mod 4"
  have r: "0 \<le> b" "b \<le> 3" "0 \<le> c" "c \<le> 24" "0 \<le> e" "e \<le> 3"
    using div_range [of 100 "(y - 1) mod 400" 4] div_range [of 4 "(y - 1) mod 100" 25] unfolding b_def c_def e_def by simp_all
  have y: "y - 1 = 400 * a + 100 * b + 4 * c + e"
  proof -
    have "(y - 1) mod 400 mod 100 = (y - 1) mod 100" and "(y - 1) mod 100 mod 4 = (y - 1) mod 4"
      by (rule mod_mod_cancel; simp)+
    then have "100 * b + (y - 1) mod 100 = (y - 1) mod 400" and "4 * c + e = (y - 1) mod 100" and "400 * a + (y - 1) mod 400 = y - 1"
      using mult_div_mod_eq [of 100 "(y - 1) mod 400"] mult_div_mod_eq [of 4 "(y - 1) mod 100"]
      by (simp_all only: a_def b_def c_def e_def mult_div_mod_eq)
    then show ?thesis by (metis add.assoc)
  qed
  have "146097 * a + 36524 * b + 1461 * c + 365 * e + int yd = n"
    using split_years_correct(1) [OF s] by (simp add: days_before_year_def Let_def a_def b_def c_def e_def)
  moreover have "int yd < 366" using split_years_correct(2) [OF s] by (auto split: if_splits)
  ultimately have "0 \<le> a" "a \<le> 24" "146097 * a + 36524 * b + 1461 * c + 365 * e < 3652059" using assms(2,3) r by linarith+
  with r y show ?thesis by linarith
qed

subsection \<open>Text\<close>

definition pad :: "nat \<Rightarrow> nat \<Rightarrow> string" where
  "pad w n = replicate (w - length (dec_digits n)) (CHR ''0'') @ dec_digits n"

definition strip_zeros :: "string \<Rightarrow> string" where
  "strip_zeros s = rev (dropWhile (\<lambda>c. c = CHR ''0'') (rev s))"

definition fmt_frac :: "nat \<Rightarrow> string" where
  "fmt_frac ns = (if ns = 0 then [] else CHR ''.'' # strip_zeros (pad 9 ns))"

definition fmt_zone :: "int \<Rightarrow> string" where
  "fmt_zone off =
    (if off = 0 then ''Z''
     else let z = nat (\<bar>off\<bar> div 60)
          in (if off \<le> - 60 then CHR ''-'' else CHR ''+'') # pad 2 (z div 60) @ CHR '':'' # pad 2 (z mod 60))"

definition day_ns :: int where
  "day_ns = 86400 * 10 ^ 9"

text \<open>
  \<open>marshal_time\<close> is None where \<open>MarshalJSON\<close> refuses: years of more than four digits, years before 0,
  zones of a day and more.
\<close>

definition marshal_time :: "int \<Rightarrow> int \<Rightarrow> string option" where
  "marshal_time off t =
    (let l = t + off * 10 ^ 9; (y, m, d) = date_of_days (l div day_ns + 719162);
         tod = nat (l mod day_ns); sec = tod div 10 ^ 9
     in if y < 0 \<or> 9999 < y \<or> 24 \<le> \<bar>off\<bar> div 3600 then None
        else Some (pad 4 (nat y) @ CHR ''-'' # pad 2 m @ CHR ''-'' # pad 2 d @ CHR ''T'' #
          pad 2 (sec div 3600) @ CHR '':'' # pad 2 (sec mod 3600 div 60) @ CHR '':'' # pad 2 (sec mod 60) @
          fmt_frac (tod mod 10 ^ 9) @ fmt_zone off))"

text \<open>
  Reading.  A strict parser runs first and \<open>Parse\<close> with the layout \<open>RFC3339\<close> when it fails; whatever the
  strict one takes \<open>Parse\<close> reads as the same instant, so the reader below is \<open>Parse\<close>: an hour may have one digit,
  the fraction may start with a comma, and digits after the ninth are dropped.
\<close>

definition digits_at :: "nat \<Rightarrow> string \<Rightarrow> (nat \<times> string) option" where
  "digits_at w s = (if length (take w s) = w \<and> list_all is_digit (take w s) then Some (digits_val (take w s), drop w s) else None)"

definition lit :: "char \<Rightarrow> string \<Rightarrow> string option" where
  "lit c s = (case s of [] \<Rightarrow> None | c' # r \<Rightarrow> if c' = c then Some r else None)"

definition ranged :: "nat \<Rightarrow> nat \<Rightarrow> (nat \<times> string) option \<Rightarrow> (nat \<times> string) option" where
  "ranged lo hi r = (case r of Some (n, s) \<Rightarrow> if lo \<le> n \<and> n \<le> hi then Some (n, s) else None | None \<Rightarrow> None)"

definition read_hour :: "string \<Rightarrow> (nat \<times> string) option" where
  "read_hour s = (case digits_at 2 s of Some r \<Rightarrow> Some r | None \<Rightarrow> digits_at 1 s)"

definition read_nanos :: "string \<Rightarrow> nat \<times> string" where
  "read_nanos s =
    (case s of
       c # d # r \<Rightarrow>
         if (c = CHR ''.'' \<or> c = CHR '','') \<and> is_digit d
         then let ds = take 9 (takeWhile is_digit (d # r)) in (digits_val ds * 10 ^ (9 - length ds), dropWhile is_digit (d # r))
         else (0, s)
     | _ \<Rightarrow> (0, s))"

definition read_zone :: "string \<Rightarrow> (int \<times> string) option" where
  "read_zone s =
    (case s of
       [] \<Rightarrow> None
     | c # r \<Rightarrow>
         if c = CHR ''Z'' then Some (0, r)
         else do {
           (h, r) \<leftarrow> ranged 0 24 (digits_at 2 r);
           r \<leftarrow> lit (CHR '':'') r;
           (m, r) \<leftarrow> ranged 0 60 (digits_at 2 r);
           let z = int (60 * (60 * h + m));
           if c = CHR ''+'' then Some (z, r) else if c = CHR ''-'' then Some (- z, r) else None
         })"

definition unmarshal_time :: "string \<Rightarrow> int option" where
  "unmarshal_time s =
    do {
      (y, s) \<leftarrow> digits_at 4 s;
      s \<leftarrow> lit (CHR ''-'') s;
      (m, s) \<leftarrow> ranged 1 12 (digits_at 2 s);
      s \<leftarrow> lit (CHR ''-'') s;
      (d, s) \<leftarrow> digits_at 2 s;
      s \<leftarrow> lit (CHR ''T'') s;
      (hh, s) \<leftarrow> ranged 0 23 (read_hour s);
      s \<leftarrow> lit (CHR '':'') s;
      (mm, s) \<leftarrow> ranged 0 59 (digits_at 2 s);
      s \<leftarrow> lit (CHR '':'') s;
      (ss, s) \<leftarrow> ranged 0 59 (digits_at 2 s);
      let (ns, s) = read_nanos s;
      (z, s) \<leftarrow> read_zone s;
      if s \<noteq> [] \<or> d < 1 \<or> days_in m (int y) < d then None
      else Some (((days_of_date (int y) m d - 719162) * 86400 + int (3600 * hh + 60 * mm + ss) - z) * 10 ^ 9 + int ns)
    }"

subsection \<open>What is written is read back\<close>

lemma length_dec_digits: "1 \<le> w \<Longrightarrow> n < 10 ^ w \<Longrightarrow> length (dec_digits n) \<le> w"
proof (induction n arbitrary: w rule: dec_digits.induct)
  case (1 n)
  show ?case
  proof (cases "n < 10")
    case False
    then obtain v where w: "w = Suc v" "1 \<le> v" using 1(2,3) by (cases w; cases "w - 1") auto
    then have "n div 10 < 10 ^ v" using 1(3) by (simp add: div_less_iff_less_mult mult.commute)
    with 1(1) [OF False w(2)] w False show ?thesis by (simp add: dec_digits.simps [of n])
  qed (use 1(2) in \<open>simp add: dec_digits.simps [of n]\<close>)
qed

lemma digits_val_zeros: "digits_val (replicate k (CHR ''0'') @ s) = digits_val s"
  by (induction k) (simp_all add: digits_val_def)

lemma pad_correct:
  assumes "1 \<le> w" and "n < 10 ^ w"
  shows "length (pad w n) = w" and "list_all is_digit (pad w n)" and "digits_val (pad w n) = n"
  using length_dec_digits [OF assms]
  by (auto simp: pad_def list_all_iff digits_val_zeros digits_val_dec is_digit_def dest: dec_digits_digits [unfolded is_digit_def])

lemma digits_at_pad [codec_simps]: "1 \<le> w \<Longrightarrow> n < 10 ^ w \<Longrightarrow> digits_at w (pad w n @ s) = Some (n, s)"
  by (simp add: digits_at_def pad_correct)

lemma lit_hit [codec_simps]: "lit c (c # s) = Some s"
  by (simp add: lit_def)

lemma ranged_hit [codec_simps]: "lo \<le> n \<Longrightarrow> n \<le> hi \<Longrightarrow> ranged lo hi (Some (n, s)) = Some (n, s)"
  by (simp add: ranged_def)

lemma digits_val_trailing: "digits_val (s @ replicate k (CHR ''0'')) = digits_val s * 10 ^ k"
proof (induction k)
  case (Suc k)
  have "digits_val ((s @ replicate k (CHR ''0'')) @ [CHR ''0'']) = digits_val s * 10 ^ k * 10"
    unfolding digits_val_snoc Suc.IH by simp
  then show ?case by (simp add: replicate_append_same mult.commute)
qed simp

lemma strip_zeros_split: "\<exists>k. s = strip_zeros s @ replicate k (CHR ''0'')"
proof -
  let ?z = "takeWhile (\<lambda>c. c = CHR ''0'') (rev s)"
  have "?z = replicate (length ?z) (CHR ''0'')"
    by (rule replicate_length_same [symmetric]) (auto dest: set_takeWhileD)
  then have "rev s = replicate (length ?z) (CHR ''0'') @ dropWhile (\<lambda>c. c = CHR ''0'') (rev s)"
    using takeWhile_dropWhile_id [of "\<lambda>c. c = CHR ''0''" "rev s"] by simp
  then have "s = strip_zeros s @ replicate (length ?z) (CHR ''0'')"
    by (metis rev_append rev_replicate rev_rev_ident strip_zeros_def)
  then show ?thesis ..
qed

lemma read_nanos_frac [codec_simps]:
  assumes "n < 10 ^ 9" and "z = c # cs" and "\<not> is_digit c" and "c \<noteq> CHR ''.''" "c \<noteq> CHR '',''"
  shows "read_nanos (fmt_frac n @ z) = (n, z)"
proof (cases "n = 0")
  case True
  then show ?thesis using assms by (cases cs) (simp_all add: fmt_frac_def read_nanos_def)
next
  case False
  note p = pad_correct [of 9 n, OF _ assms(1)]
  obtain k where k: "pad 9 n = strip_zeros (pad 9 n) @ replicate k (CHR ''0'')" using strip_zeros_split by blast
  let ?s = "strip_zeros (pad 9 n)"
  have n: "n = digits_val ?s * 10 ^ k" using p(3) k digits_val_trailing by (metis one_le_numeral)
  with False have "?s \<noteq> []" by (auto simp: digits_val_def)
  then obtain d ds where d: "?s = d # ds" by (cases ?s) auto
  have dig: "list_all is_digit ?s" using p(2) k by (metis list_all_append one_le_numeral)
  have len: "length ?s + k = 9" using p(1) k by (metis length_append length_replicate one_le_numeral)
  have "takeWhile is_digit (?s @ z) = ?s" "dropWhile is_digit (?s @ z) = z"
    using dig assms(2,3) by (auto simp: list_all_iff takeWhile_append2 dropWhile_append2)
  moreover have "9 - length ?s = k" "take 9 ?s = ?s" using len by auto
  ultimately show ?thesis using False d dig n assms(2) by (simp add: fmt_frac_def read_nanos_def Let_def)
qed

lemma read_zone_fmt [codec_simps]:
  assumes "60 dvd off" and "\<bar>off\<bar> div 3600 < 24"
  shows "read_zone (fmt_zone off) = Some (off, [])"
proof (cases "off = 0")
  case False
  define z where "z = nat (\<bar>off\<bar> div 60)"
  have z: "\<bar>off\<bar> = 60 * int z" using assms(1) by (simp add: z_def pos_imp_zdiv_nonneg_iff)
  have "\<bar>off\<bar> div 3600 = int z div 60" unfolding z using zdiv_zmult2_eq [of 60 "60 * int z" 60] by simp
  then have "z div 60 < 24" using assms(2) by (simp add: zdiv_int [symmetric])
  moreover have "3600 * int (z div 60) + 60 * int (z mod 60) = 60 * int z"
    using of_nat_add [of "60 * (z div 60)" "z mod 60", where 'a = int] by (simp only: mult_div_mod_eq) simp
  moreover have "digits_at 2 (pad 2 (z mod 60)) = Some (z mod 60, [])"
    using digits_at_pad [of 2 "z mod 60" "[]"] by (simp add: less_trans [OF mod_less_divisor [of 60 z]])
  moreover have "off = (if off \<le> - 60 then - (60 * int z) else 60 * int z)" using z False by (cases z) auto
  ultimately show ?thesis
    using False by (auto simp: fmt_zone_def z_def [symmetric] Let_def read_zone_def codec_simps less_imp_le split: if_splits)
qed (simp add: fmt_zone_def read_zone_def)

lemma fmt_zone_hd: "\<exists>c cs. fmt_zone off = c # cs \<and> c \<in> {CHR ''Z'', CHR ''+'', CHR ''-''}"
  by (simp add: fmt_zone_def Let_def)

lemma tod_split:
  fixes tod :: nat
  assumes "tod < 86400 * 10 ^ 9"
  defines "sec \<equiv> tod div 10 ^ 9"
  shows "sec div 3600 \<le> 23" "sec mod 3600 div 60 \<le> 59" "sec mod 60 \<le> 59"
    and "3600 * (sec div 3600) + 60 * (sec mod 3600 div 60) + sec mod 60 = sec"
    and "sec * 10 ^ 9 + tod mod 10 ^ 9 = tod"
proof -
  have "sec < 86400" using assms(1) by (simp add: sec_def less_mult_imp_div_less)
  then have "sec div 3600 < 24" by (simp add: less_mult_imp_div_less)
  then show "sec div 3600 \<le> 23" by simp
  have "sec mod 3600 div 60 < 60" by (simp add: less_mult_imp_div_less)
  then show "sec mod 3600 div 60 \<le> 59" by simp
  have "sec mod 60 < 60" by simp
  then show "sec mod 60 \<le> 59" by simp
  have "sec mod 3600 mod 60 = sec mod 60" by (rule mod_mod_cancel) simp
  then have "60 * (sec mod 3600 div 60) + sec mod 60 = sec mod 3600"
    using mult_div_mod_eq [of 60 "sec mod 3600"] by simp
  then show "3600 * (sec div 3600) + 60 * (sec mod 3600 div 60) + sec mod 60 = sec"
    unfolding add.assoc by (simp only: mult_div_mod_eq)
  show "sec * 10 ^ 9 + tod mod 10 ^ 9 = tod" unfolding sec_def by (rule div_mult_mod_eq)
qed

theorem unmarshal_marshal_time [codec_simps]:
  assumes "marshal_time off t = Some s" and "60 dvd off"
  shows "unmarshal_time s = Some t"
proof -
  define l where "l = t + off * 10 ^ 9"
  define tod where "tod = nat (l mod day_ns)"
  define sec where "sec = tod div 10 ^ 9"
  obtain y m d where ymd: "date_of_days (l div day_ns + 719162) = (y, m, d)" by (metis prod_cases3)
  have ok: "0 \<le> y" "y \<le> 9999" "\<bar>off\<bar> div 3600 < 24"
    and s: "s = pad 4 (nat y) @ CHR ''-'' # pad 2 m @ CHR ''-'' # pad 2 d @ CHR ''T'' #
      pad 2 (sec div 3600) @ CHR '':'' # pad 2 (sec mod 3600 div 60) @ CHR '':'' # pad 2 (sec mod 60) @
      fmt_frac (tod mod 10 ^ 9) @ fmt_zone off"
    using assms(1) ymd by (auto simp: marshal_time_def Let_def l_def tod_def sec_def split: if_splits)
  note date = date_of_days_correct [OF ymd]
  have d31: "d \<le> 31"
  proof -
    have "\<forall>k \<in> set (month_lengths (is_leap y)). k \<le> 31" by (simp add: month_lengths_def)
    moreover have "days_in m y \<in> set (month_lengths (is_leap y))"
      unfolding days_in_def using date(1,2) by (intro nth_mem) (auto simp: month_lengths_def)
    ultimately show ?thesis using date(4) by force
  qed
  have day: "0 < day_ns" by (simp add: day_ns_def)
  then have todi: "int tod = l mod day_ns" by (simp add: tod_def)
  with day have "int tod < day_ns" by simp
  then have "tod < 86400 * 10 ^ 9" by (simp add: day_ns_def)
  note tod = tod_split [OF this, folded sec_def]
  have hour: "read_hour (pad 2 (sec div 3600) @ r) = Some (sec div 3600, r)" for r
    using tod(1) by (simp add: read_hour_def codec_simps)
  obtain c cs where z: "fmt_zone off = c # cs" "c \<in> {CHR ''Z'', CHR ''+'', CHR ''-''}" using fmt_zone_hd by blast
  define ns where "ns = tod mod 10 ^ 9"
  have frac: "read_nanos (fmt_frac ns @ fmt_zone off) = (ns, fmt_zone off)"
    using z by (intro read_nanos_frac) (auto simp: is_digit_def ns_def)
  have d4: "digits_at 4 (pad 4 (nat y) @ r) = Some (nat y, r)" for r using ok(1,2) by (simp add: digits_at_pad)
  have d2: "digits_at 2 (pad 2 n @ r) = Some (n, r)" if "n \<le> 59" for n r using that by (simp add: digits_at_pad)
  have "unmarshal_time s =
    Some (((days_of_date (int (nat y)) m d - 719162) * 86400 +
      int (3600 * (sec div 3600) + 60 * (sec mod 3600 div 60) + sec mod 60) - off) * 10 ^ 9 + int ns)"
    unfolding s ns_def [symmetric] using date(1-4) ok d31 tod(1-3)
    by (simp add: unmarshal_time_def lit_hit ranged_hit hour d4 d2 frac read_zone_fmt [OF assms(2) ok(3)]
        del: of_nat_add of_nat_mult power_numeral)
  moreover define q r where "q = l div day_ns" and "r = l mod day_ns"
  then have l: "l = day_ns * q + r" by simp
  have "days_of_date y m d - 719162 = q" using date(5) by (simp add: q_def)
  moreover have "int (sec * 10 ^ 9 + ns) = r" using tod(5) todi by (simp add: r_def ns_def)
  ultimately show ?thesis
    using l ok(1) tod(4) by (simp add: l_def day_ns_def algebra_simps)
qed

text \<open>The text needs no escapes.\<close>

definition plain_char :: "char \<Rightarrow> bool" where
  "plain_char c \<longleftrightarrow> 0x20 \<le> (byte_val c :: nat) \<and> byte_val c < (0x80 :: nat) \<and> c \<notin> {dquote, backslash, CHR ''<'', CHR ''>'', CHR ''&''}"

lemma enc_str_plain: "list_all plain_char s \<Longrightarrow> enc_str s = dquote # s @ [dquote]"
proof -
  have "concat (map esc_chunk (chunks s)) = s" if "list_all plain_char s"
    using that
  proof (induction s)
    case (Cons c s)
    then have c: "byte_val c < (0x80 :: nat)" and p: "plain_char c" by (simp_all add: plain_char_def)
    have ne: "byte_val c \<noteq> (byte_val d :: nat)" if "d \<in> {dquote, backslash, CHR ''<'', CHR ''>'', CHR ''&''}" for d
      using p that by (auto simp: plain_char_def byte_val_eq_iff)
    have "esc_ascii (byte_val c) = [c]"
      using p ne [of dquote] ne [of backslash] ne [of "CHR ''<''"] ne [of "CHR ''>''"] ne [of "CHR ''&''"]
      by (simp add: esc_ascii_def plain_char_def)
    with Cons c show ?case
      using chunks_step [OF decode_rune_ascii [of c s]] by (simp add: esc_chunk_def)
  qed simp
  then show "list_all plain_char s \<Longrightarrow> enc_str s = dquote # s @ [dquote]" by (simp add: enc_str_def)
qed

lemma plain_digit: "is_digit c \<Longrightarrow> plain_char c"
  by (auto simp: is_digit_def plain_char_def)

lemma plain_pad: "list_all plain_char (pad w n)"
  by (auto simp: pad_def list_all_iff dest!: dec_digits_digits plain_digit) (simp add: plain_char_def)

lemma plain_frac: "list_all plain_char (fmt_frac n)"
proof -
  have "set (strip_zeros s) \<subseteq> set s" for s by (auto simp: strip_zeros_def dest: set_dropWhileD)
  then show ?thesis using plain_pad [of 9 n] by (auto simp: fmt_frac_def list_all_iff) (simp add: plain_char_def)
qed

lemma plain_zone: "list_all plain_char (fmt_zone off)"
  by (simp add: fmt_zone_def Let_def plain_pad) (simp add: plain_char_def)

lemma enc_str_time: "marshal_time off t = Some s \<Longrightarrow> enc_str s = dquote # s @ [dquote]"
  by (rule enc_str_plain)
    (auto simp: marshal_time_def Let_def plain_pad plain_frac plain_zone plain_char_def split: if_splits prod.splits)

end
