(* ===== verification/Status.thy ===== *)
theory Status
  imports Proto Clients Times Pipe Brackets
begin

text \<open>
  status.go and status_windows.go: the list of clients as JSON on the status pipe.  The unexported
  \<open>seq\<close> is not written.  \<open>Time.UnmarshalJSON\<close> gets the raw text of its value, escapes included, so the decoder
  here cuts the text of each member out of the document as the package does.
\<close>

subsection \<open>Writing\<close>

definition client_json :: "(int \<Rightarrow> int) \<Rightarrow> client \<Rightarrow> json option" where
  "client_json zone c =
    (case marshal_time (zone (cl_Since c)) (cl_Since c) of
       None \<Rightarrow> None
     | Some since \<Rightarrow> Some (JObj [(''Name'', JStr (cl_Name c)), (''Addr'', JStr (cl_Addr c)), (''Since'', JStr since)]))"

definition encodeClients :: "(int \<Rightarrow> int) \<Rightarrow> client list \<Rightarrow> string" where
  "encodeClients zone cs =
    (case those (map (client_json zone) cs) of None \<Rightarrow> ''[]'' | Some js \<Rightarrow> enc_json (JArr js))"

subsection \<open>Reading\<close>

text \<open>The raw text of the value at the head of a document that is known to be valid.\<close>

definition cut_value :: "string \<Rightarrow> (string \<times> string) option" where
  "cut_value s =
    (let s = skip_ws s
     in map_option (\<lambda>(v, r). (take (length s - length r) s, r)) (read_value (2 * length s + 2) max_depth s))"

fun raw_elems :: "nat \<Rightarrow> string \<Rightarrow> string list option" where
  "raw_elems 0 s = None"
| "raw_elems (Suc f) s =
    do {
      (v, r) \<leftarrow> cut_value s;
      case expect (CHR '','') r of
        Some r' \<Rightarrow> map_option ((#) v) (raw_elems f r')
      | None \<Rightarrow> map_option (\<lambda>_. [v]) (expect (CHR '']'') r)
    }"

fun raw_members :: "nat \<Rightarrow> string \<Rightarrow> (string \<times> string) list option" where
  "raw_members 0 s = None"
| "raw_members (Suc f) s =
    do {
      s1 \<leftarrow> expect dquote s;
      (k, s2) \<leftarrow> read_str s1;
      s3 \<leftarrow> expect (CHR '':'') s2;
      (v, r) \<leftarrow> cut_value s3;
      case expect (CHR '','') r of
        Some r' \<Rightarrow> map_option ((#) (k, v)) (raw_members f r')
      | None \<Rightarrow> map_option (\<lambda>_. [(k, v)]) (expect (CHR ''}'') r)
    }"

definition decode_string :: "string \<Rightarrow> string \<Rightarrow> string option" where
  "decode_string raw old =
    (case parse_json raw of Some v \<Rightarrow> (case get_str v old of (x, ok) \<Rightarrow> if ok then Some x else None) | None \<Rightarrow> None)"

definition decode_time :: "string \<Rightarrow> int \<Rightarrow> int option" where
  "decode_time raw old =
    (if raw = ''null'' then Some old
     else if length raw < 2 \<or> hd raw \<noteq> dquote \<or> last raw \<noteq> dquote then None
     else unmarshal_time (butlast (tl raw)))"

definition set_client_field :: "string \<Rightarrow> string \<Rightarrow> client \<Rightarrow> client option" where
  "set_client_field k raw c =
    (if fold_name k = ''NAME'' then map_option (\<lambda>x. c\<lparr>cl_Name := x\<rparr>) (decode_string raw (cl_Name c))
     else if fold_name k = ''ADDR'' then map_option (\<lambda>x. c\<lparr>cl_Addr := x\<rparr>) (decode_string raw (cl_Addr c))
     else if fold_name k = ''SINCE'' then map_option (\<lambda>x. c\<lparr>cl_Since := x\<rparr>) (decode_time raw (cl_Since c))
     else Some c)"

fun fill_client :: "(string \<times> string) list \<Rightarrow> client \<Rightarrow> client option" where
  "fill_client [] c = Some c"
| "fill_client ((k, raw) # kvs) c = (case set_client_field k raw c of None \<Rightarrow> None | Some c' \<Rightarrow> fill_client kvs c')"

text \<open>The zero \<open>time.Time\<close> is 1 January of year 1.\<close>

definition zero_client :: client where
  "zero_client = \<lparr>cl_Name = [], cl_Addr = [], cl_Since = - 719162 * day_ns, cl_seq = 0\<rparr>"

definition decode_client :: "string \<Rightarrow> client option" where
  "decode_client raw =
    (case parse_json raw of
       Some JNull \<Rightarrow> Some zero_client
     | Some (JObj []) \<Rightarrow> Some zero_client
     | Some (JObj _) \<Rightarrow> (case raw_members (length raw) (tl raw) of None \<Rightarrow> None | Some kvs \<Rightarrow> fill_client kvs zero_client)
     | _ \<Rightarrow> None)"

definition decodeClients :: "string \<Rightarrow> client list option" where
  "decodeClients b =
    (if b = [] then Some []
     else case parse_json b of
         Some JNull \<Rightarrow> Some []
       | Some (JArr []) \<Rightarrow> Some []
       | Some (JArr _) \<Rightarrow> (case raw_elems (length b) (tl (skip_ws b)) of None \<Rightarrow> None | Some es \<Rightarrow> those (map decode_client es))
       | _ \<Rightarrow> None)"

subsection \<open>Round trip\<close>

lemma cut_value_enc [codec_simps]:
  assumes "wf_json j" and "jdepth j \<le> max_depth" and "num_end t"
  shows "cut_value (enc_json j @ t) = Some (enc_json j, t)"
proof -
  obtain c cs where "enc_json j = c # cs" "\<not> is_ws c" using enc_json_hd [OF assms(1)] by blast
  then have "skip_ws (enc_json j @ t) = enc_json j @ t" by simp
  then show ?thesis
    by (simp add: cut_value_def Let_def reads_backD [OF reads_back_all assms(1,2) _ assms(3)] del: read_value.simps)
qed

lemma raw_elems_join [codec_simps]:
  assumes "js \<noteq> []" and "\<And>j. j \<in> set js \<Longrightarrow> wf_json j \<and> jdepth j \<le> max_depth" and "length js \<le> f"
  shows "raw_elems f (join (map enc_json js) @ CHR '']'' # t) = Some (map enc_json js)"
  using assms
proof (induction js arbitrary: f)
  case (Cons j js)
  then obtain f' where f: "f = Suc f'" "length js \<le> f'" by (cases f) auto
  have j: "wf_json j" "jdepth j \<le> max_depth" using Cons.prems(2) by auto
  show ?case
  proof (cases js)
    case Nil
    then show ?thesis using f j by (simp add: cut_value_enc)
  next
    case (Cons j' js')
    have "raw_elems f' (join (map enc_json js) @ CHR '']'' # t) = Some (map enc_json js)"
      by (rule Cons.IH) (use Cons f Cons.prems(2) in auto)
    then show ?thesis using f j Cons by (simp add: cut_value_enc)
  qed
qed simp

lemma raw_members_join [codec_simps]:
  assumes "kvs \<noteq> []" and "\<And>k v. (k, v) \<in> set kvs \<Longrightarrow> wf_json v \<and> jdepth v \<le> max_depth" and "length kvs \<le> f"
  shows "raw_members f (join (map (\<lambda>(k, v). enc_str k @ CHR '':'' # enc_json v) kvs) @ CHR ''}'' # t)
    = Some (map (\<lambda>(k, v). (to_valid k, enc_json v)) kvs)"
  using assms
proof (induction kvs arbitrary: f)
  case (Cons kv kvs)
  then obtain f' where f: "f = Suc f'" "length kvs \<le> f'" by (cases f) auto
  obtain k v where kv: "kv = (k, v)" by (cases kv)
  have v: "wf_json v" "jdepth v \<le> max_depth" using Cons.prems(2) [of k v] kv by auto
  show ?case
  proof (cases kvs)
    case Nil
    then show ?thesis using f v by (simp add: kv enc_str_def read_enc_str cut_value_enc)
  next
    case (Cons kv' kvs')
    have "raw_members f' (join (map (\<lambda>(k, v). enc_str k @ CHR '':'' # enc_json v) kvs) @ CHR ''}'' # t)
        = Some (map (\<lambda>(k, v). (to_valid k, enc_json v)) kvs)"
      by (rule Cons.IH) (use Cons f Cons.prems(2) in auto)
    then show ?thesis using f v Cons by (simp add: kv enc_str_def read_enc_str cut_value_enc)
  qed
qed simp

declare raw_elems.simps [simp del] raw_members.simps [simp del]

lemma length_join: "length ss \<le> Suc (length (join ss))"
  by (induction ss rule: join.induct) auto

lemma raw_members_obj:
  assumes "kvs \<noteq> []" and "\<And>k v. (k, v) \<in> set kvs \<Longrightarrow> wf_json v \<and> jdepth v \<le> max_depth"
  shows "raw_members (length (enc_json (JObj kvs))) (tl (enc_json (JObj kvs))) = Some (map (\<lambda>(k, v). (to_valid k, enc_json v)) kvs)"
  using raw_members_join [of kvs "length (enc_json (JObj kvs))" "[]"] assms
    length_join [of "map (\<lambda>(k, v). enc_str k @ CHR '':'' # enc_json v) kvs"] by simp

text \<open>What the reader of the pipe gets of a client: valid UTF-8, and no \<open>seq\<close>.\<close>

definition shown_client :: "client \<Rightarrow> client" where
  "shown_client c = \<lparr>cl_Name = to_valid (cl_Name c), cl_Addr = to_valid (cl_Addr c), cl_Since = cl_Since c, cl_seq = 0\<rparr>"

text \<open>A time JSON can carry: years 0 to 9999 in its zone, whose offset is whole minutes and less than a day.\<close>

definition json_time :: "(int \<Rightarrow> int) \<Rightarrow> int \<Rightarrow> bool" where
  "json_time zone t \<longleftrightarrow> marshal_time (zone t) t \<noteq> None \<and> 60 dvd zone t"

lemma json_time_range:
  assumes "60 dvd zone t" and "\<bar>zone t\<bar> < 86400" and "0 \<le> t" and "t < 253402214400 * 10 ^ 9"
  shows "json_time zone t"
proof -
  define l where "l = t + zone t * 10 ^ 9"
  obtain y m d where ymd: "date_of_days (l div day_ns + 719162) = (y, m, d)" by (metis prod_cases3)
  have l: "0 \<le> l + day_ns" "l + day_ns < day_ns * 2932898" using assms(2-4) by (simp_all add: l_def day_ns_def)
  then have "0 \<le> (l + day_ns) div day_ns \<and> (l + day_ns) div day_ns < 2932898" by (intro div_range) (simp_all add: day_ns_def)
  moreover have "(l + day_ns) div day_ns = l div day_ns + 1" by (simp add: day_ns_def)
  ultimately have "1 \<le> y \<and> y \<le> 9999" by (intro year_range [OF ymd]) simp_all
  moreover have "\<bar>zone t\<bar> div 3600 < 24" using div_range [of 3600 "\<bar>zone t\<bar>" 24] assms(2) by simp
  ultimately show ?thesis
    using assms(1) ymd by (simp add: json_time_def marshal_time_def Let_def l_def)
qed

lemma parse_enc_str: "parse_json (enc_str s) = Some (JStr (to_valid s))"
  using parse_enc_json [of "JStr s"] by simp

lemma decode_string_enc: "decode_string (enc_str s) old = Some (to_valid s)"
  by (simp add: decode_string_def parse_enc_str get_str_def)

lemma decode_time_enc:
  assumes "marshal_time off t = Some s" and "60 dvd off"
  shows "decode_time (enc_str s) old = Some t"
  unfolding enc_str_time [OF assms(1)] by (simp add: decode_time_def unmarshal_marshal_time [OF assms])

lemma client_names: "fold_name (to_valid ''Name'') = ''NAME''" "fold_name (to_valid ''Addr'') = ''ADDR''"
  "fold_name (to_valid ''Since'') = ''SINCE''"
  by (subst to_valid_ascii, force, simp add: char_of_def bit_numeral_rec bit_0)+

lemma client_json_shape:
  assumes "client_json zone c = Some j"
  obtains since where "marshal_time (zone (cl_Since c)) (cl_Since c) = Some since"
    and "j = JObj [(''Name'', JStr (cl_Name c)), (''Addr'', JStr (cl_Addr c)), (''Since'', JStr since)]"
  using assms by (auto simp: client_json_def split: option.splits)

lemma decode_client_enc:
  assumes "client_json zone c = Some j" and "60 dvd zone (cl_Since c)"
  shows "wf_json j" and "jdepth j = 1" and "decode_client (enc_json j) = Some (shown_client c)"
proof -
  obtain since where t: "marshal_time (zone (cl_Since c)) (cl_Since c) = Some since"
    and j: "j = JObj [(''Name'', JStr (cl_Name c)), (''Addr'', JStr (cl_Addr c)), (''Since'', JStr since)]"
    using assms(1) by (rule client_json_shape)
  let ?kvs = "[(''Name'', JStr (cl_Name c)), (''Addr'', JStr (cl_Addr c)), (''Since'', JStr since)]"
  show wf: "wf_json j" and depth: "jdepth j = 1" by (simp_all add: j)
  have "parse_json (enc_json j) = Some (clean j)"
    using wf depth by (intro parse_enc_json) (simp_all add: max_depth_def)
  moreover have "raw_members (length (enc_json j)) (tl (enc_json j))
      = Some (map (\<lambda>(k, v). (to_valid k, enc_json v)) ?kvs)"
    unfolding j by (rule raw_members_obj) (auto simp: max_depth_def)
  ultimately show "decode_client (enc_json j) = Some (shown_client c)"
    by (simp add: decode_client_def j set_client_field_def client_names decode_string_enc
        decode_time_enc [OF t assms(2)] shown_client_def zero_client_def)
qed

lemma those_map_total: "(\<And>x. x \<in> set xs \<Longrightarrow> f x = Some (g x)) \<Longrightarrow> those (map f xs) = Some (map g xs)"
  by (induction xs) simp_all

theorem decode_encode_clients:
  assumes "\<And>c. c \<in> set cs \<Longrightarrow> json_time zone (cl_Since c)"
  shows "decodeClients (encodeClients zone cs) = Some (map shown_client cs)"
proof -
  define g where "g c = the (client_json zone c)" for c
  have g: "client_json zone c = Some (g c)" if "c \<in> set cs" for c
    using assms [OF that] by (auto simp: g_def json_time_def client_json_def)
  define js where "js = map g cs"
  have e: "encodeClients zone cs = enc_json (JArr js)"
    using those_map_total [of cs "client_json zone" g] g by (simp add: encodeClients_def js_def)
  have c: "wf_json (g c)" "jdepth (g c) = 1" "decode_client (enc_json (g c)) = Some (shown_client c)" if "c \<in> set cs" for c
    using decode_client_enc [OF g [OF that]] assms [OF that] by (simp_all add: json_time_def)
  have wf: "wf_json j \<and> jdepth j = 1" if "j \<in> set js" for j using that c by (auto simp: js_def)
  have "foldr (max \<circ> jdepth) js 0 \<le> 1"
    using wf by (induction js) auto
  then have p: "parse_json (enc_json (JArr js)) = Some (JArr (map clean js))"
    using wf parse_enc_json [of "JArr js"] by (simp add: max_depth_def)
  show ?thesis
  proof (cases cs)
    case Nil
    then show ?thesis using p e by (simp add: js_def decodeClients_def)
  next
    case (Cons c0 cs0)
    then obtain j0 js0 where js: "js = j0 # js0" by (simp add: js_def)
    have "raw_elems (length (enc_json (JArr js))) (join (map enc_json js) @ CHR '']'' # []) = Some (map enc_json js)"
      using wf length_join [of "map enc_json js"] js by (intro raw_elems_join) (auto simp: max_depth_def)
    moreover have "those (map decode_client (map enc_json js)) = Some (map shown_client cs)"
      using those_map_total [of cs "decode_client \<circ> enc_json \<circ> g" shown_client] c by (simp add: js_def comp_def)
    ultimately show ?thesis using p by (simp add: e decodeClients_def js)
  qed
qed

subsection \<open>The pipe\<close>

text \<open>
  Each connection the pipe accepts is written the snapshot of that moment, under a deadline that may
  cut the write short: \<open>sent\<close> is how many bytes got through.  The goroutine ends when the listener is closed.
\<close>

definition statusPipe :: string where
  "statusPipe = backslash # backslash # ''.'' @ backslash # ''pipe'' @ backslash # ''remotemouse-status''"

definition serve_status :: "(int \<Rightarrow> int) \<Rightarrow> 'f registry \<Rightarrow> nat \<Rightarrow> string" where
  "serve_status zone r sent = take sent (encodeClients zone (Snapshot r))"

fun status_loop :: "(int \<Rightarrow> int) \<Rightarrow> ('f registry \<times> nat) option list \<Rightarrow> string list" where
  "status_loop zone [] = []"
| "status_loop zone (None # accepts) = []"
| "status_loop zone (Some (r, sent) # accepts) = serve_status zone r sent # status_loop zone accepts"

definition serveStatusPipe ::
  "(string \<Rightarrow> string \<Rightarrow> 'l option) \<Rightarrow> ('l \<Rightarrow> ('f registry \<times> nat) option list) \<Rightarrow> (int \<Rightarrow> int) \<Rightarrow> string \<Rightarrow> string list" where
  "serveStatusPipe ListenPipe accepts zone name =
    (case ListenPipe name pipeSDDL of None \<Rightarrow> [] | Some ln \<Rightarrow> status_loop zone (accepts ln))"

text \<open>The panel's side: what the dial gives, and what \<open>ReadAll\<close> got and whether it met its deadline.\<close>

definition queryStatusPipe :: "(string \<times> bool) option \<Rightarrow> client list option" where
  "queryStatusPipe conn =
    (case conn of None \<Rightarrow> None | Some (b, in_time) \<Rightarrow> if in_time then decodeClients b else None)"

lemma query_served:
  assumes "\<And>c. c \<in> set (Snapshot r) \<Longrightarrow> json_time zone (cl_Since c)" and "length (encodeClients zone (Snapshot r)) \<le> sent"
  shows "queryStatusPipe (Some (serve_status zone r sent, True)) = Some (map shown_client (Snapshot r))"
  using decode_encode_clients [of "Snapshot r" zone] assms by (simp add: queryStatusPipe_def serve_status_def)

text \<open>A payload that was cut short is refused, wherever it was cut; an empty one is an empty list.\<close>

lemma encodeClients_array: "\<exists>js. encodeClients zone cs = enc_json (JArr js) \<and> wf_json (JArr js) \<and> jdepth (JArr js) \<le> 2"
proof (cases "those (map (client_json zone) cs)")
  case None
  then show ?thesis by (intro exI [of _ "[]"]) (simp add: encodeClients_def)
next
  case (Some js)
  have "wf_json j \<and> jdepth j = 1" if "j \<in> set js" for j
    using Some that
  proof (induction cs arbitrary: js)
    case (Cons c cs)
    obtain j' js' where j': "client_json zone c = Some j'" "those (map (client_json zone) cs) = Some js'" "js = j' # js'"
      using Cons.prems(1) by (auto split: option.splits)
    have "wf_json j' \<and> jdepth j' = 1" by (rule client_json_shape [OF j'(1)]) simp
    with Cons.IH [OF j'(2)] Cons.prems(2) j'(3) show ?case by auto
  qed simp
  moreover from this have "foldr (max \<circ> jdepth) js 0 \<le> 1" by (induction js) auto
  ultimately show ?thesis using Some by (intro exI [of _ js]) (simp add: encodeClients_def)
qed

lemma decodeClients_cut:
  assumes "0 < n" and "n < length (encodeClients zone cs)"
  shows "decodeClients (take n (encodeClients zone cs)) = None"
proof -
  obtain js where js: "encodeClients zone cs = enc_json (JArr js)" "wf_json (JArr js)" "jdepth (JArr js) \<le> 2"
    using encodeClients_array by blast
  have "parse_json (take n (enc_json (JArr js))) = None"
    by (rule enc_prefix_refused(2)) (use js assms in \<open>auto simp: max_depth_def\<close>)
  moreover have "take n (enc_json (JArr js)) \<noteq> []" using assms js(1) by (metis length_greater_0_conv less_trans take_eq_Nil neq0_conv)
  ultimately show ?thesis by (simp add: decodeClients_def js(1) del: enc_json.simps)
qed

theorem query_all_or_nothing:
  assumes "\<And>c. c \<in> set (Snapshot r) \<Longrightarrow> json_time zone (cl_Since c)"
  shows "(case queryStatusPipe (Some (serve_status zone r sent, in_time)) of Some list \<Rightarrow> list | None \<Rightarrow> []) =
    (if in_time \<and> length (encodeClients zone (Snapshot r)) \<le> sent then map shown_client (Snapshot r) else [])"
proof -
  consider "\<not> in_time" | "in_time" "length (encodeClients zone (Snapshot r)) \<le> sent"
    | "in_time" "sent = 0" "sent < length (encodeClients zone (Snapshot r))"
    | "in_time" "0 < sent" "sent < length (encodeClients zone (Snapshot r))" by linarith
  then show ?thesis
  proof cases
    case 2
    then show ?thesis using query_served [of r zone sent] assms by simp
  qed (simp_all add: queryStatusPipe_def serve_status_def decodeClients_cut, simp add: decodeClients_def)
qed

end
