(* ===== verification/Admin.thy ===== *)
theory Admin
  imports Config Server Netinfo Status "HOL-Library.Monad_Syntax"
begin

text \<open>
  The administrative half of service_windows.go, the read-only queries of
  ui_service_windows.go and the dispatch of run_windows.go: installing, removing, starting,
  stopping and reconfiguring the service, the service's own control handler, and what it starts
  up with.  The machine is the HKLM key of the program and the entry the service control manager
  has for it; what a call answers when it is not decided by that state is in an environment.
  The loops that wait on a clock are partial functions: that they return is proved, from a clock
  that advances.
\<close>

subsection \<open>The service control manager\<close>

definition SERVICE_STOPPED :: uint32 where "SERVICE_STOPPED = 1"
definition SERVICE_START_PENDING :: uint32 where "SERVICE_START_PENDING = 2"
definition SERVICE_STOP_PENDING :: uint32 where "SERVICE_STOP_PENDING = 3"
definition SERVICE_RUNNING :: uint32 where "SERVICE_RUNNING = 4"

lemmas svc_states = SERVICE_STOPPED_def SERVICE_START_PENDING_def SERVICE_STOP_PENDING_def SERVICE_RUNNING_def

record svc_entry =
  sr_StartType :: uint32
  sr_state :: uint32
  sr_path :: string
  sr_args :: "string list"

record machine =
  ma_hklm :: "reg_key option"
  ma_svc :: "svc_entry option"

text \<open>
  \<open>sm_reply\<close> lists what the service answers while it stops: the state \<open>Control\<close> returns, then
  one state, or an error, for each \<open>Query\<close>; \<open>sm_now\<close> the readings of the clock, in milliseconds: the
  first sets the deadline, the others are compared with it.
\<close>

record scm_env =
  sm_reg :: reg_env
  sm_connect :: bool
  sm_create :: bool
  sm_start :: bool
  sm_control :: bool
  sm_delete :: bool
  sm_config :: bool
  sm_update :: bool
  sm_reply :: "nat \<Rightarrow> uint32 option"
  sm_now :: "nat \<Rightarrow> int"

datatype svc_error =
    WriteConfigFailed | ConnectFailed | AlreadyInstalled | NotInstalled | CreateFailed | StartFailed
  | StopFailed | QueryFailed | StopTimedOut | DeleteFailed | ReadConfigFailed | UpdateFailed | InvalidStartType

text \<open>
  StartService refuses a service that is not stopped and one that is disabled; a stop control is
  refused by a service that does not run.
\<close>

definition svc_Start :: "scm_env \<Rightarrow> svc_entry \<Rightarrow> svc_entry option" where
  "svc_Start e s =
    (if sm_start e \<and> sr_state s = SERVICE_STOPPED \<and> sr_StartType s \<noteq> SERVICE_DISABLED
     then Some (s\<lparr>sr_state := SERVICE_START_PENDING\<rparr>) else None)"

definition svc_Stop :: "scm_env \<Rightarrow> svc_entry \<Rightarrow> uint32 option" where
  "svc_Stop e s = (if sm_control e \<and> sr_state s = SERVICE_RUNNING then sm_reply e 0 else None)"

subsection \<open>Operations\<close>

definition installService :: "scm_env \<Rightarrow> string \<Rightarrow> appConfig \<Rightarrow> machine \<Rightarrow> (svc_error + unit) \<times> machine" where
  "installService e exepath cfg m =
    (case writeConfig (sm_reg e) \<lparr>sc_Password = ac_pass cfg, sc_Port = ac_port cfg, sc_Name = ac_name cfg\<rparr> (ma_hklm m) of
       (k, ok) \<Rightarrow>
         let m = m\<lparr>ma_hklm := k\<rparr> in
         if \<not> ok then (Inl WriteConfigFailed, m)
         else if \<not> sm_connect e then (Inl ConnectFailed, m)
         else if ma_svc m \<noteq> None then (Inl AlreadyInstalled, m)
         else if \<not> sm_create e then (Inl CreateFailed, m)
         else
           let s = \<lparr>sr_StartType = SERVICE_AUTO_START, sr_state = SERVICE_STOPPED, sr_path = exepath, sr_args = [''-service'']\<rparr>
           in (Inr (), m\<lparr>ma_svc := Some (case svc_Start e s of Some s' \<Rightarrow> s' | None \<Rightarrow> s)\<rparr>))"

text \<open>A deleted service is gone for the manager; the stop before it is best effort.\<close>

definition uninstallService :: "scm_env \<Rightarrow> machine \<Rightarrow> (svc_error + unit) \<times> machine" where
  "uninstallService e m =
    (if \<not> sm_connect e then (Inl ConnectFailed, m)
     else case ma_svc m of
       None \<Rightarrow> (Inl NotInstalled, m)
     | Some s \<Rightarrow>
         let m1 = m\<lparr>ma_svc := Some (case svc_Stop e s of Some st \<Rightarrow> s\<lparr>sr_state := st\<rparr> | None \<Rightarrow> s)\<rparr>
         in if sm_delete e then (Inr (), m1\<lparr>ma_svc := None\<rparr>) else (Inl DeleteFailed, m1))"

definition startService :: "scm_env \<Rightarrow> machine \<Rightarrow> (svc_error + unit) \<times> machine" where
  "startService e m =
    (if \<not> sm_connect e then (Inl ConnectFailed, m)
     else case ma_svc m of
       None \<Rightarrow> (Inl NotInstalled, m)
     | Some s \<Rightarrow>
         (case svc_Start e s of
            None \<Rightarrow> (Inl StartFailed, m)
          | Some s' \<Rightarrow> (Inr (), m\<lparr>ma_svc := Some s'\<rparr>)))"

text \<open>The wait: \<open>st\<close> is the last state seen, \<open>k\<close> the number of queries made.\<close>

partial_function (option) stop_wait :: "(nat \<Rightarrow> uint32 option) \<Rightarrow> (nat \<Rightarrow> int) \<Rightarrow> int \<Rightarrow> nat \<Rightarrow> uint32 \<Rightarrow> (bool \<times> uint32) option" where
  "stop_wait reply now deadline k st =
    (if st \<noteq> SERVICE_STOPPED \<and> now k < deadline
     then (case reply (Suc k) of
             None \<Rightarrow> Some (False, st)
           | Some st' \<Rightarrow> stop_wait reply now deadline (Suc k) st')
     else Some (True, st))"

declare stop_wait.simps [code]

definition stopService :: "scm_env \<Rightarrow> machine \<Rightarrow> ((svc_error + unit) \<times> machine) option" where
  "stopService e m =
    (if \<not> sm_connect e then Some (Inl ConnectFailed, m)
     else case ma_svc m of
       None \<Rightarrow> Some (Inl NotInstalled, m)
     | Some s \<Rightarrow>
         (case svc_Stop e s of
            None \<Rightarrow> Some (Inl StopFailed, m)
          | Some st0 \<Rightarrow> do {
              (ok, st) \<leftarrow> stop_wait (sm_reply e) (\<lambda>k. sm_now e (Suc k)) (sm_now e 0 + 10000) 0 st0;
              let m1 = m\<lparr>ma_svc := Some (s\<lparr>sr_state := st\<rparr>)\<rparr>;
              Some (if \<not> ok then Inl QueryFailed else if st \<noteq> SERVICE_STOPPED then Inl StopTimedOut else Inr (), m1)
            }))"

definition restartService :: "scm_env \<Rightarrow> machine \<Rightarrow> ((svc_error + unit) \<times> machine) option" where
  "restartService e m = do { (_, m1) \<leftarrow> stopService e m; Some (startService e m1) }"

definition setStartType :: "scm_env \<Rightarrow> uint32 \<Rightarrow> machine \<Rightarrow> (svc_error + unit) \<times> machine" where
  "setStartType e t m =
    (if \<not> sm_connect e then (Inl ConnectFailed, m)
     else case ma_svc m of
       None \<Rightarrow> (Inl NotInstalled, m)
     | Some s \<Rightarrow>
         (if \<not> sm_config e then (Inl ReadConfigFailed, m)
          else if \<not> sm_update e then (Inl UpdateFailed, m)
          else (Inr (), m\<lparr>ma_svc := Some (s\<lparr>sr_StartType := t\<rparr>)\<rparr>)))"

subsection \<open>Read-only queries\<close>

text \<open>
  These open the manager without administrator rights; \<open>scm\<close>, \<open>query\<close> and \<open>config\<close> say whether
  the manager, the status and the configuration can be read.
\<close>

record query_env =
  qe_scm :: bool
  qe_query :: bool
  qe_config :: bool

definition serviceRunning :: "query_env \<Rightarrow> machine \<Rightarrow> bool" where
  "serviceRunning q m =
    (qe_scm q \<and> (case ma_svc m of None \<Rightarrow> False | Some s \<Rightarrow> qe_query q \<and> sr_state s = SERVICE_RUNNING))"

datatype svc_label = LabelUnknown | LabelNotInstalled | LabelRunning | LabelStopped | LabelStarting | LabelStopping

definition serviceState :: "query_env \<Rightarrow> machine \<Rightarrow> svc_label" where
  "serviceState q m =
    (if \<not> qe_scm q then LabelUnknown
     else case ma_svc m of
       None \<Rightarrow> LabelNotInstalled
     | Some s \<Rightarrow>
         if \<not> qe_query q then LabelUnknown
         else if sr_state s = SERVICE_RUNNING then LabelRunning
         else if sr_state s = SERVICE_STOPPED then LabelStopped
         else if sr_state s = SERVICE_START_PENDING then LabelStarting
         else if sr_state s = SERVICE_STOP_PENDING then LabelStopping
         else LabelUnknown)"

definition serviceStartType :: "query_env \<Rightarrow> machine \<Rightarrow> uint32 \<times> bool" where
  "serviceStartType q m =
    (if \<not> qe_scm q then (0, False)
     else case ma_svc m of
       None \<Rightarrow> (0, False)
     | Some s \<Rightarrow> if qe_config q then (sr_StartType s, True) else (0, False))"

definition serviceInstalled :: "query_env \<Rightarrow> machine \<Rightarrow> bool" where
  "serviceInstalled q m = snd (serviceStartType q m)"

definition applyConfigElevated :: "scm_env \<Rightarrow> query_env \<Rightarrow> appConfig \<Rightarrow> machine \<Rightarrow> ((svc_error + unit) \<times> machine) option" where
  "applyConfigElevated e q cfg m =
    (case writeConfig (sm_reg e) \<lparr>sc_Password = ac_pass cfg, sc_Port = ac_port cfg, sc_Name = ac_name cfg\<rparr> (ma_hklm m) of
       (k, ok) \<Rightarrow>
         let m1 = m\<lparr>ma_hklm := k\<rparr> in
         if \<not> ok then Some (Inl WriteConfigFailed, m1)
         else if serviceRunning q m1 then restartService e m1
         else Some (Inr (), m1))"

subsection \<open>The service process\<close>

text \<open>What the service's control handler does, in order.\<close>

datatype scm_cmd = Interrogate uint32 | StopCmd | ShutdownCmd | OtherCmd

datatype svc_action = Report uint32 | StartCore | CloseStop

fun control_loop :: "scm_cmd list \<Rightarrow> svc_action list" where
  "control_loop [] = []"
| "control_loop (cr # r) =
    (case cr of
       Interrogate st \<Rightarrow> Report st # control_loop r
     | StopCmd \<Rightarrow> [CloseStop, Report SERVICE_STOP_PENDING]
     | ShutdownCmd \<Rightarrow> [CloseStop, Report SERVICE_STOP_PENDING]
     | OtherCmd \<Rightarrow> control_loop r)"

definition Execute :: "scm_cmd list \<Rightarrow> svc_action list" where
  "Execute r = [Report SERVICE_START_PENDING, StartCore, Report SERVICE_RUNNING] @ control_loop r"

text \<open>
  \<open>runServiceCore\<close>: the configuration of the registry over the one of the command line, then the
  server, its port, the announced name and port, and the monitor's arguments.  If the inject pipe
  cannot be created the process ends.
\<close>

definition service_config :: "reg_env \<Rightarrow> reg_key option \<Rightarrow> appConfig \<Rightarrow> appConfig" where
  "service_config e hklm cfg =
    (case readConfig e hklm of
       (sc, True) \<Rightarrow>
         let cfg = cfg\<lparr>ac_pass := sc_Password sc, ac_port := sc_Port sc\<rparr>
         in if sc_Name sc \<noteq> [] then cfg\<lparr>ac_name := sc_Name sc\<rparr> else cfg
     | (_, False) \<Rightarrow> cfg)"

text \<open>What it does to the machine, in program order; what a \<open>defer\<close> does comes after the monitor has ended.\<close>

datatype core_action =
    EnablePrivileges | ListenPipe string | ServeStatusPipe string | ListenTCP goint int | Announce string goint
  | RunMonitor string string bool | ShutdownAnnounce | ClosePipe

record service_core =
  co_srv :: server
  co_port :: goint
  co_actions :: "core_action list"

definition runServiceCore ::
  "reg_env \<Rightarrow> reg_key option \<Rightarrow> (string \<Rightarrow> string \<Rightarrow> 'l option) \<Rightarrow> bool \<Rightarrow> string \<Rightarrow> string \<Rightarrow> appConfig \<Rightarrow> service_core option" where
  "runServiceCore e hklm listen_pipe ann_ok exe rm_injectlog cfg0 =
    (let cfg = service_config e hklm cfg0 in
     if listenInjectPipe listen_pipe (ac_pipe cfg) = None then None
     else Some \<lparr>co_srv = \<lparr>sv_password = ac_pass cfg, sv_name = ac_name cfg, sv_reg = Some NewClientRegistry\<rparr>,
            co_port = ac_port cfg,
            co_actions =
              [EnablePrivileges, ListenPipe (ac_pipe cfg), ServeStatusPipe statusPipe, ListenTCP (ac_port cfg) 5000,
               Announce (ac_name cfg) (ac_port cfg), RunMonitor exe (ac_pipe cfg) (rm_injectlog \<noteq> [])] @
              (if ann_ok then [ShutdownAnnounce] else []) @ [ClosePipe]\<rparr>)"

text \<open>
  \<open>listenTCPRetry\<close>: the \<open>k\<close>-th attempt, and the time read after it fails.  The first reading of
  the clock sets the deadline.
\<close>

partial_function (option) listen_loop :: "(nat \<Rightarrow> 'l option) \<Rightarrow> (nat \<Rightarrow> int) \<Rightarrow> int \<Rightarrow> nat \<Rightarrow> 'l option option" where
  "listen_loop listen now deadline k =
    (case listen k of
       Some ln \<Rightarrow> Some (Some ln)
     | None \<Rightarrow> if deadline < now k then Some None else listen_loop listen now deadline (Suc k))"

definition listenTCPRetry :: "(nat \<Rightarrow> 'l option) \<Rightarrow> (nat \<Rightarrow> int) \<Rightarrow> int \<Rightarrow> 'l option option" where
  "listenTCPRetry listen now within = listen_loop listen (\<lambda>k. now (Suc k)) (now 0 + within) 0"

subsection \<open>One process\<close>

definition platform :: "string \<Rightarrow> string" where
  "platform goos = (if goos = ''darwin'' then ''macos'' else if goos = ''windows'' then ''windows'' else goos)"

text \<open>Eight random bytes in hexadecimal, and the TXT records announced with them.\<close>

definition newDevID :: "string \<Rightarrow> string" where
  "newDevID rnd = concat (map (\<lambda>c. [hex_digit (byte_val c div 16), hex_digit (byte_val c mod 16)]) rnd)"

definition announce_txt :: "string \<Rightarrow> appConfig \<Rightarrow> string \<Rightarrow> string list" where
  "announce_txt goos cfg devid =
    [''name='' @ ac_name cfg, ''platform='' @ platform goos, ''ver=0.1'', ''devid='' @ devid]"

text \<open>
  \<open>serveStandalone\<close>: the server of the configuration, the announcement, a goroutine that listens
  and the user interface in the foreground; what is deferred follows when it returns.  If
  \<open>Listen\<close> fails its goroutine ends the process at a moment the scheduler chooses, without the
  deferred calls.  The result is the list of the possible runs.
\<close>

datatype standalone_action =
    AnnounceTXT string goint "string list" | GoListen goint | RunUI bool string goint hostIPs
  | ShutdownMDNS | CloseInjector | FatalListen

definition standalone_foreground ::
  "string \<Rightarrow> string \<Rightarrow> bool \<Rightarrow> net_iface list option \<Rightarrow> appConfig \<Rightarrow> standalone_action list" where
  "standalone_foreground goos rnd ann_ok ifs cfg =
    [AnnounceTXT (ac_name cfg) (ac_port cfg) (announce_txt goos cfg (newDevID rnd)), GoListen (ac_port cfg),
     RunUI (ac_notray cfg) (ac_pass cfg) (ac_port cfg) (DetectIPs ifs)] @
    (if ann_ok then [ShutdownMDNS] else []) @ [CloseInjector]"

definition serveStandalone ::
  "string \<Rightarrow> string \<Rightarrow> bool \<Rightarrow> bool \<Rightarrow> net_iface list option \<Rightarrow> appConfig \<Rightarrow> server \<times> standalone_action list list" where
  "serveStandalone goos rnd ann_ok listen_ok ifs cfg =
    (let fg = standalone_foreground goos rnd ann_ok ifs cfg in
     (\<lparr>sv_password = ac_pass cfg, sv_name = ac_name cfg, sv_reg = Some NewClientRegistry\<rparr>,
      if listen_ok then [fg] else map (\<lambda>k. take k fg @ [FatalListen]) [2..<Suc (length fg)]))"

lemma standalone_failed_listen_is_fatal:
  "acts \<in> set (snd (serveStandalone goos rnd ann_ok False ifs cfg)) \<Longrightarrow> last acts = FatalListen"
  by (auto simp: serveStandalone_def Let_def)

subsection \<open>Dispatch\<close>

datatype entry = Standalone | ProbeDesktop | RunService | RunAgent | ServeUI

text \<open>Where the process goes, or how the administrative command it was started for ends.\<close>

datatype run_outcome = Enter entry | Finished | Fatal string svc_error

definition finish :: "string \<Rightarrow> (svc_error + unit) \<times> machine \<Rightarrow> run_outcome \<times> machine" where
  "finish what r = (case r of (Inl err, m) \<Rightarrow> (Fatal what err, m) | (Inr _, m) \<Rightarrow> (Finished, m))"

definition run_windows :: "scm_env \<Rightarrow> query_env \<Rightarrow> string \<Rightarrow> appConfig \<Rightarrow> machine \<Rightarrow> (run_outcome \<times> machine) option" where
  "run_windows e q exe cfg m =
    (let md = mode cfg in
     if md = ''standalone'' then Some (Enter Standalone, m)
     else if md = ''probe-desktop'' then Some (Enter ProbeDesktop, m)
     else if md = ''install-service'' then Some (finish md (installService e exe cfg m))
     else if md = ''uninstall-service'' then Some (finish md (uninstallService e m))
     else if md = ''start-service'' then Some (finish md (startService e m))
     else if md = ''stop-service'' then map_option (finish md) (stopService e m)
     else if md = ''set-start-type'' then
       (case startTypeFromArg (ac_setStartType cfg) of
          (t, ok) \<Rightarrow> if \<not> ok then Some (Fatal md InvalidStartType, m) else Some (finish md (setStartType e t m)))
     else if md = ''apply-config'' then map_option (finish md) (applyConfigElevated e q cfg m)
     else if md = ''service'' then Some (Enter RunService, m)
     else if md = ''agent'' then Some (Enter RunAgent, m)
     else Some (Enter ServeUI, m))"

definition run_other :: "appConfig \<Rightarrow> machine \<Rightarrow> run_outcome \<times> machine" where
  "run_other cfg m = (Enter Standalone, m)"

text \<open>The configuration the control panel opens with.\<close>

definition ui_config :: "reg_env \<Rightarrow> query_env \<Rightarrow> appConfig \<Rightarrow> machine \<Rightarrow> appConfig" where
  "ui_config e q cfg m = (if serviceInstalled q m then service_config e (ma_hklm m) cfg else cfg)"

subsection \<open>The loops return\<close>

lemma stop_wait_returns:
  assumes "deadline \<le> now n" and "k \<le> n"
  shows "stop_wait reply now deadline k st \<noteq> None"
  using assms(2)
proof (induction "n - k" arbitrary: k st)
  case 0
  with assms(1) show ?case by (subst stop_wait.simps) simp
next
  case (Suc d)
  then have "stop_wait reply now deadline (Suc k) st' \<noteq> None" for st' by simp
  then show ?case by (subst stop_wait.simps) (auto split: option.splits)
qed

text \<open>The wait ends with the first stopped state, when it comes before the deadline.\<close>

lemma stop_wait_stopped:
  assumes "reply n = Some SERVICE_STOPPED" and "\<And>i. i < n \<Longrightarrow> reply i \<noteq> None \<and> now i < deadline" and "k \<le> n" and "reply k = Some st"
  shows "stop_wait reply now deadline k st = Some (True, SERVICE_STOPPED)"
  using assms(3,4)
proof (induction "n - k" arbitrary: k st)
  case 0
  with assms(1) show ?case by (subst stop_wait.simps) simp
next
  case (Suc d)
  show ?case
  proof (cases "st = SERVICE_STOPPED")
    case False
    from Suc have "k < n" by simp
    moreover have "reply (Suc k) \<noteq> None" using assms(1,2) \<open>k < n\<close> by (cases "Suc k = n") auto
    ultimately show ?thesis using Suc assms(2) [of k] False by (subst stop_wait.simps) auto
  qed (subst stop_wait.simps, simp)
qed

lemma listen_loop_returns:
  assumes "deadline < now n \<or> listen n \<noteq> None" and "k \<le> n"
  shows "listen_loop listen now deadline k \<noteq> None"
  using assms(2)
proof (induction "n - k" arbitrary: k)
  case 0
  with assms(1) show ?case by (subst listen_loop.simps) (auto split: option.splits)
next
  case (Suc d)
  then have "listen_loop listen now deadline (Suc k) \<noteq> None" by simp
  then show ?case by (subst listen_loop.simps) (auto split: option.splits)
qed

lemma listen_loop_binds:
  assumes "listen n = Some ln" and "\<And>i. k \<le> i \<Longrightarrow> i < n \<Longrightarrow> listen i = None \<and> now i \<le> deadline" and "k \<le> n"
  shows "listen_loop listen now deadline k = Some (Some ln)"
  using assms(2,3)
proof (induction "n - k" arbitrary: k)
  case 0
  with assms(1) show ?case by (subst listen_loop.simps) simp
next
  case (Suc d)
  then have "listen_loop listen now deadline (Suc k) = Some (Some ln)" by simp
  moreover have "listen k = None \<and> now k \<le> deadline" by (rule Suc.prems(1)) (use Suc(2) in simp_all)
  ultimately show ?case by (subst listen_loop.simps) simp
qed

text \<open>
  The port is held by somebody else until \<open>R\<close>; an attempt at \<open>a k\<close> takes at most \<open>d\<close>, the pause
  after it at least 200 milliseconds.  The first attempt after \<open>R\<close> binds, and the deadline does
  not come before it.
\<close>

lemma listenTCPRetry_binds:
  assumes clock: "\<And>k. a k \<le> now (Suc k) \<and> now (Suc k) \<le> a k + d \<and> now (Suc k) + 200 \<le> a (Suc k)"
    and "R + d \<le> now 0 + within" and listen: "\<And>k. listen k = (if R \<le> a k then Some ln else None)"
  shows "listenTCPRetry listen now within = Some (Some ln)"
proof -
  have grow: "a 0 + 200 * int k \<le> a k" for k
  proof (induction k)
    case (Suc k)
    with clock [of k] show ?case by simp
  qed simp
  define n where "n = (LEAST k. R \<le> a k)"
  have "R \<le> a (nat (R - a 0))" using grow [of "nat (R - a 0)"] by (simp split: if_splits)
  then have n: "R \<le> a n" unfolding n_def by (rule LeastI)
  have before: "a i < R" if "i < n" for i using not_less_Least [OF that [unfolded n_def]] by simp
  show ?thesis unfolding listenTCPRetry_def
  proof (rule listen_loop_binds [of listen n])
    show "listen i = None \<and> now (Suc i) \<le> now 0 + within" if "i < n" for i
      using before [OF that] clock [of i] listen [of i] assms(2) by simp
  qed (use n listen in simp_all)
qed

subsection \<open>Success and failure\<close>

lemma startService_ok:
  assumes "startService e m = (Inr (), m')"
  shows "\<exists>s. ma_svc m' = Some s \<and> sr_state s = SERVICE_START_PENDING" and "ma_hklm m' = ma_hklm m"
  using assms by (auto simp: startService_def svc_Start_def split: if_splits option.splits)

lemma stopService_hklm: "stopService e m = Some (r, m') \<Longrightarrow> ma_hklm m' = ma_hklm m"
  by (auto simp: stopService_def Let_def split: if_splits option.splits bind_splits)

lemma startService_hklm: "ma_hklm (snd (startService e m)) = ma_hklm m"
  by (auto simp: startService_def split: option.splits)

lemma serviceRunning_hklm [simp]: "serviceRunning q (m\<lparr>ma_hklm := k\<rparr>) = serviceRunning q m"
  by (simp add: serviceRunning_def)

lemma applyConfigElevated_ok:
  assumes "applyConfigElevated e q cfg m = Some (Inr (), m')"
  shows "writeConfig (sm_reg e) \<lparr>sc_Password = ac_pass cfg, sc_Port = ac_port cfg, sc_Name = ac_name cfg\<rparr> (ma_hklm m) = (ma_hklm m', True) \<and>
    (serviceRunning q m \<longrightarrow> (\<exists>s. ma_svc m' = Some s \<and> sr_state s = SERVICE_START_PENDING))"
proof -
  obtain k ok where W: "writeConfig (sm_reg e) \<lparr>sc_Password = ac_pass cfg, sc_Port = ac_port cfg, sc_Name = ac_name cfg\<rparr> (ma_hklm m) = (k, ok)"
    by fastforce
  consider (run) r m1 where "ok" "stopService e (m\<lparr>ma_hklm := k\<rparr>) = Some (r, m1)" "startService e m1 = (Inr (), m')"
    | (idle) "ok" "\<not> serviceRunning q m" "m' = m\<lparr>ma_hklm := k\<rparr>"
    using assms by (auto simp: applyConfigElevated_def W Let_def restartService_def split: if_splits bind_splits)
  then show ?thesis
  proof cases
    case run
    with startService_ok [OF run(3)] stopService_hklm [OF run(2)] W show ?thesis by simp
  qed (simp add: W)
qed

text \<open>An install that is refused because the service exists has replaced the stored configuration.\<close>

lemma install_refused_overwrites:
  assumes "ma_svc m \<noteq> None" and "sm_connect e"
    and "writeConfig (sm_reg e) \<lparr>sc_Password = ac_pass cfg, sc_Port = ac_port cfg, sc_Name = ac_name cfg\<rparr> (ma_hklm m) = (k, True)"
  shows "installService e exe cfg m = (Inl AlreadyInstalled, m\<lparr>ma_hklm := k\<rparr>)"
  using assms by (simp add: installService_def Let_def)

text \<open>The stop channel is closed at most once, and the core starts before the service is reported running.\<close>

lemma control_loop_closes_once: "length (filter (\<lambda>a. a = CloseStop) (control_loop r)) \<le> 1"
  by (induction r) (auto split: scm_cmd.splits)

end
