(* ===== verification/Startup.thy ===== *)
theory Startup
  imports Admin InjectLog Wire
begin

text \<open>
  How a process of the program comes up: the log file, the path of the program, \<open>runService\<close> under the
  service control manager or in the foreground, \<open>init\<close> of injector_windows.go, the answers of
  user32 as the injector sees them, and the desktop probe of desktop_windows.go.
\<close>

subsection \<open>The log file\<close>

text \<open>Where the standard logger writes, whether it adds microseconds, and what it has written.\<close>

record logger =
  lg_file :: "string option"
  lg_micro :: bool
  lg_lines :: "(string option \<times> string) list"

text \<open>
  The environment and the file system; \<open>le_join\<close> is \<open>filepath.Join\<close>, whose cleaning of paths nothing here
  depends on.
\<close>

record log_env =
  le_ProgramData :: string
  le_join :: "string list \<Rightarrow> string"
  le_mkdir :: "string \<Rightarrow> bool"
  le_open :: "string \<Rightarrow> bool"
  le_pid :: int

definition log_print :: "string \<Rightarrow> logger \<Rightarrow> logger" where
  "log_print s l = l\<lparr>lg_lines := lg_lines l @ [(lg_file l, s)]\<rparr>"

definition setupFileLogger :: "log_env \<Rightarrow> string \<Rightarrow> logger \<Rightarrow> logger" where
  "setupFileLogger e role l =
    (let dir = le_join e [le_ProgramData e, ''RemoteMouse''] in
     if \<not> le_mkdir e dir then l
     else
       let path = le_join e [dir, role @ ''.log''] in
       if \<not> le_open e path then l
       else
         log_print (''=== '' @ role @ '' log opened (pid '' @ fmt_int (le_pid e) @ '') ==='')
           (l\<lparr>lg_file := Some path, lg_micro := True\<rparr>))"

definition selfPath :: "string option \<Rightarrow> string" where
  "selfPath executable = (case executable of Some p \<Rightarrow> p | None \<Rightarrow> ''rmserver.exe'')"

subsection \<open>The service process\<close>

datatype service_run =
    ServiceFatal string
  | Foreground "service_core option"
  | UnderSCM "svc_action list"

text \<open>
  \<open>is_svc\<close> is the answer of \<open>IsWindowsService\<close>, \<open>scm\<close> the commands \<open>svc.Run\<close> gives the handler, or
  nothing when it fails; \<open>core\<close> is what \<open>runServiceCore\<close> does with the configuration.
\<close>

definition runService ::
  "log_env \<Rightarrow> bool option \<Rightarrow> scm_cmd list option \<Rightarrow> (appConfig \<Rightarrow> service_core option) \<Rightarrow> appConfig \<Rightarrow> logger \<Rightarrow> service_run \<times> logger" where
  "runService e is_svc scm core cfg l =
    (let l = setupFileLogger e ''service'' l in
     case is_svc of
       None \<Rightarrow> (ServiceFatal ''IsWindowsService'', l)
     | Some False \<Rightarrow>
         (Foreground (core cfg), log_print ''not started by SCM; running service core in foreground (dev)'' l)
     | Some True \<Rightarrow>
         (case scm of None \<Rightarrow> (ServiceFatal ''svc.Run'', l) | Some r \<Rightarrow> (UnderSCM (Execute r), l)))"

text \<open>\<open>init\<close>: the environment variable is not empty.\<close>

definition inject_init :: "log_env \<Rightarrow> string \<Rightarrow> logger \<times> bool \<Rightarrow> logger \<times> bool" where
  "inject_init e rm_injectlog = (\<lambda>(l, verbose).
    if rm_injectlog \<noteq> [] then (setupFileLogger e ''standalone'' l, True) else (l, verbose))"

subsection \<open>Answers of user32\<close>

text \<open>A result register is a machine word of which the code keeps the low 32 bits.\<close>

definition sysMetric_of :: "(nat \<Rightarrow> uint64) \<Rightarrow> nat \<Rightarrow> int32" where
  "sysMetric_of call i = ucast (call i)"

definition cursorPos_of :: "uint64 \<times> int32 \<times> int32 \<Rightarrow> (int32 \<times> int32) option" where
  "cursorPos_of call = (case call of (r, x, y) \<Rightarrow> if r \<noteq> 0 then Some (x, y) else None)"

definition win_env_of :: "(nat \<Rightarrow> uint64) \<Rightarrow> uint64 \<times> int32 \<times> int32 \<Rightarrow> win_env" where
  "win_env_of metrics cursor = \<lparr>sysMetric = sysMetric_of metrics, cursorPos = cursorPos_of cursor\<rparr>"

subsection \<open>The desktop probe\<close>

text \<open>\<open>syscall.UTF16ToString\<close>: up to the first zero; a surrogate without its pair takes three bytes.\<close>

definition wtf8_rune :: "nat \<Rightarrow> string" where
  "wtf8_rune r =
    (if 0xD800 \<le> r \<and> r < 0xE000
     then [byte_chr (0xE0 + r div 4096), byte_chr (0x80 + r div 64 mod 64), byte_chr (0x80 + r mod 64)]
     else encode_rune r)"

definition UTF16ToString :: "uint16 list \<Rightarrow> string" where
  "UTF16ToString buf = concat (map wtf8_rune (utf16_read (takeWhile (\<lambda>u. u \<noteq> 0) buf)))"

text \<open>
  The handle of the desktop and, if it was opened, the buffer of 256 units as \<open>GetUserObjectInformation\<close>
  left it.  The result is the name, and the handles closed.
\<close>

definition currentInputDesktop :: "uint64 \<Rightarrow> uint16 list option \<Rightarrow> string option \<times> uint64 list" where
  "currentInputDesktop h info =
    (if h = 0 then (None, [])
     else case info of None \<Rightarrow> (None, [h]) | Some buf \<Rightarrow> (Some (UTF16ToString buf), [h]))"

datatype probe_line = ProbeFailed | ProbeInput string uint32

definition probe_once :: "uint64 \<Rightarrow> uint16 list option \<Rightarrow> uint32 \<Rightarrow> probe_line" where
  "probe_once h info session =
    (case fst (currentInputDesktop h info) of None \<Rightarrow> ProbeFailed | Some name \<Rightarrow> ProbeInput name session)"

text \<open>The loop never ends by itself: the lines after as many rounds as there are answers.\<close>

definition probeDesktop :: "(uint64 \<times> uint16 list option \<times> uint32) list \<Rightarrow> probe_line list" where
  "probeDesktop replies = map (\<lambda>(h, info, session). probe_once h info session) replies"

lemma probe_closes_what_it_opens: "snd (currentInputDesktop h info) = (if h = 0 then [] else [h])"
  by (simp add: currentInputDesktop_def split: option.splits)

text \<open>A name the system wrote as UTF-16 is read back.\<close>

lemma UTF16ToString_units:
  assumes "\<forall>r \<in> set rs. scalar r \<and> r \<noteq> 0"
  shows "UTF16ToString (concat (map utf16Units rs) @ 0 # junk) = concat (map encode_rune rs)"
proof -
  have nz: "0 \<notin> set (utf16Units r)" if "r \<in> set rs" for r
  proof -
    have r: "r \<noteq> 0" "r \<le> 0x10FFFF" using assms that by (auto simp: scalar_def)
    have z: "word_of_nat n \<noteq> (0 :: uint16)" if "n < 65536" "n \<noteq> 0" for n
      using unat_word16 [OF that(1)] that(2) by auto
    have "(r - 0x10000) div 1024 < 1024" and "(r - 0x10000) mod 1024 < 1024" using r(2) by auto
    with r z [of r] z [of "0xD800 + (r - 0x10000) div 1024"] z [of "0xDC00 + (r - 0x10000) mod 1024"]
    show ?thesis by (auto simp: utf16Units_def Let_def)
  qed
  then have "takeWhile (\<lambda>u. u \<noteq> 0) (concat (map utf16Units rs) @ 0 # junk) = concat (map utf16Units rs)"
    by (subst takeWhile_append2) auto
  moreover have "utf16_read (concat (map utf16Units rs)) = rs"
    using utf16.dec_stream [of rs] assms by simp
  moreover have "concat (map wtf8_rune rs) = concat (map encode_rune rs)"
    using assms by (intro arg_cong [where f = concat] map_cong) (auto simp: wtf8_rune_def scalar_def)
  ultimately show ?thesis by (simp add: UTF16ToString_def)
qed

end
