(* ===== verification/Panel.thy ===== *)
theory Panel
  imports Admin Controller Netinfo Spawn Status
begin

text \<open>
  ui_panel_windows.go and the table of ui_windows.go: the handlers of the control panel, what one
  tick of its ticker does and shows, and the arbitration of the port between the panel and the
  service.  The widgets are the fields the handlers read and set; Window and ControlPanel put them
  in their windows.  An elevated child is the parameters given to ShellExecute; what it
  does with them is \<open>elevated_child\<close>.
\<close>

subsection \<open>Arbitration\<close>

definition arbitrate :: "(goint \<Rightarrow> bool) \<Rightarrow> bool \<Rightarrow> bool \<Rightarrow> servingController \<times> netos \<Rightarrow> servingController \<times> netos" where
  "arbitrate can ann_ok running cs = (if wantStandalone running then fst (Start can ann_ok cs) else Stop cs)"

text \<open>The headless loop, for the answers it gets on its ticks.\<close>

definition runArbiterHeadless :: "((goint \<Rightarrow> bool) \<times> bool \<times> bool) list \<Rightarrow> servingController \<times> netos \<Rightarrow> servingController \<times> netos" where
  "runArbiterHeadless ticks cs = fold (\<lambda>(can, ann_ok, running). arbitrate can ann_ok running) ticks cs"

subsection \<open>The editable fields\<close>

definition readConn :: "string \<Rightarrow> string \<Rightarrow> (goint \<times> string) option" where
  "readConn portText passText =
    (case Atoi (TrimSpace portText) of
       None \<Rightarrow> None
     | Some port \<Rightarrow>
         if sint port < 1 \<or> 65535 < sint port then None
         else if passText = [] then None
         else Some (port, passText))"

record fields =
  fl_port :: string
  fl_pass :: string
  fl_name :: string

text \<open>What the panel acts on: the controller with its network, the Run key, the children it starts.\<close>

record panel =
  pa_ctl :: "servingController \<times> netos"
  pa_run :: "reg_key option"
  pa_children :: "string option list"

definition elevate :: "string list \<Rightarrow> panel \<Rightarrow> panel" where
  "elevate args p = p\<lparr>pa_children := pa_children p @ [elevatedSelf args]\<rparr>"

definition hotApply :: "(goint \<Rightarrow> bool) \<Rightarrow> bool \<Rightarrow> appConfig \<Rightarrow> panel \<Rightarrow> panel" where
  "hotApply can ann_ok next p = p\<lparr>pa_ctl := Apply can ann_ok (serverConfig_of next) (pa_ctl p)\<rparr>"

definition apply_args :: "string \<Rightarrow> goint \<Rightarrow> string \<Rightarrow> string list" where
  "apply_args pass port name = [''-apply-config'', ''-pass'', pass, ''-port'', Itoa port, ''-name'', name]"

definition onApply :: "(goint \<Rightarrow> bool) \<Rightarrow> bool \<Rightarrow> bool \<Rightarrow> reg_env \<Rightarrow> string \<Rightarrow> fields \<Rightarrow> panel \<Rightarrow> panel" where
  "onApply can ann_ok installed e exe f p =
    (case readConn (fl_port f) (fl_pass f) of
       None \<Rightarrow> p
     | Some (port, pass) \<Rightarrow>
         let next = zero_config\<lparr>ac_pass := pass, ac_port := port, ac_name := TrimSpace (fl_name f)\<rparr> in
         if installed then hotApply can ann_ok next (elevate (apply_args pass port (ac_name next)) p)
         else
           let p1 = hotApply can ann_ok next p in
           if autostartOn e (pa_run p1)
           then p1\<lparr>pa_run := setAutostartNamed e (autostartCmd exe pass port (ac_name next)) True (pa_run p1)\<rparr>
           else p1)"

definition onInstall :: "fields \<Rightarrow> panel \<Rightarrow> panel" where
  "onInstall f p =
    (case readConn (fl_port f) (fl_pass f) of
       None \<Rightarrow> p
     | Some (port, pass) \<Rightarrow>
         elevate [''-install-service'', ''-pass'', pass, ''-port'', Itoa port, ''-name'', TrimSpace (fl_name f)] p)"

definition onStart :: "panel \<Rightarrow> panel" where "onStart p = elevate [''-start-service''] p"
definition onStop :: "panel \<Rightarrow> panel" where "onStop p = elevate [''-stop-service''] p"
definition onUninstall :: "panel \<Rightarrow> panel" where "onUninstall p = elevate [''-uninstall-service''] p"

text \<open>The check mark of the menu entry and the Run key follow each other; bad input changes neither.\<close>

definition onLogin :: "reg_env \<Rightarrow> string \<Rightarrow> fields \<Rightarrow> bool \<Rightarrow> panel \<Rightarrow> bool \<times> panel" where
  "onLogin e exe f checked p =
    (let on = (\<not> checked) in
     if on then
       (case readConn (fl_port f) (fl_pass f) of
          None \<Rightarrow> (checked, p)
        | Some (port, pass) \<Rightarrow>
            (on, p\<lparr>pa_run := setAutostartNamed e (autostartCmd exe pass port (TrimSpace (fl_name f))) True (pa_run p)\<rparr>))
     else (on, p\<lparr>pa_run := setAutostartNamed e [] False (pa_run p)\<rparr>))"

subsection \<open>The live widgets\<close>

record widgets =
  wd_status :: string
  wd_combo :: int
  wd_comboEnabled :: bool
  wd_install :: bool
  wd_start :: bool
  wd_stop :: bool
  wd_uninstall :: bool
  wd_devices :: "client list"
  wd_devCount :: string

text \<open>The texts of \<open>serviceState\<close>.\<close>

fun svc_text :: "svc_label \<Rightarrow> string" where
  "svc_text LabelUnknown = utf8 [0x672A, 0x77E5]"
| "svc_text LabelNotInstalled = utf8 [0x672A, 0x5B89, 0x88C5]"
| "svc_text LabelRunning = utf8 [0x8FD0, 0x884C, 0x4E2D]"
| "svc_text LabelStopped = utf8 [0x5DF2, 0x505C, 0x6B62]"
| "svc_text LabelStarting = utf8 [0x542F, 0x52A8, 0x4E2D]"
| "svc_text LabelStopping = utf8 [0x505C, 0x6B62, 0x4E2D]"

definition status_text :: "svc_label \<Rightarrow> uint32 \<Rightarrow> bool \<Rightarrow> string" where
  "status_text state stype installed =
    (if installed then utf8 [0x25CF, 0x20] @ svc_text state @ utf8 [0xFF08] @ startTypeLabel stype @ utf8 [0xFF09]
     else utf8 [0x25CF, 0x20, 0x672A, 0x5B89, 0x88C5])"

definition devCount_text :: "nat \<Rightarrow> string" where
  "devCount_text n = utf8 [0x5DF2, 0x8FDE, 0x63A5, 0x8BBE, 0x5907] @ '' ('' @ dec_digits n @ '')''"

text \<open>
  A new index of the combo box calls the handler, be it set by the user or by the program; the
  handler does nothing while the guard is set.
\<close>

definition onCombo :: "bool \<Rightarrow> int \<Rightarrow> panel \<Rightarrow> panel" where
  "onCombo applyGuard idx p =
    (if applyGuard then p else elevate [''-set-start-type'', startTypeArg (startTypeByIndex idx)] p)"

definition setCurrentIndex :: "bool \<Rightarrow> int \<Rightarrow> widgets \<times> panel \<Rightarrow> widgets \<times> panel" where
  "setCurrentIndex applyGuard idx = (\<lambda>(w, p).
     if idx = wd_combo w then (w, p) else (w\<lparr>wd_combo := idx\<rparr>, onCombo applyGuard idx p))"

definition applyPanelState ::
  "svc_label \<Rightarrow> uint32 \<Rightarrow> bool \<Rightarrow> client list \<Rightarrow> widgets \<times> panel \<times> bool \<Rightarrow> widgets \<times> panel \<times> bool" where
  "applyPanelState state stype installed devices = (\<lambda>(w, p, guard).
    let w = w\<lparr>wd_status := status_text state stype installed\<rparr>;
        guard = True;
        idx = startTypeIndex stype;
        (w, p) = (if installed \<and> 0 \<le> idx
                  then (case setCurrentIndex guard idx (w, p) of (w, p) \<Rightarrow> (w\<lparr>wd_comboEnabled := True\<rparr>, p))
                  else (w\<lparr>wd_comboEnabled := False\<rparr>, p));
        guard = False;
        w = w\<lparr>wd_install := \<not> installed\<rparr>;
        w = w\<lparr>wd_start := installed \<and> state = LabelStopped\<rparr>;
        w = w\<lparr>wd_stop := installed \<and> state = LabelRunning\<rparr>;
        w = w\<lparr>wd_uninstall := installed\<rparr>;
        w = w\<lparr>wd_devices := devices\<rparr>;
        w = w\<lparr>wd_devCount := devCount_text (length devices)\<rparr>
    in (w, p, guard))"

text \<open>
  One tick: arbitration, the three queries (each of which may be answered by a machine that has
  moved on), the devices of the local registry or of the status pipe, the widgets.
\<close>

record tick_env =
  te_can :: "goint \<Rightarrow> bool"
  te_ann :: bool
  te_q :: query_env
  te_at_running :: machine
  te_at_state :: machine
  te_at_type :: machine
  te_local :: "client list"
  te_pipe :: "(string \<times> bool) option"

definition panel_tick :: "tick_env \<Rightarrow> widgets \<times> panel \<times> bool \<Rightarrow> widgets \<times> panel \<times> bool" where
  "panel_tick t = (\<lambda>(w, p, guard).
    let running = serviceRunning (te_q t) (te_at_running t);
        p = p\<lparr>pa_ctl := arbitrate (te_can t) (te_ann t) running (pa_ctl p)\<rparr>;
        state = serviceState (te_q t) (te_at_state t);
        (stype, installed) = serviceStartType (te_q t) (te_at_type t);
        devices = (if isRunning (fst (pa_ctl p)) then te_local t else case queryStatusPipe (te_pipe t) of Some list \<Rightarrow> list | None \<Rightarrow> [])
    in applyPanelState state stype installed devices (w, p, guard))"

subsection \<open>The table of devices\<close>

definition two_digits :: "int \<Rightarrow> string" where
  "two_digits i = (if 0 \<le> i \<and> i < 10 then ''0'' @ fmt_int i else fmt_int i)"

text \<open>\<open>secs\<close> is \<open>int(d.Seconds())\<close>.\<close>

definition fmtDur :: "int \<Rightarrow> string" where
  "fmtDur secs =
    (let s = (if secs < 0 then 0 else secs)
     in two_digits (s div 3600) @ '':'' @ two_digits (s mod 3600 div 60) @ '':'' @ two_digits (s mod 60))"

text \<open>A row outside the list is a panic of the program.\<close>

definition device_Value :: "(int \<Rightarrow> int) \<Rightarrow> client list \<Rightarrow> nat \<Rightarrow> int \<Rightarrow> string option" where
  "device_Value seconds_since items row col =
    (if length items \<le> row then None
     else
       let c = items ! row in
       Some (if col = 0 then (if cl_Name c = [] then utf8 [0x28, 0x672A, 0x547D, 0x540D, 0x29] else cl_Name c)
             else if col = 1 then cl_Addr c
             else if col = 2 then fmtDur (seconds_since (cl_Since c))
             else utf8 [0x5728, 0x7EBF]))"

subsection \<open>The elevated child\<close>

text \<open>The process ShellExecute starts: its flags are read from the parameters, then \<open>run\<close>.\<close>

definition elevated_child ::
  "scm_env \<Rightarrow> query_env \<Rightarrow> string \<Rightarrow> string \<Rightarrow> string option \<Rightarrow> machine \<Rightarrow> (flag_error + (run_outcome \<times> machine)) option" where
  "elevated_child e q host exe params m =
    (case main_config host (commandLineToArgv (case params of None \<Rightarrow> [] | Some line \<Rightarrow> line)) of
       Inl err \<Rightarrow> Some (Inl err)
     | Inr cfg \<Rightarrow> map_option Inr (run_windows e q exe cfg m))"

subsection \<open>What a child reads\<close>

lemma set_escape_loop: "set (escape_loop q n s) \<subseteq> set s \<union> {backslash, dquote}"
  by (induction s arbitrary: n) auto

lemma set_EscapeArg: "set (EscapeArg s) \<subseteq> set s \<union> {backslash, dquote}"
  using set_escape_loop [of True 0 s] set_escape_loop [of False 0 s] by (auto simp: EscapeArg_def Let_def)

lemma set_strings_Join: "set (strings_Join ps sep) \<subseteq> \<Union> (set ` set ps) \<union> set sep"
  by (induction ps sep rule: strings_Join.induct) auto

lemma elevatedSelf_no_NUL:
  assumes "\<forall>a \<in> set args. CHR 0x00 \<notin> set a"
  shows "elevatedSelf args = Some (elevatedArgLine args)"
proof -
  have "CHR 0x00 \<notin> set (elevatedArgLine args)"
    using assms set_strings_Join [of "map EscapeArg args" "[space]"] set_EscapeArg by (fastforce simp: elevatedArgLine_def)
  then show ?thesis by (simp add: elevatedSelf_def Let_def)
qed

lemma elevated_child_args:
  assumes "\<forall>a \<in> set args. CHR 0x00 \<notin> set a"
  shows "elevated_child e q host exe (elevatedSelf args) m =
    (case main_config host args of Inl err \<Rightarrow> Some (Inl err) | Inr cfg \<Rightarrow> map_option Inr (run_windows e q exe cfg m))"
  by (simp add: elevated_child_def elevatedSelf_no_NUL [OF assms] argv_elevatedArgLine)

lemma set_TrimSpace: "set (TrimSpace s) \<subseteq> set s"
proof -
  let ?sp = "\<lambda>(r, b). is_space_rune r"
  have "set (concat (map snd (rev (dropWhile ?sp (rev (dropWhile ?sp (chunks s))))))) \<subseteq> set (concat (map snd (chunks s)))"
    by (auto dest!: set_dropWhileD)
  then show ?thesis by (simp add: TrimSpace_def Let_def concat_chunks case_prod_unfold)
qed

lemma Itoa_no_NUL: "CHR 0x00 \<notin> set (Itoa i)"
  using fmt_int_chars [of "CHR 0x00" "sint i"] by (auto simp: Itoa_def is_digit_def)

lemmas config_defs = main_config_def default_config_def zero_config_def mode_def run_windows_def Let_def

lemma child_apply:
  assumes "CHR 0x00 \<notin> set pass" and "CHR 0x00 \<notin> set name"
  shows "elevated_child e q host exe (elevatedSelf (apply_args pass port name)) m =
    map_option (\<lambda>r. Inr (finish ''apply-config'' r))
      (applyConfigElevated e q ((default_config host)\<lparr>ac_applyConfig := True, ac_pass := pass, ac_port := port, ac_name := name\<rparr>) m)"
proof -
  have "\<forall>a \<in> set (apply_args pass port name). CHR 0x00 \<notin> set a"
    using assms Itoa_no_NUL by (auto simp: apply_args_def)
  from elevated_child_args [OF this] show ?thesis
    by (simp add: apply_args_def config_defs step_simps option.map_comp comp_def)
qed

lemma child_set_start_type:
  "elevated_child e q host exe (elevatedSelf [''-set-start-type'', startTypeArg (startTypeByIndex i)]) m =
    Some (Inr (finish ''set-start-type'' (setStartType e (startTypeByIndex i) m)))"
proof -
  have k: "startTypeByIndex i \<in> set startTypeCombo" by (rule startTypeByIndex_known)
  then have a: "startTypeArg (startTypeByIndex i) \<noteq> []" "CHR 0x00 \<notin> set (startTypeArg (startTypeByIndex i))"
    by (auto simp: startTypeCombo_def startTypeArg_def start_types)
  have "\<forall>a \<in> set [''-set-start-type'', startTypeArg (startTypeByIndex i)]. CHR 0x00 \<notin> set a" using a by simp
  from elevated_child_args [OF this] show ?thesis
    by (simp add: config_defs step_simps a(1) startType_arg [OF k])
qed

lemma readConn_ok:
  "readConn f g = Some (port, pass) \<Longrightarrow> 1 \<le> sint port \<and> sint port \<le> 65535 \<and> pass = g \<and> pass \<noteq> []"
  by (auto simp: readConn_def split: option.splits if_splits)

lemma onApply_child:
  assumes "readConn (fl_port f) (fl_pass f) = Some (port, pass)"
  shows "pa_children (onApply can ok True er exe f p) = pa_children p @ [elevatedSelf (apply_args pass port (TrimSpace (fl_name f)))]"
  by (simp add: onApply_def assms Let_def hotApply_def elevate_def zero_config_def)

lemma finish_ok: "finish what r = (Finished, m') \<longleftrightarrow> r = (Inr (), m')"
  by (auto simp: finish_def split: prod.splits sum.splits)

lemma service_config_written:
  assumes "writeConfig e sc root = (root', True)" and "re_open e'" and "0 \<le> sint (sc_Port sc)" and "sint (sc_Port sc) < 2 ^ 32"
  shows "service_config e' root' cfg =
    cfg\<lparr>ac_pass := sc_Password sc, ac_port := sc_Port sc, ac_name := (if sc_Name sc = [] then ac_name cfg else sc_Name sc)\<rparr>"
  using readConfig_writeConfig [OF assms(1,2)] port_dword [OF assms(3,4)]
  by (simp add: service_config_def Let_def)

subsection \<open>The port\<close>

lemma arbitrate_inv [inv_intros]:
  assumes "ctl_inv (c, o')" and "clean (c, o')"
  shows "ctl_inv (arbitrate can ok running (c, o')) \<and> clean (arbitrate can ok running (c, o')) \<and>
    ct_cfg (fst (arbitrate can ok running (c, o'))) = ct_cfg c"
proof -
  obtain c' o1 r where S: "Start can ok (c, o') = ((c', o1), r)" by (metis prod.exhaust)
  have "ct_cfg c' = ct_cfg c" using S by (auto simp: Start_def Let_def split: if_splits option.splits prod.splits)
  moreover have "ct_cfg (fst (Stop (c, o'))) = ct_cfg c" by (simp add: Stop_def Let_def)
  ultimately show ?thesis
    using Start_inv [OF assms S] Stop_inv [OF assms] S by (simp add: arbitrate_def)
qed

lemma runArbiterHeadless_inv:
  "ctl_inv cs \<Longrightarrow> clean cs \<Longrightarrow> ctl_inv (runArbiterHeadless ts cs) \<and> clean (runArbiterHeadless ts cs) \<and>
     ct_cfg (fst (runArbiterHeadless ts cs)) = ct_cfg (fst cs)"
proof (induction ts arbitrary: cs)
  case (Cons t ts)
  obtain can ok running where t: "t = (can, ok, running)" by (metis prod.exhaust)
  obtain c o' where cs: "cs = (c, o')" by fastforce
  from arbitrate_inv [OF Cons.prems [unfolded cs], of can ok running] Cons.IH [of "arbitrate can ok running cs"] show ?case
    by (simp add: runArbiterHeadless_def t cs)
qed (simp add: runArbiterHeadless_def)

text \<open>After a tick the port is free if the service runs, and ours if it does not and we can have it.\<close>

lemma arbitrate_port:
  assumes "ctl_inv (c, o')" and "clean (c, o')"
  shows "running \<Longrightarrow> listeners (snd (arbitrate can ok running (c, o'))) = Map.empty"
    and "\<not> running \<Longrightarrow> can (sc_Port (ct_cfg c)) \<Longrightarrow> \<exists>l. listeners (snd (arbitrate can ok running (c, o'))) = [l \<mapsto> sc_Port (ct_cfg c)]"
proof -
  show "running \<Longrightarrow> listeners (snd (arbitrate can ok running (c, o'))) = Map.empty"
    using Stop_inv [OF assms] by (cases "Stop (c, o')") (simp add: arbitrate_def wantStandalone_def ctl_inv_def)
  assume n: "\<not> running" and p: "can (sc_Port (ct_cfg c))"
  obtain c' o1 r where S: "Start can ok (c, o') = ((c', o1), r)" by (metis prod.exhaust)
  have "ct_running c'"
    using S assms p by (auto simp: Start_def Let_def ctl_inv_def net_listen_empty split: if_splits option.splits prod.splits)
  moreover have "ct_cfg c' = ct_cfg c" using S by (auto simp: Start_def Let_def split: if_splits option.splits prod.splits)
  ultimately show "\<exists>l. listeners (snd (arbitrate can ok running (c, o'))) = [l \<mapsto> sc_Port (ct_cfg c)]"
    using Start_inv [OF assms S] S n by (auto simp: arbitrate_def wantStandalone_def ctl_inv_def)
qed

lemma arbitrate_stops: "\<not> isRunning (fst (arbitrate can ok True cs))"
  by (cases cs) (simp add: arbitrate_def wantStandalone_def Stop_def isRunning_def Let_def)

subsection \<open>Refreshing\<close>

lemma applyPanelState_effects:
  "applyPanelState state stype installed devices (w, p, guard) =
    (w\<lparr>wd_status := status_text state stype installed,
       wd_combo := (if installed \<and> 0 \<le> startTypeIndex stype then startTypeIndex stype else wd_combo w),
       wd_comboEnabled := (installed \<and> 0 \<le> startTypeIndex stype),
       wd_install := \<not> installed, wd_start := installed \<and> state = LabelStopped, wd_stop := installed \<and> state = LabelRunning,
       wd_uninstall := installed, wd_devices := devices, wd_devCount := devCount_text (length devices)\<rparr>, p, False)"
  by (simp add: applyPanelState_def setCurrentIndex_def onCombo_def Let_def)

end
