(* ===== verification/Window.thy ===== *)
theory Window
  imports Panel
begin

text \<open>
  The windows of ui_windows.go and ui_panel_windows.go as the walk library drives them: the state a
  user can see, one constructor per thing that can happen, and what the attached handlers do.  A
  widget that is disabled or not on the screen delivers no event.  \<open>runUI\<close> is the window of
  \<open>serveStandalone\<close>, \<open>runControlPanel\<close> the control panel.
\<close>

subsection \<open>What both windows share\<close>

record window =
  wn_visible :: bool
  wn_minimized :: bool
  wn_front :: bool

definition showWindow :: "window \<Rightarrow> window" where
  "showWindow w = w\<lparr>wn_visible := True, wn_minimized := False, wn_front := True\<rparr>"

definition hideWindow :: "window \<Rightarrow> window" where
  "hideWindow w = w\<lparr>wn_visible := False\<rparr>"

text \<open>A press of a mouse button on the tray icon; the argument tells whether it was the left one.\<close>

definition onTrayMouse :: "bool \<Rightarrow> window \<Rightarrow> window" where
  "onTrayMouse left w = (if \<not> left then w else if wn_visible w then hideWindow w else showWindow w)"

text \<open>\<open>Closing\<close> cancels the close and hides the window.\<close>

definition onClosing :: "window \<Rightarrow> window" where
  "onClosing w = hideWindow w"

text \<open>The clipboard, and whether it takes the text.\<close>

definition copyClip :: "bool \<Rightarrow> string \<Rightarrow> string \<Rightarrow> string" where
  "copyClip ok s clip = (if ok then s else clip)"

definition loadIcon :: "bool \<Rightarrow> 'i option \<Rightarrow> 'i option" where
  "loadIcon written from_file = (if written then from_file else None)"

definition shown_primary :: "hostIPs \<Rightarrow> string" where
  "shown_primary ips =
    (if ip_Primary ips = [] then utf8 [0x672A, 0x68C0, 0x6D4B, 0x5230, 0x5C40, 0x57DF, 0x7F51] @ '' IP'' else ip_Primary ips)"

definition secText :: "hostIPs \<Rightarrow> string" where
  "secText ips = strings_Join (ip_Secondary ips) ''   ''"

subsection \<open>Widgets\<close>

text \<open>
  A window as data: the title of a group and its columns; the text of a label, whether it is visible and
  how many columns it spans; a line edit with its text and whether it masks it; a button and
  whether it is enabled; a box with its rows, the row it stands on, whether it is enabled and its span; a table
  with its height and the titles and widths of its columns.
\<close>

datatype widget =
    GroupBox string nat "widget list"
  | Label string bool nat
  | LineEdit string bool
  | PushButton string bool
  | ComboBox "string list" int bool nat
  | TableView nat "(string \<times> nat) list" "string option list list"

definition device_columns :: "(string \<times> nat) list" where
  "device_columns =
    [(utf8 [0x8BBE, 0x5907, 0x540D], 130), (''IP'', 130),
     (utf8 [0x65F6, 0x957F], 80), (utf8 [0x72B6, 0x6001], 60)]"

text \<open>The texts a widget puts on the screen; a mask shows one dot for each rune.\<close>

fun screen_texts :: "widget \<Rightarrow> string list" where
  "screen_texts (GroupBox title cols ws) = title # concat (map screen_texts ws)"
| "screen_texts (Label s visible span) = (if visible then [s] else [])"
| "screen_texts (LineEdit s masked) = [if masked then concat (map (\<lambda>_. utf8 [0x25CF]) (runes s)) else s]"
| "screen_texts (PushButton s enabled) = [s]"
| "screen_texts (ComboBox rows i enabled span) = (if 0 \<le> i \<and> nat i < length rows then [rows ! nat i] else [])"
| "screen_texts (TableView h cols rows) = map fst cols @ concat (map (map the) rows)"

subsection \<open>The table\<close>

text \<open>
  The table asks for every cell when its rows are reset.  A duration is the whole seconds between
  two instants in nanoseconds.
\<close>

definition seconds_since :: "int \<Rightarrow> int \<Rightarrow> int" where
  "seconds_since now t = (now - t) div 10 ^ 9"

definition RowCount :: "client list \<Rightarrow> nat" where
  [simp]: "RowCount items = length items"

definition table_rows :: "int \<Rightarrow> client list \<Rightarrow> string option list list" where
  "table_rows now items = map (\<lambda>row. map (device_Value (seconds_since now) items row) [0, 1, 2, 3]) [0..<RowCount items]"

text \<open>A window, its least and its first size, and what it holds; fonts are left out.\<close>

record main_window =
  mw_Title :: string
  mw_MinSize :: "nat \<times> nat"
  mw_Size :: "nat \<times> nat"
  mw_Children :: "widget list"

text \<open>An entry of the menu of the tray icon: its text, whether it is checked, whether it is enabled.\<close>

datatype menu_entry = Action string bool bool | Separator

definition menu_show :: menu_entry where
  "menu_show = Action (utf8 [0x663E, 0x793A, 0x7A97, 0x53E3]) False True"

definition menu_login :: "bool \<Rightarrow> menu_entry" where
  "menu_login checked = Action (utf8 [0x767B, 0x5F55, 0x65F6, 0x6253, 0x5F00, 0x754C, 0x9762]) checked True"

definition menu_quit :: menu_entry where
  "menu_quit = Action (utf8 [0x9000, 0x51FA]) False True"

subsection \<open>The window of the single process\<close>

record tray_ui =
  tu_win :: window
  tu_title :: string
  tu_sec :: bool
  tu_check :: bool
  tu_status :: string
  tu_items :: "client list"
  tu_rows :: "string option list list"
  tu_count :: string
  tu_clip :: string
  tu_run :: "reg_key option"
  tu_children :: "string option list"
  tu_exited :: bool

datatype ui_event =
    CopyIP bool | CopyPort bool | CopyPass bool | Expand
  | TrayMouse bool | MenuShow | MenuAuto reg_env string | MenuInstall | MenuUninstall | MenuQuit
  | CloseWindow | Minimize
  | ClientsChanged "client list" int
  | SecondTick int

fun in_window :: "ui_event \<Rightarrow> bool" where
  "in_window (CopyIP ok) = True"
| "in_window (CopyPort ok) = True"
| "in_window (CopyPass ok) = True"
| "in_window Expand = True"
| "in_window CloseWindow = True"
| "in_window Minimize = True"
| "in_window _ = False"

fun on_tray :: "ui_event \<Rightarrow> bool" where
  "on_tray (TrayMouse left) = True"
| "on_tray MenuShow = True"
| "on_tray (MenuAuto e exe) = True"
| "on_tray MenuInstall = True"
| "on_tray MenuUninstall = True"
| "on_tray MenuQuit = True"
| "on_tray _ = False"

definition ui_enabled :: "bool \<Rightarrow> hostIPs \<Rightarrow> tray_ui \<Rightarrow> ui_event \<Rightarrow> bool" where
  "ui_enabled tray ips u ev \<longleftrightarrow>
    \<not> tu_exited u \<and> (in_window ev \<longrightarrow> wn_visible (tu_win u)) \<and> (on_tray ev \<longrightarrow> tray) \<and>
    (ev = Expand \<longrightarrow> secText ips \<noteq> [])"

definition reload :: "client list \<Rightarrow> int \<Rightarrow> tray_ui \<Rightarrow> tray_ui" where
  [simp]: "reload snapshot now u = u\<lparr>tu_items := snapshot, tu_rows := table_rows now snapshot\<rparr>"

text \<open>\<open>refresh\<close>, which the registry's callback and the start run.\<close>

definition ui_refresh :: "client list \<Rightarrow> int \<Rightarrow> tray_ui \<Rightarrow> tray_ui" where
  "ui_refresh snapshot now u =
    (let u = reload snapshot now u in u\<lparr>tu_count := devCount_text (length (tu_items u))\<rparr>)"

definition ui_second :: "int \<Rightarrow> tray_ui \<Rightarrow> tray_ui" where
  [simp]: "ui_second now u = (if tu_items u \<noteq> [] then u\<lparr>tu_rows := table_rows now (tu_items u)\<rparr> else u)"

definition onMenuAuto :: "reg_env \<Rightarrow> string \<Rightarrow> string \<Rightarrow> goint \<Rightarrow> tray_ui \<Rightarrow> tray_ui" where
  "onMenuAuto e exe pass port u =
    (let on = (\<not> tu_check u)
     in u\<lparr>tu_run := setAutostartNamed e (autostartCmd exe pass port []) on (tu_run u), tu_check := on\<rparr>)"

definition ui_elevate :: "string list \<Rightarrow> tray_ui \<Rightarrow> tray_ui" where
  "ui_elevate args u = u\<lparr>tu_children := tu_children u @ [elevatedSelf args]\<rparr>"

fun ui_handle :: "string \<Rightarrow> goint \<Rightarrow> hostIPs \<Rightarrow> ui_event \<Rightarrow> tray_ui \<Rightarrow> tray_ui" where
  "ui_handle pass port ips (CopyIP ok) u = u\<lparr>tu_clip := copyClip ok (ip_Primary ips) (tu_clip u)\<rparr>"
| "ui_handle pass port ips (CopyPort ok) u = u\<lparr>tu_clip := copyClip ok (Itoa port) (tu_clip u)\<rparr>"
| "ui_handle pass port ips (CopyPass ok) u = u\<lparr>tu_clip := copyClip ok pass (tu_clip u)\<rparr>"
| "ui_handle pass port ips Expand u = u\<lparr>tu_sec := \<not> tu_sec u\<rparr>"
| "ui_handle pass port ips (TrayMouse left) u = u\<lparr>tu_win := onTrayMouse left (tu_win u)\<rparr>"
| "ui_handle pass port ips MenuShow u = u\<lparr>tu_win := showWindow (tu_win u)\<rparr>"
| "ui_handle pass port ips (MenuAuto e exe) u = onMenuAuto e exe pass port u"
| "ui_handle pass port ips MenuInstall u = ui_elevate [''-install-service'', ''-pass'', pass, ''-port'', Itoa port] u"
| "ui_handle pass port ips MenuUninstall u = ui_elevate [''-uninstall-service''] u"
| "ui_handle pass port ips MenuQuit u = u\<lparr>tu_exited := True\<rparr>"
| "ui_handle pass port ips CloseWindow u = u\<lparr>tu_win := onClosing (tu_win u)\<rparr>"
| "ui_handle pass port ips Minimize u = u\<lparr>tu_win := (tu_win u)\<lparr>wn_minimized := True, wn_front := False\<rparr>\<rparr>"
| "ui_handle pass port ips (ClientsChanged snapshot now) u = ui_refresh snapshot now u"
| "ui_handle pass port ips (SecondTick now) u = ui_second now u"

definition ui_step :: "bool \<Rightarrow> string \<Rightarrow> goint \<Rightarrow> hostIPs \<Rightarrow> ui_event \<Rightarrow> tray_ui \<Rightarrow> tray_ui" where
  "ui_step tray pass port ips ev u = (if ui_enabled tray ips u ev then ui_handle pass port ips ev u else u)"

definition ui_start :: "reg_env \<Rightarrow> svc_label \<Rightarrow> client list \<Rightarrow> int \<Rightarrow> string \<Rightarrow> reg_key option \<Rightarrow> tray_ui" where
  "ui_start e state snapshot now clip run =
    ui_refresh snapshot now
      \<lparr>tu_win = \<lparr>wn_visible = True, wn_minimized = False, wn_front = True\<rparr>, tu_title = ''RemoteMouse'', tu_sec = False,
       tu_check = autostartOn e run,
       tu_status = utf8 [0x670D, 0x52A1, 0x72B6, 0x6001, 0xFF1A] @ svc_text state,
       tu_items = [], tu_rows = [], tu_count = devCount_text 0, tu_clip = clip, tu_run = run, tu_children = [], tu_exited = False\<rparr>"

text \<open>The window of the state: the widgets as declared, with the texts the handlers set.\<close>

definition ui_view :: "string \<Rightarrow> goint \<Rightarrow> hostIPs \<Rightarrow> tray_ui \<Rightarrow> widget list" where
  "ui_view pass port ips u =
    [GroupBox (utf8 [0x8FDE, 0x63A5, 0x4FE1, 0x606F]) 3
       [Label ((utf8 [0x63A8, 0x8350] @ '' IP'')) True 1, Label (shown_primary ips) True 1, PushButton (utf8 [0x590D, 0x5236]) True,
        Label (utf8 [0x7AEF, 0x53E3]) True 1, Label (Itoa port) True 1, PushButton (utf8 [0x590D, 0x5236]) True,
        Label (utf8 [0x5BC6, 0x7801]) True 1, Label pass True 1, PushButton (utf8 [0x590D, 0x5236]) True,
        Label (utf8 [0x5176, 0x4ED6, 0x5730, 0x5740]) True 1, Label (secText ips) (tu_sec u) 1,
        PushButton (utf8 [0x5C55, 0x5F00]) (secText ips \<noteq> [])],
     Label (tu_count u) True 1,
     TableView 170 device_columns (tu_rows u)]"

definition ui_window :: "string \<Rightarrow> goint \<Rightarrow> hostIPs \<Rightarrow> tray_ui \<Rightarrow> main_window" where
  "ui_window pass port ips u =
    \<lparr>mw_Title = tu_title u, mw_MinSize = (440, 380), mw_Size = (460, 420), mw_Children = ui_view pass port ips u\<rparr>"

text \<open>The tray icon: its tip and its menu.\<close>

definition ui_tip :: "goint \<Rightarrow> hostIPs \<Rightarrow> string" where
  "ui_tip port ips = ''RemoteMouse  '' @ shown_primary ips @ '':'' @ Itoa port"

definition ui_menu :: "tray_ui \<Rightarrow> menu_entry list" where
  "ui_menu u =
    [menu_show, menu_login (tu_check u), Action (tu_status u) False False,
     Action (utf8 [0x5B89, 0x88C5, 0x5E76, 0x542F, 0x52A8, 0x670D, 0x52A1]) False True,
     Action (utf8 [0x5378, 0x8F7D, 0x670D, 0x52A1]) False True, Separator, menu_quit]"

text \<open>
  Without a window - asked for, or because it cannot be created - the function never returns and
  does nothing: None.  Otherwise the state after the events; \<open>Run\<close> returns when \<open>tu_exited\<close>.
\<close>

definition runUI ::
  "bool \<Rightarrow> bool \<Rightarrow> bool \<Rightarrow> string \<Rightarrow> goint \<Rightarrow> hostIPs \<Rightarrow> ui_event list \<Rightarrow> tray_ui \<Rightarrow> tray_ui option" where
  "runUI notray created tray pass port ips evs u0 =
    (if notray \<or> \<not> created then None else Some (fold (ui_step tray pass port ips) evs u0))"

text \<open>Where there is no walk, the function never returns.\<close>

definition runUI_other :: "bool \<Rightarrow> string \<Rightarrow> goint \<Rightarrow> hostIPs \<Rightarrow> tray_ui option" where
  "runUI_other notray pass port ips = None"

text \<open>
  The icon in the tray, if it can be created: its picture, if that could be loaded, which becomes the window's
  too, its tip, and whether it is shown.
\<close>

record 'i tray_icon =
  ti_icon :: "'i option"
  ti_tip :: string
  ti_visible :: bool

definition tray_created :: "bool \<Rightarrow> 'i option \<Rightarrow> string \<Rightarrow> 'i option \<Rightarrow> 'i tray_icon option \<times> 'i option" where
  "tray_created ok icon tip win_icon =
    (if \<not> ok then (None, win_icon)
     else (Some \<lparr>ti_icon = icon, ti_tip = tip, ti_visible = True\<rparr>, if icon = None then win_icon else icon))"

subsection \<open>The table and the window over time\<close>

lemma table_rows_shape:
  "length (table_rows now items) = length items \<and> (\<forall>r \<in> set (table_rows now items). length r = 4 \<and> None \<notin> set r)"
  by (auto simp: table_rows_def device_Value_def Let_def)

definition ui_ok :: "tray_ui \<Rightarrow> bool" where
  "ui_ok u \<longleftrightarrow> tu_count u = devCount_text (length (tu_items u)) \<and> (\<exists>now. tu_rows u = table_rows now (tu_items u))"

lemma ui_ok_start: "ui_ok (ui_start e state snapshot now clip run)"
  by (auto simp: ui_ok_def ui_start_def ui_refresh_def Let_def)

lemma ui_ok_run: "ui_ok u \<Longrightarrow> ui_ok (fold (ui_step tray pass port ips) evs u)"
proof (induction evs arbitrary: u)
  case (Cons ev evs)
  have "ui_ok (ui_handle pass port ips ev u)"
    using Cons.prems by (cases ev) (auto simp: ui_ok_def ui_refresh_def ui_elevate_def onMenuAuto_def Let_def)
  with Cons show ?case by (simp add: ui_step_def)
qed simp

lemma ui_handle_window:
  assumes "\<not> on_tray ev"
  shows "tu_exited (ui_handle pass port ips ev u) = tu_exited u"
    and "wn_visible (tu_win (ui_handle pass port ips ev u)) \<Longrightarrow> wn_visible (tu_win u)"
  using assms by (cases ev; auto simp: ui_refresh_def onMenuAuto_def onClosing_def hideWindow_def Let_def split: if_splits)+

lemma ui_no_tray_run:
  "\<not> tu_exited u \<Longrightarrow> \<not> wn_visible (tu_win u) \<Longrightarrow>
     \<not> tu_exited (fold (ui_step False pass port ips) evs u) \<and> \<not> wn_visible (tu_win (fold (ui_step False pass port ips) evs u))"
proof (induction evs arbitrary: u)
  case (Cons ev evs)
  have "\<not> tu_exited (ui_step False pass port ips ev u) \<and> \<not> wn_visible (tu_win (ui_step False pass port ips ev u))"
    using Cons.prems ui_handle_window [of ev pass port ips u] by (auto simp: ui_step_def ui_enabled_def)
  then show ?case using Cons.IH by simp
qed simp

lemma ui_close_no_tray:
  assumes "\<not> tu_exited u"
  shows "\<not> tu_exited (fold (ui_step False pass port ips) (pre @ CloseWindow # post) u) \<and>
    \<not> wn_visible (tu_win (fold (ui_step False pass port ips) (pre @ CloseWindow # post) u))"
proof -
  have alive: "\<not> tu_exited (fold (ui_step False pass port ips) evs u)" for evs
    using assms
  proof (induction evs arbitrary: u)
    case (Cons ev evs)
    have "\<not> tu_exited (ui_step False pass port ips ev u)"
      using Cons.prems ui_handle_window(1) [of ev pass port ips u] by (auto simp: ui_step_def ui_enabled_def)
    with Cons.IH show ?case by simp
  qed simp
  let ?v = "fold (ui_step False pass port ips) pre u"
  have "\<not> tu_exited (ui_step False pass port ips CloseWindow ?v) \<and> \<not> wn_visible (tu_win (ui_step False pass port ips CloseWindow ?v))"
    using alive [of pre] by (simp add: ui_step_def ui_enabled_def onClosing_def hideWindow_def)
  then show ?thesis using ui_no_tray_run by simp
qed

end
