(* ===== verification/ControlPanel.thy ===== *)
theory ControlPanel
  imports Window
begin

text \<open>
  \<open>runControlPanel\<close> of ui_panel_windows.go as a state machine: the fields, labels, buttons and
  menu entries, what the user and the ticker do to them, and \<open>serveUI\<close>, which starts it.  The
  handlers that act on the service, the controller and the registry are those of Panel.
\<close>

subsection \<open>State and events\<close>

record panel_ui =
  pu_win :: window
  pu_fields :: fields
  pu_pwHidden :: bool
  pu_showText :: string
  pu_sec :: bool
  pu_login :: bool
  pu_live :: widgets
  pu_guard :: bool
  pu_panel :: panel
  pu_clip :: string
  pu_boxes :: "string list"
  pu_exited :: bool

text \<open>What the machine answers while \<open>Save and apply\<close> runs.\<close>

record apply_env =
  ae_can :: "goint \<Rightarrow> bool"
  ae_ann :: bool
  ae_installed :: bool
  ae_reg :: reg_env
  ae_exe :: string

datatype panel_event =
    PTick tick_env | PDevices "client list"
  | PCopyIP bool | PCopyPort bool | PCopyName bool
  | PTypePort string | PTypePass string | PTypeName string
  | PShowPass | PExpand
  | PApply apply_env | PInstall | PStart | PStop | PUninstall | PPick int
  | PTray bool | PMenuShow | PMenuLogin reg_env string | PMenuQuit
  | PClose | PMinimize

fun panel_on_tray :: "panel_event \<Rightarrow> bool" where
  "panel_on_tray (PTray left) = True"
| "panel_on_tray PMenuShow = True"
| "panel_on_tray (PMenuLogin e exe) = True"
| "panel_on_tray PMenuQuit = True"
| "panel_on_tray _ = False"

fun panel_background :: "panel_event \<Rightarrow> bool" where
  "panel_background (PTick t) = True"
| "panel_background (PDevices cs) = True"
| "panel_background _ = False"

fun widget_enabled :: "hostIPs \<Rightarrow> widgets \<Rightarrow> panel_event \<Rightarrow> bool" where
  "widget_enabled ips w PExpand = (secText ips \<noteq> [])"
| "widget_enabled ips w PInstall = wd_install w"
| "widget_enabled ips w PStart = wd_start w"
| "widget_enabled ips w PStop = wd_stop w"
| "widget_enabled ips w PUninstall = wd_uninstall w"
| "widget_enabled ips w (PPick idx) = (wd_comboEnabled w \<and> 0 \<le> idx \<and> idx < int (length startTypeCombo))"
| "widget_enabled ips w _ = True"

definition panel_enabled :: "bool \<Rightarrow> hostIPs \<Rightarrow> panel_ui \<Rightarrow> panel_event \<Rightarrow> bool" where
  "panel_enabled tray ips u ev \<longleftrightarrow>
    \<not> pu_exited u \<and>
    (if panel_on_tray ev then tray
     else panel_background ev \<or> wn_visible (pu_win u) \<and> widget_enabled ips (pu_live u) ev)"

subsection \<open>The handlers\<close>

text \<open>The warning \<open>readConn\<close> shows when it refuses the fields.\<close>

definition conn_warning :: "fields \<Rightarrow> string list" where
  "conn_warning f =
    (if readConn (fl_port f) (fl_pass f) \<noteq> None then []
     else case Atoi (TrimSpace (fl_port f)) of
         None \<Rightarrow> [utf8 [0x7AEF, 0x53E3, 0x65E0, 0x6548]]
       | Some port \<Rightarrow>
           if sint port < 1 \<or> 65535 < sint port then [utf8 [0x7AEF, 0x53E3, 0x65E0, 0x6548]]
           else [utf8 [0x5BC6, 0x7801, 0x4E3A, 0x7A7A]])"

definition warn :: "panel_ui \<Rightarrow> panel_ui" where
  "warn u = u\<lparr>pu_boxes := pu_boxes u @ conn_warning (pu_fields u)\<rparr>"

definition onShowPass :: "panel_ui \<Rightarrow> panel_ui" where
  "onShowPass u =
    (let shown = pu_pwHidden u
     in u\<lparr>pu_pwHidden := \<not> shown, pu_showText := (if shown then utf8 [0x9690, 0x85CF] else utf8 [0x663E, 0x793A])\<rparr>)"

text \<open>The registry's callback shows the devices only while the panel itself serves them.\<close>

definition onDevices :: "client list \<Rightarrow> panel_ui \<Rightarrow> panel_ui" where
  "onDevices snapshot u =
    (if isRunning (fst (pa_ctl (pu_panel u)))
     then u\<lparr>pu_live := (pu_live u)\<lparr>wd_devices := snapshot, wd_devCount := devCount_text (length snapshot)\<rparr>\<rparr>
     else u)"

definition onTick :: "tick_env \<Rightarrow> panel_ui \<Rightarrow> panel_ui" where
  "onTick t u =
    (case panel_tick t (pu_live u, pu_panel u, pu_guard u) of
       (w, p, guard) \<Rightarrow> u\<lparr>pu_live := w, pu_panel := p, pu_guard := guard\<rparr>)"

definition onPick :: "int \<Rightarrow> panel_ui \<Rightarrow> panel_ui" where
  "onPick idx u =
    (case setCurrentIndex (pu_guard u) idx (pu_live u, pu_panel u) of (w, p) \<Rightarrow> u\<lparr>pu_live := w, pu_panel := p\<rparr>)"

definition onMenuLogin :: "reg_env \<Rightarrow> string \<Rightarrow> panel_ui \<Rightarrow> panel_ui" where
  "onMenuLogin e exe u =
    (case onLogin e exe (pu_fields u) (pu_login u) (pu_panel u) of
       (checked, p) \<Rightarrow> (if pu_login u then u else warn u)\<lparr>pu_login := checked, pu_panel := p\<rparr>)"

fun panel_handle :: "hostIPs \<Rightarrow> panel_event \<Rightarrow> panel_ui \<Rightarrow> panel_ui" where
  "panel_handle ips (PTick t) u = onTick t u"
| "panel_handle ips (PDevices snapshot) u = onDevices snapshot u"
| "panel_handle ips (PCopyIP ok) u = u\<lparr>pu_clip := copyClip ok (ip_Primary ips) (pu_clip u)\<rparr>"
| "panel_handle ips (PCopyPort ok) u = u\<lparr>pu_clip := copyClip ok (fl_port (pu_fields u)) (pu_clip u)\<rparr>"
| "panel_handle ips (PCopyName ok) u = u\<lparr>pu_clip := copyClip ok (fl_name (pu_fields u)) (pu_clip u)\<rparr>"
| "panel_handle ips (PTypePort s) u = u\<lparr>pu_fields := (pu_fields u)\<lparr>fl_port := s\<rparr>\<rparr>"
| "panel_handle ips (PTypePass s) u = u\<lparr>pu_fields := (pu_fields u)\<lparr>fl_pass := s\<rparr>\<rparr>"
| "panel_handle ips (PTypeName s) u = u\<lparr>pu_fields := (pu_fields u)\<lparr>fl_name := s\<rparr>\<rparr>"
| "panel_handle ips PShowPass u = onShowPass u"
| "panel_handle ips PExpand u = u\<lparr>pu_sec := \<not> pu_sec u\<rparr>"
| "panel_handle ips (PApply a) u =
    warn (u\<lparr>pu_panel := onApply (ae_can a) (ae_ann a) (ae_installed a) (ae_reg a) (ae_exe a) (pu_fields u) (pu_panel u)\<rparr>)"
| "panel_handle ips PInstall u = warn (u\<lparr>pu_panel := onInstall (pu_fields u) (pu_panel u)\<rparr>)"
| "panel_handle ips PStart u = u\<lparr>pu_panel := onStart (pu_panel u)\<rparr>"
| "panel_handle ips PStop u = u\<lparr>pu_panel := onStop (pu_panel u)\<rparr>"
| "panel_handle ips PUninstall u = u\<lparr>pu_panel := onUninstall (pu_panel u)\<rparr>"
| "panel_handle ips (PPick idx) u = onPick idx u"
| "panel_handle ips (PTray left) u = u\<lparr>pu_win := onTrayMouse left (pu_win u)\<rparr>"
| "panel_handle ips PMenuShow u = u\<lparr>pu_win := showWindow (pu_win u)\<rparr>"
| "panel_handle ips (PMenuLogin e exe) u = onMenuLogin e exe u"
| "panel_handle ips PMenuQuit u = u\<lparr>pu_exited := True\<rparr>"
| "panel_handle ips PClose u = u\<lparr>pu_win := onClosing (pu_win u)\<rparr>"
| "panel_handle ips PMinimize u = u\<lparr>pu_win := (pu_win u)\<lparr>wn_minimized := True, wn_front := False\<rparr>\<rparr>"

definition panel_step :: "bool \<Rightarrow> hostIPs \<Rightarrow> panel_event \<Rightarrow> panel_ui \<Rightarrow> panel_ui" where
  "panel_step tray ips ev u = (if panel_enabled tray ips u ev then panel_handle ips ev u else u)"

subsection \<open>Start\<close>

text \<open>
  The widgets as they are created, before the first tick; \<open>row\<close> is the row a new combo box
  stands on.
\<close>

definition widgets_created :: "int \<Rightarrow> widgets" where
  "widgets_created row =
    \<lparr>wd_status = utf8 [0x67E5, 0x8BE2, 0x4E2D, 0x2026], wd_combo = row, wd_comboEnabled = True, wd_install = True,
     wd_start = True, wd_stop = True, wd_uninstall = True, wd_devices = [], wd_devCount = devCount_text 0\<rparr>"

definition panel_created :: "reg_env \<Rightarrow> bool \<Rightarrow> int \<Rightarrow> string \<Rightarrow> appConfig \<Rightarrow> panel \<Rightarrow> panel_ui" where
  "panel_created e tray row clip cfg p =
    \<lparr>pu_win = \<lparr>wn_visible = True, wn_minimized = False, wn_front = True\<rparr>,
     pu_fields = \<lparr>fl_port = Itoa (ac_port cfg), fl_pass = ac_pass cfg, fl_name = ac_name cfg\<rparr>,
     pu_pwHidden = True, pu_showText = utf8 [0x663E, 0x793A], pu_sec = False,
     pu_login = (tray \<and> autostartOn e (pa_run p)), pu_live = widgets_created row, pu_guard = False,
     pu_panel = p, pu_clip = clip, pu_boxes = [], pu_exited = False\<rparr>"

text \<open>
  Without a window the loop of ticks runs alone; with one, the ticks are among the events.  The
  function returns only when the window has exited.
\<close>

datatype panel_run = Headless "servingController \<times> netos" | Windowed panel_ui

definition runControlPanel ::
  "appConfig \<Rightarrow> bool \<Rightarrow> bool \<Rightarrow> hostIPs \<Rightarrow> reg_env \<Rightarrow> int \<Rightarrow> string \<Rightarrow> panel \<Rightarrow>
     ((goint \<Rightarrow> bool) \<times> bool \<times> bool) list \<Rightarrow> panel_event list \<Rightarrow> panel_run" where
  "runControlPanel cfg created tray ips e row clip p ticks evs =
    (if ac_notray cfg \<or> \<not> created then Headless (runArbiterHeadless ticks (pa_ctl p))
     else Windowed (fold (panel_step tray ips) evs (panel_created e tray row clip cfg p)))"

definition serveUI ::
  "reg_env \<Rightarrow> query_env \<Rightarrow> appConfig \<Rightarrow> machine \<Rightarrow> net_iface list option \<Rightarrow> reg_key option \<Rightarrow> bool \<Rightarrow> bool \<Rightarrow> int \<Rightarrow> string \<Rightarrow>
     ((goint \<Rightarrow> bool) \<times> bool \<times> bool) list \<Rightarrow> panel_event list \<Rightarrow> panel_run" where
  "serveUI e q cfg m ifs run created tray row clip ticks evs =
    (let cfg = ui_config e q cfg m;
         p = \<lparr>pa_ctl = (newServingController (serverConfig_of cfg), net_init), pa_run = run, pa_children = []\<rparr>
     in runControlPanel cfg created tray (DetectIPs ifs) e row clip p ticks evs)"

subsection \<open>The window as it is drawn\<close>

definition panel_view :: "int \<Rightarrow> hostIPs \<Rightarrow> panel_ui \<Rightarrow> widget list" where
  "panel_view now ips u =
    [GroupBox (utf8 [0x8FDE, 0x63A5, 0x4FE1, 0x606F]) 3
       [Label ((utf8 [0x63A8, 0x8350] @ '' IP'')) True 1, Label (shown_primary ips) True 1, PushButton (utf8 [0x590D, 0x5236]) True,
        Label (utf8 [0x7AEF, 0x53E3]) True 1, LineEdit (fl_port (pu_fields u)) False, PushButton (utf8 [0x590D, 0x5236]) True,
        Label (utf8 [0x5BC6, 0x7801]) True 1, LineEdit (fl_pass (pu_fields u)) (pu_pwHidden u), PushButton (pu_showText u) True,
        Label (utf8 [0x8BBE, 0x5907, 0x540D]) True 1, LineEdit (fl_name (pu_fields u)) False, PushButton (utf8 [0x590D, 0x5236]) True,
        Label (utf8 [0x5176, 0x4ED6, 0x5730, 0x5740]) True 1, Label (secText ips) (pu_sec u) 1,
        PushButton (utf8 [0x5C55, 0x5F00]) (secText ips \<noteq> []),
        Label [] True 1, PushButton (utf8 [0x4FDD, 0x5B58, 0x5E76, 0x5E94, 0x7528]) True, Label (utf8 [0x6539, 0x540E, 0x70B9, 0x8FD9, 0x91CC, 0x751F, 0x6548]) True 1],
     GroupBox (utf8 [0x670D, 0x52A1, 0x7BA1, 0x7406]) 4
       [Label (utf8 [0x72B6, 0x6001]) True 1, Label (wd_status (pu_live u)) True 3,
        Label (utf8 [0x542F, 0x52A8, 0x7C7B, 0x578B]) True 1,
        ComboBox startTypeLabels (wd_combo (pu_live u)) (wd_comboEnabled (pu_live u)) 3,
        PushButton (utf8 [0x5B89, 0x88C5, 0x5E76, 0x542F, 0x52A8]) (wd_install (pu_live u)), PushButton (utf8 [0x542F, 0x52A8]) (wd_start (pu_live u)),
        PushButton (utf8 [0x505C, 0x6B62]) (wd_stop (pu_live u)), PushButton (utf8 [0x5378, 0x8F7D]) (wd_uninstall (pu_live u)),
        Label ((utf8 [0x7BA1, 0x7406, 0x64CD, 0x4F5C, 0x9700, 0x8981, 0x7BA1, 0x7406, 0x5458, 0x6743, 0x9650, 0xFF08, 0x4F1A, 0x5F39] @ '' UAC'' @ utf8 [0xFF09])) True 4],
     Label (wd_devCount (pu_live u)) True 1,
     TableView 150 device_columns (table_rows now (wd_devices (pu_live u)))]"

definition panel_window :: "int \<Rightarrow> hostIPs \<Rightarrow> panel_ui \<Rightarrow> main_window" where
  "panel_window now ips u =
    \<lparr>mw_Title = ''RemoteMouse '' @ utf8 [0x63A7, 0x5236, 0x9762, 0x677F], mw_MinSize = (460, 520), mw_Size = (480, 560), mw_Children = panel_view now ips u\<rparr>"

definition panel_tip :: "hostIPs \<Rightarrow> string" where
  "panel_tip ips = ''RemoteMouse  '' @ shown_primary ips"

definition panel_menu :: "panel_ui \<Rightarrow> menu_entry list" where
  "panel_menu u = [menu_show, menu_login (pu_login u), Separator, menu_quit]"

lemma masked_password:
  assumes "pu_pwHidden u" and "length (runes s) = length (runes (fl_pass (pu_fields u)))"
  shows "concat (map screen_texts (panel_view now ips (u\<lparr>pu_fields := (pu_fields u)\<lparr>fl_pass := s\<rparr>\<rparr>))) =
    concat (map screen_texts (panel_view now ips u))"
proof -
  have "concat (map (\<lambda>_. utf8 [0x25CF]) (runes s)) = concat (map (\<lambda>_. utf8 [0x25CF]) (runes (fl_pass (pu_fields u))))"
    using assms(2) by (simp only: map_replicate_const)
  with assms(1) show ?thesis by (simp add: panel_view_def)
qed

subsection \<open>The children it starts\<close>

definition no_NUL :: "string \<Rightarrow> bool" where
  "no_NUL s \<longleftrightarrow> CHR 0x00 \<notin> set s"

text \<open>What an elevated child must read from its command line to do something sensible.\<close>

definition admin_config :: "appConfig \<Rightarrow> bool" where
  "admin_config cfg \<longleftrightarrow>
    mode cfg \<in> {''install-service'', ''uninstall-service'', ''start-service'', ''stop-service'', ''set-start-type'', ''apply-config''} \<and>
    (mode cfg \<in> {''install-service'', ''apply-config''} \<longrightarrow> ac_pass cfg \<noteq> [] \<and> 1 \<le> sint (ac_port cfg) \<and> sint (ac_port cfg) \<le> 65535) \<and>
    (mode cfg = ''set-start-type'' \<longrightarrow> fst (startTypeFromArg (ac_setStartType cfg)) \<in> set startTypeCombo)"

definition child_ok :: "string \<Rightarrow> string option \<Rightarrow> bool" where
  "child_ok host child \<longleftrightarrow>
    (case child of
       None \<Rightarrow> False
     | Some line \<Rightarrow> (case main_config host (commandLineToArgv line) of Inl err \<Rightarrow> False | Inr cfg \<Rightarrow> admin_config cfg))"

lemma child_ok_args:
  assumes "\<forall>a \<in> set args. no_NUL a" and "main_config host args = Inr cfg" and "admin_config cfg"
  shows "child_ok host (elevatedSelf args)"
  using assms elevatedSelf_no_NUL [of args] by (simp add: child_ok_def argv_elevatedArgLine no_NUL_def)

lemma no_NUL_simps [simp]: "no_NUL []" "no_NUL (Itoa i)" "no_NUL (c # s) \<longleftrightarrow> c \<noteq> CHR 0x00 \<and> no_NUL s"
  using Itoa_no_NUL [of i] by (auto simp: no_NUL_def)

lemma no_NUL_TrimSpace [simp]: "no_NUL s \<Longrightarrow> no_NUL (TrimSpace s)"
  using set_TrimSpace [of s] by (auto simp: no_NUL_def)

lemma child_ok_plain:
  assumes "a \<in> {''-start-service'', ''-stop-service'', ''-uninstall-service''}"
  shows "child_ok host (elevatedSelf [a])"
  using assms by (elim insertE emptyE)
    (rule child_ok_args, simp, simp add: config_defs step_simps, simp add: admin_config_def mode_def)+

lemma child_ok_set_start_type: "child_ok host (elevatedSelf [''-set-start-type'', startTypeArg (startTypeByIndex i)])"
proof -
  have k: "startTypeByIndex i \<in> set startTypeCombo" by (rule startTypeByIndex_known)
  then have a: "startTypeArg (startTypeByIndex i) \<noteq> []" "no_NUL (startTypeArg (startTypeByIndex i))"
    by (auto simp: startTypeCombo_def startTypeArg_def start_types)
  show ?thesis
    by (rule child_ok_args, use a in simp, simp add: config_defs step_simps)
      (use a(1) k startType_arg [OF k] in \<open>simp add: admin_config_def mode_def\<close>)
qed

lemma child_ok_conn:
  assumes "readConn f pass = Some (port, pass')" and "no_NUL pass" and "no_NUL name" and "a \<in> {''-apply-config'', ''-install-service''}"
  shows "child_ok host (elevatedSelf [a, ''-pass'', pass', ''-port'', Itoa port, ''-name'', name])"
proof -
  have p: "pass' = pass" "pass \<noteq> []" "1 \<le> sint port" "sint port \<le> 65535" using readConn_ok [OF assms(1)] by auto
  show ?thesis
    using assms(2-4) p
    by (elim insertE emptyE)
      (rule child_ok_args, simp, simp add: config_defs step_simps, simp add: admin_config_def mode_def)+
qed

text \<open>The texts a user can type hold no NUL; the fields and the children of every reachable state.\<close>

fun typed_event :: "panel_event \<Rightarrow> bool" where
  "typed_event (PTypePort s) = no_NUL s"
| "typed_event (PTypePass s) = no_NUL s"
| "typed_event (PTypeName s) = no_NUL s"
| "typed_event _ = True"

definition typed_fields :: "fields \<Rightarrow> bool" where
  "typed_fields f \<longleftrightarrow> no_NUL (fl_port f) \<and> no_NUL (fl_pass f) \<and> no_NUL (fl_name f)"

definition typed_panel :: "string \<Rightarrow> panel_ui \<Rightarrow> bool" where
  "typed_panel host u \<longleftrightarrow> typed_fields (pu_fields u) \<and> (\<forall>c \<in> set (pa_children (pu_panel u)). child_ok host c)"

lemma children_arbitrate [simp]: "pa_children (p\<lparr>pa_ctl := cs\<rparr>) = pa_children p"
  by simp

lemma children_onApply:
  assumes "typed_fields f" and "c \<in> set (pa_children (onApply can ok inst e exe f p))"
  shows "c \<in> set (pa_children p) \<or> child_ok host c"
proof (cases "readConn (fl_port f) (fl_pass f)")
  case (Some r)
  then obtain port pass where "readConn (fl_port f) (fl_pass f) = Some (port, pass)" by (cases r) auto
  then show ?thesis
    using assms child_ok_conn [of "fl_port f" "fl_pass f" port pass "TrimSpace (fl_name f)" "''-apply-config''" host]
    by (auto simp: onApply_def Let_def hotApply_def elevate_def apply_args_def zero_config_def typed_fields_def split: if_splits)
qed (use assms in \<open>simp add: onApply_def\<close>)

lemma children_onInstall:
  assumes "typed_fields f" and "c \<in> set (pa_children (onInstall f p))"
  shows "c \<in> set (pa_children p) \<or> child_ok host c"
proof (cases "readConn (fl_port f) (fl_pass f)")
  case (Some r)
  then obtain port pass where "readConn (fl_port f) (fl_pass f) = Some (port, pass)" by (cases r) auto
  then show ?thesis
    using assms child_ok_conn [of "fl_port f" "fl_pass f" port pass "TrimSpace (fl_name f)" "''-install-service''" host]
    by (auto simp: onInstall_def elevate_def typed_fields_def)
qed (use assms in \<open>simp add: onInstall_def\<close>)

lemma children_others:
  "c \<in> set (pa_children (onStart p)) \<Longrightarrow> c \<in> set (pa_children p) \<or> child_ok host c"
  "c \<in> set (pa_children (onStop p)) \<Longrightarrow> c \<in> set (pa_children p) \<or> child_ok host c"
  "c \<in> set (pa_children (onUninstall p)) \<Longrightarrow> c \<in> set (pa_children p) \<or> child_ok host c"
  "c \<in> set (pa_children (onCombo g i p)) \<Longrightarrow> c \<in> set (pa_children p) \<or> child_ok host c"
  by (auto simp: onStart_def onStop_def onUninstall_def onCombo_def elevate_def child_ok_plain child_ok_set_start_type split: if_splits)

lemma panel_tick_panel: "panel_tick t (w, p, guard) = (w', p', guard') \<Longrightarrow> pa_children p' = pa_children p \<and> pa_run p' = pa_run p \<and> \<not> guard'"
  by (auto simp: panel_tick_def applyPanelState_effects Let_def split: prod.splits)

lemma onLogin_children: "onLogin e exe f checked p = (b, p') \<Longrightarrow> pa_children p' = pa_children p"
  by (auto simp: onLogin_def Let_def split: if_splits option.splits prod.splits)

lemma warn_same [simp]:
  "pu_panel (warn u) = pu_panel u" "pu_fields (warn u) = pu_fields u" "pu_win (warn u) = pu_win u" "pu_exited (warn u) = pu_exited u"
  "pu_live (warn u) = pu_live u" "pu_guard (warn u) = pu_guard u" "pu_login (warn u) = pu_login u"
  "pu_pwHidden (warn u) = pu_pwHidden u" "pu_showText (warn u) = pu_showText u"
  by (simp_all add: warn_def)

lemma typed_panel_handle:
  assumes "typed_panel host u" and "typed_event ev"
  shows "typed_panel host (panel_handle ips ev u)"
proof -
  have f: "typed_fields (pu_fields u)" and c: "\<And>c. c \<in> set (pa_children (pu_panel u)) \<Longrightarrow> child_ok host c"
    using assms(1) by (auto simp: typed_panel_def)
  show ?thesis
  proof (cases ev)
    case (PTick t)
    then show ?thesis using f c panel_tick_panel by (auto simp: typed_panel_def onTick_def split: prod.splits)
  next
    case (PApply a)
    then show ?thesis using f c by (auto simp: typed_panel_def dest!: children_onApply [OF f, where host = host])
  next
    case PInstall
    then show ?thesis using f c by (auto simp: typed_panel_def dest!: children_onInstall [OF f, where host = host])
  next
    case (PPick i)
    then show ?thesis using f c by (auto simp: typed_panel_def onPick_def setCurrentIndex_def dest!: children_others(4) [where host = host] split: if_splits)
  next
    case (PMenuLogin e exe)
    then show ?thesis using f c onLogin_children by (auto simp: typed_panel_def onMenuLogin_def split: prod.splits)
  qed (use f c assms(2) in
    \<open>auto simp: typed_panel_def typed_fields_def onDevices_def onShowPass_def Let_def
      dest!: children_others(1-3) [where host = host]\<close>)
qed

lemma typed_panel_run:
  assumes "typed_panel host u" and "\<forall>ev \<in> set evs. typed_event ev"
  shows "typed_panel host (fold (panel_step tray ips) evs u)"
  using assms by (induction evs arbitrary: u) (auto simp: panel_step_def typed_panel_handle)

subsection \<open>The window\<close>

lemma panel_handle_window:
  assumes "\<not> panel_on_tray ev"
  shows "pu_exited (panel_handle ips ev u) = pu_exited u" and "wn_visible (pu_win (panel_handle ips ev u)) \<Longrightarrow> wn_visible (pu_win u)"
  using assms
  by (cases ev; auto simp: onTick_def onDevices_def onShowPass_def onPick_def onClosing_def hideWindow_def Let_def split: prod.splits if_splits)+

text \<open>Without a tray icon a closed window stays closed and the process cannot be left.\<close>

lemma no_tray_run:
  "\<not> pu_exited u \<Longrightarrow> \<not> wn_visible (pu_win u) \<Longrightarrow>
     \<not> pu_exited (fold (panel_step False ips) evs u) \<and> \<not> wn_visible (pu_win (fold (panel_step False ips) evs u))"
proof (induction evs arbitrary: u)
  case (Cons ev evs)
  have "\<not> pu_exited (panel_step False ips ev u) \<and> \<not> wn_visible (pu_win (panel_step False ips ev u))"
    using Cons.prems panel_handle_window [of ev ips u] by (auto simp: panel_step_def panel_enabled_def split: if_splits)
  then show ?case using Cons.IH by simp
qed simp

lemma panel_close_no_tray:
  assumes "\<not> pu_exited u"
  shows "\<not> pu_exited (fold (panel_step False ips) (pre @ PClose # post) u) \<and> \<not> wn_visible (pu_win (fold (panel_step False ips) (pre @ PClose # post) u))"
proof -
  have alive: "\<not> pu_exited (fold (panel_step False ips) evs u)" for evs
    using assms
  proof (induction evs arbitrary: u)
    case (Cons ev evs)
    have "\<not> pu_exited (panel_step False ips ev u)"
      using Cons.prems panel_handle_window(1) [of ev ips u] by (auto simp: panel_step_def panel_enabled_def split: if_splits)
    with Cons.IH show ?case by simp
  qed simp
  let ?v = "fold (panel_step False ips) pre u"
  have "\<not> pu_exited (panel_step False ips PClose ?v) \<and> \<not> wn_visible (pu_win (panel_step False ips PClose ?v))"
    using alive [of pre] by (simp add: panel_step_def panel_enabled_def onClosing_def hideWindow_def)
  then show ?thesis using no_tray_run by simp
qed

subsection \<open>What the widgets say\<close>

definition buttons_ok :: "widgets \<Rightarrow> bool" where
  "buttons_ok w \<longleftrightarrow> wd_install w = (\<not> wd_uninstall w) \<and> \<not> (wd_start w \<and> wd_stop w) \<and> (wd_start w \<or> wd_stop w \<longrightarrow> wd_uninstall w)"

definition panel_ok :: "panel_ui \<Rightarrow> bool" where
  "panel_ok u \<longleftrightarrow>
    \<not> pu_guard u \<and> pu_showText u = (if pu_pwHidden u then utf8 [0x663E, 0x793A] else utf8 [0x9690, 0x85CF]) \<and>
    wd_devCount (pu_live u) = devCount_text (length (wd_devices (pu_live u)))"

lemma panel_tick_ok:
  "panel_tick t (w, p, guard) = (w', p', guard') \<Longrightarrow>
     \<not> guard' \<and> buttons_ok w' \<and> wd_devCount w' = devCount_text (length (wd_devices w'))"
  by (auto simp: panel_tick_def applyPanelState_effects buttons_ok_def Let_def split: prod.splits)

lemma panel_ok_handle:
  assumes "panel_ok u"
  shows "panel_ok (panel_handle ips ev u)" and "buttons_ok (pu_live u) \<Longrightarrow> buttons_ok (pu_live (panel_handle ips ev u))"
  using assms
  by (cases ev; auto simp: panel_ok_def onTick_def onDevices_def onShowPass_def onPick_def onMenuLogin_def setCurrentIndex_def
      buttons_ok_def Let_def dest!: panel_tick_ok split: prod.splits if_splits)+

lemma panel_ok_run:
  assumes "panel_ok u" and "buttons_ok (pu_live u)"
  shows "panel_ok (fold (panel_step tray ips) evs u) \<and> buttons_ok (pu_live (fold (panel_step tray ips) evs u))"
  using assms
proof (induction evs arbitrary: u)
  case (Cons ev evs)
  then show ?case using panel_ok_handle [of u ips ev] by (simp add: panel_step_def)
qed simp

text \<open>
  The first event is the tick the ticker makes before it waits.
\<close>

lemma panel_first_tick:
  "panel_ok (panel_step tray ips (PTick t) (panel_created e tray row clip cfg p)) \<and>
   buttons_ok (pu_live (panel_step tray ips (PTick t) (panel_created e tray row clip cfg p)))"
  by (auto simp: panel_step_def panel_enabled_def panel_created_def widgets_created_def panel_ok_def onTick_def
      dest!: panel_tick_ok split: prod.splits)

subsection \<open>The menu entry and the Run key\<close>

text \<open>
  As long as the key answers, the check mark says what the key holds; an \<open>Apply\<close> rewrites an entry
  and does not make one.
\<close>

definition run_ok :: "reg_env \<Rightarrow> bool" where
  "run_ok e \<longleftrightarrow> re_open e \<and> re_set e runVal"

fun run_event :: "panel_event \<Rightarrow> bool" where
  "run_event (PApply a) = (run_ok (ae_reg a) \<and> no_NUL (ae_exe a))"
| "run_event (PMenuLogin e exe) = (run_ok e \<and> no_NUL exe)"
| "run_event _ = True"

definition autostart_set :: "panel \<Rightarrow> bool" where
  "autostart_set p \<longleftrightarrow> (case pa_run p of None \<Rightarrow> False | Some k \<Rightarrow> GetStringValue runVal k \<noteq> None)"

lemma autostart_set_on: "re_open e \<Longrightarrow> autostartOn e (pa_run p) = autostart_set p"
  by (simp add: autostartOn_def autostart_set_def)

lemma no_NUL_autostartCmd:
  assumes "no_NUL exe" and "no_NUL pass" and "no_NUL name"
  shows "no_NUL (autostartCmd exe pass port name)"
proof -
  have "set (EscapeArg s) \<subseteq> set s \<union> {backslash, dquote}" for s by (rule set_EscapeArg)
  then have "no_NUL (EscapeArg s)" if "no_NUL s" for s using that by (fastforce simp: no_NUL_def)
  then have e: "no_NUL (EscapeArg exe)" "no_NUL (EscapeArg pass)" "no_NUL (EscapeArg name)" using assms by blast+
  then show ?thesis using Itoa_no_NUL [of port] by (auto simp: autostartCmd_def no_NUL_def)
qed

lemma autostart_written:
  assumes "run_ok e" and "no_NUL cmd" and "run = Some k"
  shows "\<exists>k'. setAutostartNamed e cmd on run = Some k' \<and> (GetStringValue runVal k' \<noteq> None) = on"
  using assms autostart_on_off [of e cmd on k]
  by (cases "setAutostartNamed e cmd on run")
    (auto simp: run_ok_def no_NUL_def autostartOn_def setAutostartNamed_def split: option.splits if_splits)

definition login_ok :: "panel_ui \<Rightarrow> bool" where
  "login_ok u \<longleftrightarrow> typed_fields (pu_fields u) \<and> pa_run (pu_panel u) \<noteq> None \<and> pu_login u = autostart_set (pu_panel u)"

lemma hotApply_run [simp]: "pa_run (hotApply can ok next p) = pa_run p" "pa_run (elevate args p) = pa_run p"
  by (simp_all add: hotApply_def elevate_def)

lemma onApply_autostart:
  assumes "run_ok e" and "no_NUL exe" and "typed_fields f" and "pa_run p \<noteq> None"
  shows "pa_run (onApply can ok inst e exe f p) \<noteq> None \<and> autostart_set (onApply can ok inst e exe f p) = autostart_set p"
proof (cases "readConn (fl_port f) (fl_pass f)")
  case (Some r)
  then obtain port pass where r: "readConn (fl_port f) (fl_pass f) = Some (port, pass)" by (cases r) auto
  then have "no_NUL pass" using readConn_ok [OF r] assms(3) by (simp add: typed_fields_def)
  then have cmd: "no_NUL (autostartCmd exe pass port (TrimSpace (fl_name f)))"
    using assms(2,3) by (intro no_NUL_autostartCmd) (simp_all add: typed_fields_def)
  obtain k where k: "pa_run p = Some k" using assms(4) by blast
  have "re_open e" using assms(1) by (simp add: run_ok_def)
  with autostart_written [OF assms(1) cmd refl, of True k] k r assms(4) show ?thesis
    by (auto simp: onApply_def Let_def zero_config_def autostart_set_def autostartOn_def split: option.splits)
qed (use assms in \<open>simp add: onApply_def\<close>)

lemma onLogin_autostart:
  assumes "run_ok e" and "no_NUL exe" and "typed_fields f" and "pa_run p \<noteq> None" and "checked = autostart_set p"
    and "onLogin e exe f checked p = (checked', p')"
  shows "pa_run p' \<noteq> None \<and> checked' = autostart_set p'"
proof -
  obtain k where k: "pa_run p = Some k" using assms(4) by blast
  have off: "\<exists>k'. setAutostartNamed e [] False (Some k) = Some k' \<and> GetStringValue runVal k' = None"
    using autostart_written [OF assms(1) no_NUL_simps(1) refl, of False k] by auto
  show ?thesis
  proof (cases "checked \<or> readConn (fl_port f) (fl_pass f) = None")
    case True
    then show ?thesis using assms(4-6) off k by (auto simp: onLogin_def autostart_set_def)
  next
    case False
    then obtain port pass where r: "readConn (fl_port f) (fl_pass f) = Some (port, pass)" by auto
    then have "no_NUL pass" using readConn_ok [OF r] assms(3) by (simp add: typed_fields_def)
    then have cmd: "no_NUL (autostartCmd exe pass port (TrimSpace (fl_name f)))"
      using assms(2,3) by (intro no_NUL_autostartCmd) (simp_all add: typed_fields_def)
    with autostart_written [OF assms(1) cmd refl, of True k] False r assms(6) k show ?thesis
      by (auto simp: onLogin_def autostart_set_def)
  qed
qed

lemma login_ok_handle:
  assumes "login_ok u" and "typed_event ev" and "run_event ev"
  shows "login_ok (panel_handle ips ev u)"
proof -
  have u: "typed_fields (pu_fields u)" "pa_run (pu_panel u) \<noteq> None" "pu_login u = autostart_set (pu_panel u)"
    using assms(1) by (simp_all add: login_ok_def)
  show ?thesis
  proof (cases ev)
    case (PTick t)
    then show ?thesis using u by (auto simp: login_ok_def onTick_def autostart_set_def dest!: panel_tick_panel split: prod.splits)
  next
    case (PApply a)
    then show ?thesis using u assms(3) onApply_autostart [of "ae_reg a" "ae_exe a" "pu_fields u" "pu_panel u"] by (simp add: login_ok_def)
  next
    case PInstall
    then show ?thesis using u by (auto simp: login_ok_def onInstall_def autostart_set_def split: option.splits prod.splits)
  next
    case (PPick i)
    then show ?thesis
      using u by (auto simp: login_ok_def onPick_def setCurrentIndex_def onCombo_def autostart_set_def split: if_splits)
  next
    case (PMenuLogin e exe)
    obtain b p where L: "onLogin e exe (pu_fields u) (pu_login u) (pu_panel u) = (b, p)" by fastforce
    from onLogin_autostart [OF _ _ u L] assms(3) PMenuLogin show ?thesis
      using u(1) L by (simp add: login_ok_def onMenuLogin_def)
  qed (use u assms(2) in
    \<open>auto simp: login_ok_def typed_fields_def onDevices_def onShowPass_def onStart_def onStop_def onUninstall_def autostart_set_def Let_def\<close>)
qed

lemma login_ok_run:
  "login_ok u \<Longrightarrow> \<forall>ev \<in> set evs. typed_event ev \<and> run_event ev \<Longrightarrow> login_ok (fold (panel_step tray ips) evs u)"
  by (induction evs arbitrary: u) (simp_all add: panel_step_def login_ok_handle)

text \<open>A key that refuses the value leaves the check mark wrong: nothing looks at the error.\<close>

lemma refused_login_is_shown_as_set:
  assumes "readConn (fl_port f) (fl_pass f) \<noteq> None" and "\<not> re_set e runVal"
  shows "fst (onLogin e exe f False p) \<and> pa_run (snd (onLogin e exe f False p)) = pa_run p"
  using assms by (auto simp: onLogin_def setAutostartNamed_def SetStringValue_def set_value_def split: option.splits)

end
