(* ===== verification/Display.thy ===== *)
theory Display
  imports Window
begin

text \<open>
  How the window of \<open>runUI\<close> keeps up with the registry.  Connections come and go on goroutines of their own: a
  registration changes the map under the mutex, and calls \<open>notify\<close> after it gave the mutex back; the
  callback queues a refresh for the GUI thread, which takes the snapshot only when it runs.  All of these
  interleave, also with the set-up of the window: first the callback, then the first refresh.
\<close>

subsection \<open>Steps\<close>

text \<open>
  \<open>dp_ops\<close> counts the changes whose \<open>notify\<close> has not called back yet, \<open>dp_queue\<close> the refreshes that wait for the GUI thread.
\<close>

record display =
  dp_reg :: "unit registry"
  dp_ops :: nat
  dp_queue :: nat
  dp_ui :: "tray_ui option"

definition display_init :: display where
  "display_init = \<lparr>dp_reg = NewClientRegistry, dp_ops = 0, dp_queue = 0, dp_ui = None\<rparr>"

fun is_refresh :: "ui_event \<Rightarrow> bool" where
  "is_refresh (ClientsChanged snapshot now) = True"
| "is_refresh _ = False"

inductive display_step :: "bool \<Rightarrow> string \<Rightarrow> goint \<Rightarrow> hostIPs \<Rightarrow> display \<Rightarrow> display \<Rightarrow> bool" for tray pass port ips where
  register: "Register now name addr (dp_reg d) = (r, k, fs) \<Longrightarrow>
    display_step tray pass port ips d (d\<lparr>dp_reg := r, dp_ops := Suc (dp_ops d)\<rparr>)"
| deregister: "Deregister k (dp_reg d) = (r, fs) \<Longrightarrow> ok = (map_of (rg_clients (dp_reg d)) k \<noteq> None) \<Longrightarrow>
    display_step tray pass port ips d (d\<lparr>dp_reg := r, dp_ops := dp_ops d + (if ok then 1 else 0)\<rparr>)"
| notify: "dp_ops d = Suc n \<Longrightarrow>
    display_step tray pass port ips d (d\<lparr>dp_ops := n, dp_queue := dp_queue d + length (notify (dp_reg d))\<rparr>)"
| subscribe: "dp_ui d = None \<Longrightarrow> display_step tray pass port ips d (d\<lparr>dp_reg := SetOnChange (Some ()) (dp_reg d)\<rparr>)"
| populate: "dp_ui d = None \<Longrightarrow> rg_onChange (dp_reg d) = Some () \<Longrightarrow>
    display_step tray pass port ips d (d\<lparr>dp_ui := Some (ui_start e state (Snapshot (dp_reg d)) now clip run)\<rparr>)"
| refresh: "dp_queue d = Suc n \<Longrightarrow> dp_ui d = Some u \<Longrightarrow>
    display_step tray pass port ips d
      (d\<lparr>dp_queue := n, dp_ui := Some (ui_step tray pass port ips (ClientsChanged (Snapshot (dp_reg d)) now) u)\<rparr>)"
| event: "dp_ui d = Some u \<Longrightarrow> \<not> is_refresh ev \<Longrightarrow>
    display_step tray pass port ips d (d\<lparr>dp_ui := Some (ui_step tray pass port ips ev u)\<rparr>)"

definition display_reachable :: "bool \<Rightarrow> string \<Rightarrow> goint \<Rightarrow> hostIPs \<Rightarrow> display \<Rightarrow> bool" where
  "display_reachable tray pass port ips d \<longleftrightarrow> (display_step tray pass port ips)\<^sup>*\<^sup>* display_init d"

lemma display_reachable_init: "display_reachable tray pass port ips display_init"
  by (simp add: display_reachable_def)

lemma display_reachable_step:
  "display_reachable tray pass port ips d \<Longrightarrow> display_step tray pass port ips d d' \<Longrightarrow> display_reachable tray pass port ips d'"
  unfolding display_reachable_def by (rule rtranclp.rtrancl_into_rtrancl)

subsection \<open>Nothing is missed\<close>

definition up_to_date :: "display \<Rightarrow> tray_ui \<Rightarrow> bool" where
  "up_to_date d u \<longleftrightarrow> tu_items u = Snapshot (dp_reg d)"

text \<open>What the window shows: the clients, their number, and the rows, whose durations are those of some instant.\<close>

definition shows_registry :: "display \<Rightarrow> tray_ui \<Rightarrow> bool" where
  "shows_registry d u \<longleftrightarrow>
    tu_items u = Snapshot (dp_reg d) \<and> tu_count u = devCount_text (length (rg_clients (dp_reg d))) \<and>
    (\<exists>now. tu_rows u = table_rows now (Snapshot (dp_reg d)))"

definition display_inv :: "display \<Rightarrow> bool" where
  "display_inv d \<longleftrightarrow>
    (\<forall>u. dp_ui d = Some u \<longrightarrow>
       rg_onChange (dp_reg d) = Some () \<and> ui_ok u \<and> (tu_exited u \<or> up_to_date d u \<or> 0 < dp_ops d + dp_queue d))"

lemma Deregister_missing: "map_of (rg_clients r) k = None \<Longrightarrow> Deregister k r = (r, [])"
  by (auto simp: Deregister_def Let_def go_delete_def map_of_eq_None_iff intro!: registry.equality filter_True)

lemma ui_step_other:
  assumes "\<not> is_refresh ev"
  shows "tu_items (ui_step tray pass port ips ev u) = tu_items u"
    and "tu_exited u \<Longrightarrow> tu_exited (ui_step tray pass port ips ev u)"
  using assms
  by (cases ev; auto simp: ui_step_def ui_enabled_def onMenuAuto_def ui_elevate_def Let_def)+

lemma ui_step_refresh:
  "tu_exited (ui_step tray pass port ips (ClientsChanged snapshot now) u) = tu_exited u"
  "\<not> tu_exited u \<Longrightarrow> tu_items (ui_step tray pass port ips (ClientsChanged snapshot now) u) = snapshot"
  by (auto simp: ui_step_def ui_enabled_def ui_refresh_def Let_def)

lemma ui_ok_step: "ui_ok u \<Longrightarrow> ui_ok (ui_step tray pass port ips ev u)"
  using ui_ok_run [of u tray pass port ips "[ev]"] by simp

lemma display_inv_step: "display_step tray pass port ips d d' \<Longrightarrow> display_inv d \<Longrightarrow> display_inv d'"
proof (induction rule: display_step.induct)
  case (register now name addr d r k fs)
  then have "rg_onChange r = rg_onChange (dp_reg d)" by (auto simp: Register_def Let_def)
  with register show ?case by (auto simp: display_inv_def)
next
  case (deregister k d r fs ok)
  then have "rg_onChange r = rg_onChange (dp_reg d)" by (auto simp: Deregister_def Let_def)
  moreover have "r = dp_reg d" if "\<not> ok" using that deregister Deregister_missing [of "dp_reg d" k] by simp
  ultimately show ?case using deregister.prems by (cases ok) (auto simp: display_inv_def up_to_date_def)
next
  case (notify d n)
  then show ?case by (auto simp: display_inv_def up_to_date_def notify_def)
next
  case (subscribe d)
  then show ?case by (simp add: display_inv_def)
next
  case (populate d e state now clip run)
  then show ?case
    using ui_ok_start [of e state "Snapshot (dp_reg d)" now clip run]
    by (simp add: display_inv_def up_to_date_def ui_start_def ui_refresh_def Let_def)
next
  case (refresh d n u now)
  then show ?case
    using ui_step_refresh [where u = u] ui_ok_step [where u = u]
    by (cases "tu_exited u") (auto simp: display_inv_def up_to_date_def)
next
  case (event d u ev)
  then show ?case
    using ui_step_other [OF event.hyps(2), where u = u] ui_ok_step [where u = u]
    by (auto simp: display_inv_def up_to_date_def)
qed

lemma display_reachable_inv: "display_reachable tray pass port ips d \<Longrightarrow> display_inv d"
  unfolding display_reachable_def
proof (induction rule: rtranclp_induct)
  case base
  show ?case by (simp add: display_init_def display_inv_def)
next
  case (step d d')
  from display_inv_step [OF step.hyps(2) step.IH] show ?case .
qed

lemma shows_registry_ok: "ui_ok u \<Longrightarrow> up_to_date d u \<Longrightarrow> shows_registry d u"
  by (auto simp: ui_ok_def up_to_date_def shows_registry_def Snapshot_sort_key)

lemma display_settled:
  "display_inv d \<Longrightarrow> dp_ui d = Some u \<Longrightarrow> \<not> tu_exited u \<Longrightarrow>
     dp_ops d = 0 \<and> dp_queue d = 0 \<longrightarrow> shows_registry d u"
  by (auto simp: display_inv_def intro: shows_registry_ok)

text \<open>What is pending runs to its end, and then the window shows what the registry holds.\<close>

lemma display_drains:
  assumes "display_inv d" and "dp_ui d = Some u" and "\<not> tu_exited u"
  shows "\<exists>d' u'. (display_step tray pass port ips)\<^sup>*\<^sup>* d d' \<and> dp_reg d' = dp_reg d \<and> dp_ops d' = 0 \<and> dp_queue d' = 0 \<and>
    dp_ui d' = Some u' \<and> shows_registry d' u'"
  using assms
proof (induction "2 * dp_ops d + dp_queue d" arbitrary: d u rule: less_induct)
  case less
  show ?case
  proof (cases "dp_ops d")
    case (Suc n)
    let ?d = "d\<lparr>dp_ops := n, dp_queue := dp_queue d + length (notify (dp_reg d))\<rparr>"
    have s: "display_step tray pass port ips d ?d" using Suc by (rule display_step.notify)
    have "length (notify (dp_reg d)) \<le> 1" by (simp add: notify_def split: option.splits)
    then have "2 * dp_ops ?d + dp_queue ?d < 2 * dp_ops d + dp_queue d" using Suc by simp
    from less.hyps [OF this display_inv_step [OF s less.prems(1)], of u] less.prems(2,3) s
    show ?thesis by (simp, meson converse_rtranclp_into_rtranclp)
  next
    case ops: 0
    show ?thesis
    proof (cases "dp_queue d")
      case 0
      then show ?thesis using ops less.prems(2) display_settled [OF less.prems]
        by (intro exI [of _ d] exI [of _ u]) simp
    next
      case (Suc n)
      let ?u = "ui_step tray pass port ips (ClientsChanged (Snapshot (dp_reg d)) 0) u"
      let ?d = "d\<lparr>dp_queue := n, dp_ui := Some ?u\<rparr>"
      have s: "display_step tray pass port ips d ?d" using Suc less.prems(2) by (rule display_step.refresh)
      have "2 * dp_ops ?d + dp_queue ?d < 2 * dp_ops d + dp_queue d" using Suc by simp
      from less.hyps [OF this display_inv_step [OF s less.prems(1)], of ?u] less.prems(3) s
      show ?thesis by (simp add: ui_step_refresh(1), meson converse_rtranclp_into_rtranclp)
    qed
  qed
qed

end
