(* ===== verification/Samples.thy ===== *)
theory Samples
  imports Sessions WinInject
begin

text \<open>
  One concrete session - a phone that says hello, proves the password, moves the pointer and
  hangs up - at which the theorems about sessions are instantiated.
\<close>

definition demo_kdf :: kdf where "demo_kdf pw salt n k = pw"

definition demo_salt :: string where "demo_salt = replicate 16 (CHR ''s'')"

definition demo_nonce :: string where "demo_nonce = replicate 16 (CHR ''n'')"

definition demo_hello :: inmsg where "demo_hello = zero_in\<lparr>m_T := ''hello''\<rparr>"

definition demo_auth :: inmsg where
  "demo_auth = zero_in\<lparr>m_T := ''auth'', m_Proof := deriveProof demo_kdf ''pw'' demo_salt demo_nonce\<rparr>"

definition demo_move :: inmsg where "demo_move = zero_in\<lparr>m_T := ''move'', m_Dx := 5\<rparr>"

definition demo_sv :: server where "demo_sv = sy_sv (sys_init ''pw'' ''pc'' None)"

definition demo_events :: "sv_event list" where
  "demo_events = [Sent (msg_challenge demo_salt demo_nonce), Checked ''pw'' demo_salt demo_nonce (norm_in demo_auth) True,
     Sent (msg_auth_ok ''pc''), Registered 1, Injected (MoveRel 5 0), Deregistered 1]"

lemma demo_short: "m \<in> set [demo_hello, demo_auth, demo_move] \<Longrightarrow> in_short m"
  by (rule in_short_strings)
    (auto simp: string_size_def demo_hello_def demo_auth_def demo_move_def zero_in_def max_token_def deriveProof_length)

lemma demo_enroll:
  "enroll ''10.0.0.2:5000'' (to_valid []) 7 demo_sv =
    (demo_sv\<lparr>sv_reg := Some \<lparr>rg_clients = [(1, \<lparr>cl_Name = [], cl_Addr = ''10.0.0.2'', cl_Since = 7, cl_seq = 1\<rparr>)],
       rg_nextID = 1, rg_onChange = None\<rparr>\<rparr>, Some 1, [Registered 1])"
proof -
  have "ipOf ''10.0.0.2:5000'' = ''10.0.0.2''" by code_simp
  then show ?thesis
    by (simp add: enroll_def demo_sv_def sys_init_def SetOnChange_def NewClientRegistry_def Register_def notify_def
        go_insert_def go_delete_def to_valid_def runes_def)
qed

lemma demo_withdraw:
  "withdraw (Some 1) (demo_sv\<lparr>sv_reg := Some \<lparr>rg_clients = [(1, c)], rg_nextID = 1, rg_onChange = None\<rparr>\<rparr>) =
    (demo_sv\<lparr>sv_reg := Some \<lparr>rg_clients = [], rg_nextID = 1, rg_onChange = None\<rparr>\<rparr>, [Deregistered 1])"
  by (simp add: withdraw_def Deregister_def go_delete_def notify_def)

lemma demo_respond: "respond scr demo_move = [Injected (MoveRel 5 0)]"
  by (simp add: respond_def demo_move_def applyEvent_def zero_in_def)

lemma demo_types:
  "m_T demo_hello = ''hello''" "m_T demo_auth = ''auth''" "m_T demo_move = ''move''" "m_Name demo_hello = []"
  "m_Proof demo_auth = deriveProof demo_kdf ''pw'' demo_salt demo_nonce" "sv_password demo_sv = ''pw''" "sv_name demo_sv = ''pc''"
  "length demo_salt = 16" "length demo_nonce = 16"
  by (simp_all add: demo_hello_def demo_auth_def demo_move_def zero_in_def demo_sv_def sys_init_def demo_salt_def demo_nonce_def)

lemma demo_run:
  "handle demo_kdf ''10.0.0.2:5000'' demo_salt demo_nonce 7 (1920, 1080) (frame_bytes [demo_hello, demo_auth, demo_move]) demo_sv =
    (demo_sv\<lparr>sv_reg := Some \<lparr>rg_clients = [], rg_nextID = 1, rg_onChange = None\<rparr>\<rparr>, demo_events)"
proof -
  have short: "in_short m" if "m \<in> set (demo_hello # demo_auth # [demo_move])" for m using that by (rule demo_short)
  have bye: "m_T m \<noteq> ''bye''" if "m \<in> set [demo_move]" for m using that by (simp add: demo_types)
  have pf: "m_Proof demo_auth = deriveProof demo_kdf (sv_password demo_sv) demo_salt demo_nonce" by (simp add: demo_types)
  have en: "enroll ''10.0.0.2:5000'' (to_valid (m_Name demo_hello)) 7 demo_sv =
    (demo_sv\<lparr>sv_reg := Some \<lparr>rg_clients = [(1, \<lparr>cl_Name = [], cl_Addr = ''10.0.0.2'', cl_Since = 7, cl_seq = 1\<rparr>)],
       rg_nextID = 1, rg_onChange = None\<rparr>\<rparr>, Some 1, [Registered 1])"
    using demo_enroll by (simp only: demo_types)
  show ?thesis
    using handle_honest [where ms = "[demo_move]" and scr = "(1920, 1080)", OF short demo_types(1,2) bye pf en demo_withdraw]
    by (simp add: demo_types demo_events_def demo_respond)
qed

definition demo_sys :: sys where
  "demo_sys = \<lparr>sy_sv = demo_sv\<lparr>sv_reg := Some \<lparr>rg_clients = [], rg_nextID = 1, rg_onChange = None\<rparr>\<rparr>,
     sy_conns = [0 \<mapsto> (Closed, ''10.0.0.2:5000'')], sy_trace = map (Pair 0) demo_events\<rparr>"

lemma demo_reachable: "reachable demo_kdf demo_sys"
  unfolding demo_sys_def
  by (rule handle_reachable [OF demo_types(8,9), where pw = "''pw''" and name = "''pc''" and cb = None, folded demo_sv_def, OF demo_run])

text \<open>A pipe connection as its buffer, of four bytes, and whether a deadline is set on it.\<close>

definition demo_deadline :: "string \<times> bool \<Rightarrow> string \<times> bool" where
  "demo_deadline w = (fst w, True)"

definition demo_write :: "string \<times> bool \<Rightarrow> string \<Rightarrow> (string \<times> bool) option" where
  "demo_write w s =
    (if length (fst w) + length s \<le> 4 then Some (fst w @ s, snd w) else if snd w then Some w else None)"

text \<open>A machine with one 1920x1080 monitor and the pointer at (100, 100).\<close>

definition demo_env :: win_env where
  "demo_env = \<lparr>sysMetric = (\<lambda>i. if i = 0 \<or> i = 78 then 1920 else if i = 1 \<or> i = 79 then 1080 else 0), cursorPos = Some (100, 100)\<rparr>"

definition demo_pointer :: winInjector where
  "demo_pointer = \<lparr>wi_absolute = True, wi_seeded = True, wi_x = 100, wi_y = 100\<rparr>"

lemma demo_screen: "virtualScreen demo_env = (0, 0, 1920, 1080)" "screen_ok demo_env" "axis_ok 0 1920" "axis_ok 0 1080"
  by (simp_all add: virtualScreen_def demo_env_def screen_ok_def axis_ok_def Let_def)

end
