(* ===== verification/Spec2Isabelle.thy ===== *)
theory Spec2Isabelle
  imports WinInject MacInject InjectLog Pipe Torn Sessions Wire Controller Monitor Spawn Admin Startup Netinfo ControlPanel Display Samples
begin

text \<open>
  Verification library of remote-mouse: the Go server under src/server that lets a phone drive the
  mouse and the keyboard of a PC.

  The program.  A phone connects over TCP and proves the password in a challenge and response
  (server.go); from then on each line it sends is a JSON message (proto.go), which
  \<open>applyEvent\<close> (inject_apply.go) turns into calls of the \<open>Injector\<close> interface (injector.go).  There
  are three injectors: SendInput on Windows (injector_windows.go), CoreGraphics on macOS
  (injector_darwin.go), a logging stub (injector_other.go).  The clients online are kept in a
  registry (clients.go).  On Windows the server runs in one of two places.  In the control panel's
  process a controller starts, stops and reconfigures it (serving_windows.go).  In the service, which
  must reach the lock screen, the injector is a pipe (pipe_inject.go, fanout.go) to agent processes
  on the desktops, and a monitor (desktop_windows.go, service_windows.go) keeps the right agents
  running; it starts them with spawn_windows.go, and they run agent_windows.go.  The panel
  (ui_panel_windows.go, ui_windows.go, ui_service_windows.go) edits the configuration, which lives in the
  registry (config_windows.go, starttype_windows.go, autostart_windows.go), through elevated children of the same
  program (main.go, run_windows.go) that administer the service (service_windows.go).  The address shown
  and the interfaces announced over mDNS come from netinfo.go and serve.go.

  The theories, in the order they build on each other.
  Prelude: machine types, the stream codec interface, words and lists.
  Utf, Json, Proto, Frames: runes of a string and UTF-16, the JSON grammar as encoding/json reads
  and writes it, \<open>In\<close> with \<open>marshal_in\<close> and \<open>unmarshal_in\<close>, lines under the scanner's limit
  (\<open>scan_lines\<close>, \<open>read_frames\<close>); their lemmas are the round trips.
  Inject, Keys, WinInject, InjectLog, Double, MacInject: the calls of the interface as a datatype, \<open>applyEvent\<close>
  as the calls it makes, key tables, and for each platform the injector as a function from a state
  and a call to the events it hands to the system; pointer arithmetic on 32-bit words, and on macOS in
  doubles, rounded to even; the diagnostic log.  Their common interface is the locale \<open>os_injector\<close>, the laws of
  rounding are the locale \<open>float_arith\<close>.
  Brackets: what the JSON reader accepts has balanced brackets outside its strings, so a list or an object cut short is refused.
  Pipe, Torn: \<open>pipeInjector\<close>, \<open>runAgentLoop\<close>, \<open>fanoutWriter\<close>, the ends of the inject pipe; what is left of
  frames that write deadlines cut (\<open>received\<close>).
  Clients, Crypto, Server, Sessions, Wire: the registry; SHA-256, HMAC and base64, with PBKDF2 as the
  parameter \<open>kdf\<close>; \<open>handle\<close> cut into the steps of its goroutine (\<open>handle_step\<close>) and any number of
  goroutines interleaved with hot swaps (\<open>sys_step\<close>); \<open>handle\<close> as one function of a client's bytes,
  proved to be a run of the steps; the schema of the messages sent.  Allocating and releasing ids, listeners and announcements
  share the locale \<open>session_registry\<close>.
  Times, Status: instants in RFC 3339 as the package time writes and reads them, the list of clients as
  JSON on the status pipe and back.
  Args, Flags, Config: quoting and splitting of Windows command lines, \<open>appConfig\<close>, its mode and the
  flag package, the registry key with \<open>readConfig\<close> and \<open>writeConfig\<close>, start types, the Run key.
  Controller: \<open>servingController\<close> against a ghost network that remembers every open listener and
  announcement.  Monitor: \<open>agentMonitor\<close> against a ghost machine that remembers every process and
  connection.  Spawn: tokens, launch and agent, with every handle they open.
  Admin: the service control manager, the administrative operations, the control handler, what the
  service starts up with, dispatch.  Startup: the log file, the process of the service, the answers of user32, the
  desktop probe.  Netinfo: addresses and interfaces.
  Panel: the handlers, the ticker and the widgets, arbitration, and the elevated child that joins the panel to Admin.
  Window, ControlPanel: the two windows as state machines, one event for each thing that can happen, and
  what they show.  Display: the window of the single process beside the goroutines that change the registry (\<open>display_step\<close>).
  Samples and this theory: the properties, each with a concrete instance where it has hypotheses.

  What the properties show.  C1 to C8: no effect without a proof, the registry is exact, what
  \<open>handle\<close> does on a good and on a bad client, that it is a run of the interleaved system, and what
  its messages look like.  C9 to C15: the service path injects what the in-process server would, what
  write deadlines cost an agent, the fan-out, the monitor's accounts and its one way to starve.  C16 to C18: controller
  and network.  C19 to C24: Windows and macOS injection.  C25 to C32: configuration from the
  panel's text fields to the running service and back, command lines, launches, waits, the port.  C33 to C37:
  what the windows show, what the panel's children are told, and what becomes of a closed window.  C38: start types.
  C39: addresses.  C40: the log.

  Conventions and bounds.  A Go string is its bytes; \<open>int\<close> is 64 bits.  Errors are values of \<open>option\<close>
  or of a sum type with an error datatype of the component.  What the system answers (a bind, a
  spawn, a clock, a monitor layout) is an argument.  The JSON reader has fuel; \<open>parse_json\<close> gives it twice the length of
  the text and a nesting of 10000, the limit of encoding/json.  Scanner lines are limited to 1 MiB as in the
  code; C9 and C11 state the sizes under which nothing is lost.  The waits on a clock (\<open>stop_wait\<close>,
  \<open>listen_loop\<close>) are partial functions, and C30 and C31 prove that they return.  C2 holds up to \<open>2^64\<close>
  registrations, where the identifier of the registry wraps.

  Not modelled.  Drawing and message pumping, which the walk library does: the model takes the widgets as data (\<open>ui_view\<close>,
  \<open>panel_view\<close>) and the things a user or a ticker can do as events.  The system's side of a call: user32, CoreGraphics, the service
  control manager, the registry, pipes and sockets answer through arguments or through a small model of their state.  Overflow and denormal
  numbers of doubles: \<open>round64\<close> has the precision of a double and no bound on its exponent, which no screen coordinate
  reaches.  What an expired write deadline of \<open>send\<close> cuts off.  Goroutine scheduling inside one registry or injector operation: each
  takes its mutex and is one step.  The cleaning of paths by \<open>filepath.Join\<close>, a parameter.  The
  seconds of a \<open>Duration\<close> are taken as an integer in \<open>fmtDur\<close>.
\<close>

section \<open>The control server\<close>

text \<open>
  C1: Authentication comes before any effect.  In every state any interleaving of connections,
  password changes and name changes can reach, an injected call, a registration, a
  deregistration or an \<open>auth_ok\<close> on a connection comes after a proof was accepted on that same
  connection, the proof is the HMAC of the password the server had at that moment, and salt
  and nonce are those of a challenge the server sent on that connection.
\<close>

theorem effects_need_proof:
  assumes "reachable kdf s" and "sy_trace s = pre @ (i, e) # post" and "privileged e"
  shows "\<exists>pw salt nonce auth. (i, Checked pw salt nonce auth True) \<in> set pre \<and>
    m_T auth = ''auth'' \<and> m_Proof auth = deriveProof kdf pw salt nonce \<and>
    (i, Sent (msg_challenge salt nonce)) \<in> set (sy_trace s)"
proof -
  have "i \<in> accepted pre"
    using reachable_auth_inv [OF assms(1)] assms(2,3) guarded_split [of pre i e post] by (simp add: auth_inv_def)
  then obtain ev where "(i, ev) \<in> set pre" "accepts ev" by (auto simp: accepted_def)
  then obtain pw salt nonce auth where "(i, Checked pw salt nonce auth True) \<in> set pre" by (cases ev) auto
  moreover then have "(i, Checked pw salt nonce auth True) \<in> set (sy_trace s)" using assms(2) by simp
  moreover have "answers kdf (sy_trace s)" using reachable_challenge_inv [OF assms(1)] by (simp add: challenge_inv_def)
  ultimately show ?thesis unfolding answers_def by blast
qed

theorem effects_need_proof_witness:
  "\<exists>pw salt nonce auth. (0 :: nat, Checked pw salt nonce auth True) \<in> set (map (Pair 0) (take 4 demo_events)) \<and>
    m_T auth = ''auth'' \<and> m_Proof auth = deriveProof demo_kdf pw salt nonce \<and>
    (0, Sent (msg_challenge salt nonce)) \<in> set (sy_trace demo_sys)"
  by (rule effects_need_proof [OF demo_reachable, where e = "Injected (MoveRel 5 0)" and post = "[(0, Deregistered 1)]"])
    (simp_all add: demo_sys_def demo_events_def)

text \<open>
  C2: The registry is exact.  As long as fewer than \<open>2^64\<close> connections have registered, in every
  reachable state the ids in the registry are exactly the ids held by the connections being
  served, no two connections hold the same id, and once every connection is closed the
  registry is empty.
\<close>

theorem registry_exact:
  assumes "reachable kdf s" and "registrations (sy_trace s) < 2 ^ 64"
  shows "\<exists>r. sv_reg (sy_sv s) = Some r \<and> dom (live_clients r) = ran (holder s) \<and> inj_on (holder s) (dom (holder s)) \<and>
    ((\<forall>i p ip. sy_conns s i = Some (p, ip) \<longrightarrow> p = Closed) \<longrightarrow> live_clients r = Map.empty)"
proof -
  obtain r where r: "sv_reg (sy_sv s) = Some r" "dom (live_clients r) = ran (holder s)" "inj_on (holder s) (dom (holder s))"
    using reachable_reg_acc [OF assms] by (auto simp: reg_acc_def)
  have "live_clients r = Map.empty" if "\<forall>i p ip. sy_conns s i = Some (p, ip) \<longrightarrow> p = Closed"
  proof -
    have "holder s = Map.empty"
    proof
      fix i
      show "holder s i = None"
      proof (cases "sy_conns s i")
        case (Some q)
        with that have "fst q = Closed" by (metis prod.collapse)
        with Some show ?thesis by (simp add: holder_def case_prod_beta)
      qed (simp add: holder_def)
    qed
    with r(2) show ?thesis by simp
  qed
  with r show ?thesis by blast
qed

theorem registry_exact_witness:
  "\<exists>r. sv_reg (sy_sv demo_sys) = Some r \<and> dom (live_clients r) = ran (holder demo_sys) \<and> live_clients r = Map.empty"
proof -
  have n: "registrations (sy_trace demo_sys) < 2 ^ 64" by (simp add: registrations_def demo_sys_def demo_events_def)
  have "\<forall>i p ip. sy_conns demo_sys i = Some (p, ip) \<longrightarrow> p = Closed" by (simp add: demo_sys_def)
  with registry_exact [OF demo_reachable n] show ?thesis by blast
qed

text \<open>
  C3: The whole \<open>handle\<close> for a client that follows the protocol: challenge, acceptance,
  registration, then the effect of each message in order - \<open>pong\<close>, \<open>screen\<close> or the injected
  calls - and the deregistration when it hangs up.
\<close>

theorem handle_serves:
  assumes "\<forall>m \<in> set (hello # auth # ms). in_short m"
    and "m_T hello = ''hello''" and "m_T auth = ''auth''" and "\<forall>m \<in> set ms. m_T m \<noteq> ''bye''"
    and "m_Proof auth = deriveProof kdf (sv_password sv) salt nonce"
    and "enroll addr (to_valid (m_Name hello)) now sv = (sv1, k, evs1)" and "withdraw k sv1 = (sv2, evs3)"
  shows "handle kdf addr salt nonce now scr (frame_bytes (hello # auth # ms)) sv =
    (sv2, [Sent (msg_challenge salt nonce), Checked (sv_password sv) salt nonce (norm_in auth) True,
           Sent (msg_auth_ok (sv_name sv))] @ evs1 @ concat (map (respond scr) ms) @ evs3)"
  by (rule handle_honest) (use assms in auto)

theorem handle_serves_witness:
  "handle demo_kdf ''10.0.0.2:5000'' demo_salt demo_nonce 7 (1920, 1080) (frame_bytes [demo_hello, demo_auth, demo_move]) demo_sv =
    (demo_sv\<lparr>sv_reg := Some \<lparr>rg_clients = [], rg_nextID = 1, rg_onChange = None\<rparr>\<rparr>,
     [Sent (msg_challenge demo_salt demo_nonce), Checked (sv_password demo_sv) demo_salt demo_nonce (norm_in demo_auth) True,
      Sent (msg_auth_ok (sv_name demo_sv))] @ [Registered 1] @ concat (map (respond (1920, 1080)) [demo_move]) @ [Deregistered 1])"
proof (rule handle_serves)
  show "\<forall>m \<in> set [demo_hello, demo_auth, demo_move]. in_short m" using demo_short by blast
  show "enroll ''10.0.0.2:5000'' (to_valid (m_Name demo_hello)) 7 demo_sv =
    (demo_sv\<lparr>sv_reg := Some \<lparr>rg_clients = [(1, \<lparr>cl_Name = [], cl_Addr = ''10.0.0.2'', cl_Since = 7, cl_seq = 1\<rparr>)],
       rg_nextID = 1, rg_onChange = None\<rparr>\<rparr>, Some 1, [Registered 1])"
    using demo_enroll by (simp only: demo_types)
qed (simp_all add: demo_types demo_withdraw)

text \<open>
  C4: A wrong proof has no effect.  Whatever the client sends after it, the server answers the
  challenge and one error, changes nothing of its state, injects nothing and closes.
\<close>

theorem handle_rejects:
  assumes "\<forall>m \<in> set (hello # auth # ms). in_short m" and "m_T hello = ''hello''"
    and "m_Proof auth \<noteq> deriveProof kdf (sv_password sv) salt nonce"
  shows "handle kdf addr salt nonce now scr (frame_bytes (hello # auth # ms)) sv =
    (sv, [Sent (msg_challenge salt nonce), Checked (sv_password sv) salt nonce (norm_in auth) False,
          Sent (msg_error ''auth_failed'' ''wrong password'')])"
  by (rule handle_reject) (use assms in auto)

theorem handle_rejects_witness:
  "handle demo_kdf ''10.0.0.2:5000'' demo_salt demo_nonce 7 (1920, 1080) (frame_bytes [demo_hello, demo_move, demo_move]) demo_sv =
    (demo_sv, [Sent (msg_challenge demo_salt demo_nonce), Checked (sv_password demo_sv) demo_salt demo_nonce (norm_in demo_move) False,
          Sent (msg_error ''auth_failed'' ''wrong password'')])"
proof (rule handle_rejects)
  show "\<forall>m \<in> set [demo_hello, demo_move, demo_move]. in_short m" using demo_short by simp
  have "length (m_Proof demo_move) = 0" by (simp add: demo_move_def zero_in_def)
  then show "m_Proof demo_move \<noteq> deriveProof demo_kdf (sv_password demo_sv) demo_salt demo_nonce"
    using deriveProof_length [of demo_kdf "sv_password demo_sv" demo_salt demo_nonce] by auto
qed (rule demo_types)

text \<open>
  C5: \<open>handle\<close> is an execution of the concurrent system.  On any bytes, from any state of the
  server in which the connection was just accepted, the steps of its goroutine lead to the
  closed connection with exactly the state and the effects \<open>handle\<close> computes, and the other
  connections are not touched.
\<close>

theorem handle_refines_system:
  assumes "length salt = 16" and "length nonce = 16" and "sy_conns s i = Some (WaitHello, addr)"
    and "handle kdf addr salt nonce now scr input (sy_sv s) = (sv', evs)"
  shows "(sys_step kdf)\<^sup>*\<^sup>* s
    (s\<lparr>sy_sv := sv', sy_conns := (sy_conns s)(i \<mapsto> (Closed, addr)), sy_trace := sy_trace s @ map (Pair i) evs\<rparr>)"
proof -
  obtain "is" where "conn_run kdf addr WaitHello (sy_sv s) is evs Closed sv'"
    using handle_is_run [OF assms(1,2,4)] by blast
  then show ?thesis by (rule conn_run_sys [OF _ assms(3) refl])
qed

theorem handle_refines_system_witness:
  "(sys_step demo_kdf)\<^sup>*\<^sup>* \<lparr>sy_sv = demo_sv, sy_conns = [3 \<mapsto> (WaitHello, [])], sy_trace = []\<rparr>
    (\<lparr>sy_sv = demo_sv, sy_conns = [3 \<mapsto> (WaitHello, [])], sy_trace = []\<rparr>
      \<lparr>sy_sv := demo_sv, sy_conns := (sy_conns \<lparr>sy_sv = demo_sv, sy_conns = [3 \<mapsto> (WaitHello, [])], sy_trace = []\<rparr>)(3 \<mapsto> (Closed, [])),
       sy_trace := sy_trace \<lparr>sy_sv = demo_sv, sy_conns = [3 \<mapsto> (WaitHello, [])], sy_trace = []\<rparr> @ map (Pair 3) []\<rparr>)"
  by (rule handle_refines_system [of demo_salt demo_nonce _ _ _ _ 0 "(0, 0)" "[]"]) (simp_all add: demo_types handle_def)

text \<open>
  C6: A password swap only affects new authentications: on a connection that is not between
  its challenge and the check of its proof, every step does the same, and has the same
  effects, under the old password and under the new one.
\<close>

theorem password_swap:
  assumes "pending p = None"
  shows "handle_step kdf ip p inp (SetPassword pw sv) =
     map_option (\<lambda>(p', sv', evs). (p', SetPassword pw sv', evs)) (handle_step kdf ip p inp sv)"
  by (rule handle_step_swap) (rule assms)

theorem password_swap_witness:
  "handle_step demo_kdf [] (Serving None) Eof (SetPassword ''new'' demo_sv) =
     map_option (\<lambda>(p', sv', evs). (p', SetPassword ''new'' sv', evs)) (handle_step demo_kdf [] (Serving None) Eof demo_sv)"
  by (rule password_swap) simp

text \<open>
  C7: \<open>Snapshot\<close> does not depend on the iteration order of the map, nor on which sort is behind
  \<open>sort.Slice\<close>: it holds every online client exactly once, by the instant it connected and, where the clock was too coarse
  to tell, by the order in which they registered; a registry that lists the same entries in any other order has
  the same snapshot; and so has every list of these clients in which none stands behind one it is less than.
\<close>

theorem snapshot_deterministic:
  assumes "reg_inv r" and "mset (rg_clients r') = mset (rg_clients r)"
  shows "Snapshot r' = Snapshot r \<and> mset (Snapshot r) = mset (map snd (rg_clients r)) \<and> distinct (Snapshot r) \<and>
    sorted_wrt (\<lambda>a b. cl_Since a < cl_Since b \<or> cl_Since a = cl_Since b \<and> cl_seq a < cl_seq b) (Snapshot r) \<and>
    (\<forall>cs. mset cs = mset (map snd (rg_clients r)) \<and> sorted_wrt (\<lambda>a b. \<not> client_less b a) cs \<longrightarrow> cs = Snapshot r')"
proof -
  have p: "Snapshot r' = Snapshot r" by (rule Snapshot_permuted [OF assms])
  have "distinct (Snapshot r)" using reg_inv_keys [OF assms(1)] by (simp add: distinct_map)
  moreover have "sorted_wrt (\<lambda>a b. cl_Since a < cl_Since b \<or> cl_Since a = cl_Since b \<and> cl_seq a < cl_seq b) (Snapshot r)"
    using Snapshot_sorted [OF assms(1)] by (rule sorted_wrt_mono_rel [rotated]) (simp add: client_less_def split: if_splits)
  ultimately show ?thesis using Snapshot_any_sort [OF assms(1)] by (simp add: p mset_Snapshot)
qed

definition demo_tie :: "(uint64 \<times> client) list" where
  "demo_tie =
    [(2, \<lparr>cl_Name = ''b'', cl_Addr = [], cl_Since = 5, cl_seq = 2\<rparr>), (1, \<lparr>cl_Name = ''a'', cl_Addr = [], cl_Since = 5, cl_seq = 1\<rparr>)]"

theorem snapshot_deterministic_witness:
  "Snapshot (\<lparr>rg_clients = demo_tie, rg_nextID = 2, rg_onChange = None\<rparr> :: unit registry) =
     [\<lparr>cl_Name = ''a'', cl_Addr = [], cl_Since = 5, cl_seq = 1\<rparr>, \<lparr>cl_Name = ''b'', cl_Addr = [], cl_Since = 5, cl_seq = 2\<rparr>] \<and>
   Snapshot (\<lparr>rg_clients = rev demo_tie, rg_nextID = 2, rg_onChange = None\<rparr> :: unit registry) =
     Snapshot (\<lparr>rg_clients = demo_tie, rg_nextID = 2, rg_onChange = None\<rparr> :: unit registry)"
proof -
  let ?r = "\<lambda>l. \<lparr>rg_clients = l, rg_nextID = 2, rg_onChange = None\<rparr> :: unit registry"
  have "reg_inv (?r demo_tie)" "mset (rg_clients (?r (rev demo_tie))) = mset (rg_clients (?r demo_tie))"
    by (simp_all add: reg_inv_def demo_tie_def)
  from snapshot_deterministic [OF this] have "Snapshot (?r (rev demo_tie)) = Snapshot (?r demo_tie)" by blast
  moreover have "Snapshot (?r demo_tie) =
     [\<lparr>cl_Name = ''a'', cl_Addr = [], cl_Since = 5, cl_seq = 1\<rparr>, \<lparr>cl_Name = ''b'', cl_Addr = [], cl_Since = 5, cl_seq = 2\<rparr>]"
    by (simp add: Snapshot_def sort_Slice_def client_less_def demo_tie_def)
  ultimately show ?thesis by simp
qed

text \<open>
  C8: The server's messages are well typed.  In every reachable state of the system each message
  sent on any connection has one of the five schemas of the protocol, and it is written under a deadline of
  five seconds as one line that a reader parses to the same message in valid UTF-8, of the same schema.
\<close>

theorem server_messages_typed:
  assumes "reachable kdf s" and "(i, Sent j) \<in> set (sy_trace s)"
  shows "typed_msg j \<and>
    (\<exists>line. send now j = [SetWriteDeadline (now + 5 * 10 ^ 9), Write (line @ [newline])] \<and> newline \<notin> set line \<and> parse_json line = Some (Json.clean j) \<and> typed_msg (Json.clean j))"
proof -
  have "server_msg j" using reachable_msgs [OF assms(1)] assms(2) by (auto simp: msgs_inv_def)
  then show ?thesis using server_msg_typed(1) server_msg_wire by blast
qed

theorem server_messages_typed_witness:
  "typed_msg (msg_challenge demo_salt demo_nonce) \<and>
    (\<exists>line. send 7 (msg_challenge demo_salt demo_nonce) = [SetWriteDeadline (7 + 5 * 10 ^ 9), Write (line @ [newline])] \<and> newline \<notin> set line \<and>
       parse_json line = Some (Json.clean (msg_challenge demo_salt demo_nonce)) \<and> typed_msg (Json.clean (msg_challenge demo_salt demo_nonce)))"
  by (rule server_messages_typed [OF demo_reachable, where i = 0]) (simp add: demo_sys_def demo_events_def)

section \<open>The service, its agents and the pipe\<close>

text \<open>
  C9: The service path does what the in-process server does.  For any sequence of injector
  calls whose strings are at most 170000 bytes, the agent that reads the bytes
  \<open>pipeInjector\<close> writes drives SendInput with exactly the batches the injector would have
  produced in the server's own process, in the same order and from the same state.
\<close>

theorem service_path_same_input:
  assumes "\<forall>c \<in> set cs. call_strings c \<le> 170000"
  shows "inject_all win_inject w (zip es (runAgentLoop (pipe_bytes cs))) =
    inject_all win_inject w (zip es (filter (\<lambda>c. c \<noteq> CloseInj) cs))"
proof -
  have "runAgentLoop (pipe_bytes cs) = map norm_call (filter (\<lambda>c. c \<noteq> CloseInj) cs)"
    by (rule runAgentLoop_pipe) (use assms call_short_strings in blast)
  then show ?thesis by (simp only: win.inject_all_zip_norm)
qed

theorem service_path_same_input_witness:
  "inject_all win_inject newInjector (zip [demo_env, demo_env] (runAgentLoop (pipe_bytes [MoveRel 3 4, Text ''hi'']))) =
    inject_all win_inject newInjector (zip [demo_env, demo_env] (filter (\<lambda>c. c \<noteq> CloseInj) [MoveRel 3 4, Text ''hi'']))"
  by (rule service_path_same_input) simp

text \<open>
  C10: What write deadlines do to the agents, exactly.  Of each frame the fan-out writes, each connection takes as many bytes
  as it can before the deadline.  The fan-out still gets through, and every agent injects the messages whose frames
  arrived whole on a line that was clean, in order, and nothing else: a frame cut inside its line costs that
  message and the next one, a connection that keeps up loses none, whatever the other connections did.
\<close>

theorem torn_frame_resync:
  assumes "0 < fo_timeout f"
    and "\<forall>c \<in> set (fo_ws f). fst c = [] \<and> length (snd c) = length ms \<and> lines_fit 0 (zip ms (snd c))"
  shows "(\<exists>f'. fan_out_all f ms = Some f' \<and>
      map (\<lambda>c. runAgentLoop (fst c)) (fo_ws f') =
      map (\<lambda>c. concat (map (\<lambda>m. map norm_call (applyEvent m)) (received Clean (zip ms (snd c))))) (fo_ws f)) \<and>
    received Clean (whole ms) = ms \<and>
    (\<forall>pre m n m' post. 0 < n \<and> n < length (in_line m) \<longrightarrow> received Clean (whole pre @ (m, n) # whole (m' # post)) = pre @ post)"
proof (intro conjI allI impI)
  show "\<exists>f'. fan_out_all f ms = Some f' \<and>
      map (\<lambda>c. runAgentLoop (fst c)) (fo_ws f') =
      map (\<lambda>c. concat (map (\<lambda>m. map norm_call (applyEvent m)) (received Clean (zip ms (snd c))))) (fo_ws f)"
    by (rule fan_out_received) (use assms in auto)
  show "received Clean (whole ms) = ms" using received_whole [of ms "[]"] by simp
qed (auto intro: received_cut)

theorem torn_frame_resync_witness:
  "\<exists>f'. fan_out_all \<lparr>fo_ws = [([], [100000, 100000]), ([], [2, 100000])], fo_timeout = 2\<rparr> [demo_move, demo_hello] = Some f' \<and>
    map (\<lambda>c. runAgentLoop (fst c)) (fo_ws f') = [map norm_call (applyEvent demo_move @ applyEvent demo_hello), []]"
proof -
  have short: "length (in_line demo_move) < 100000" "length (in_line demo_hello) < 100000"
    using in_line_length [of demo_move] in_line_length [of demo_hello]
    by (simp_all add: string_size_def demo_move_def demo_hello_def zero_in_def)
  have long: "2 < length (in_line demo_move)" using in_line_head [of demo_move] by auto
  define f :: "slow_conn fanoutWriter" where "f = \<lparr>fo_ws = [([], [100000, 100000]), ([], [2, 100000])], fo_timeout = 2\<rparr>"
  have "\<forall>c \<in> set (fo_ws f). fst c = [] \<and> length (snd c) = length [demo_move, demo_hello] \<and> lines_fit 0 (zip [demo_move, demo_hello] (snd c))"
    using short long by (auto simp: f_def max_token_def)
  from torn_frame_resync [OF _ this] short long show ?thesis by (simp add: f_def)
qed

text \<open>
  C11: A text the server accepts can end the agent.  For any number of less-than signs between
  174763 and 1048000, the phone's line is within the server's limit and is read as that text;
  the agent then gets the calls before it and nothing behind it, however much the service
  still writes.
\<close>

theorem text_growth_ends_agent:
  assumes "174763 \<le> n" and "n \<le> 1048000" and "\<forall>c \<in> set cs. call_short c"
  shows "read_frames (raw_text_line n @ newline # rest) =
      (zero_in\<lparr>m_T := ''text'', m_S := replicate n (CHR ''<'')\<rparr>, True) # read_frames rest \<and>
    applyEvent (zero_in\<lparr>m_T := ''text'', m_S := replicate n (CHR ''<'')\<rparr>) = [lt_text n] \<and>
    runAgentLoop (pipe_bytes (cs @ lt_text n # cs')) = map norm_call (filter (\<lambda>c. c \<noteq> CloseInj) cs)"
proof (intro conjI)
  show "applyEvent (zero_in\<lparr>m_T := ''text'', m_S := replicate n (CHR ''<'')\<rparr>) = [lt_text n]"
    by (simp add: applyEvent_def lt_text_def)
  show "runAgentLoop (pipe_bytes (cs @ lt_text n # cs')) = map norm_call (filter (\<lambda>c. c \<noteq> CloseInj) cs)"
    by (rule runAgentLoop_pipe_stop [OF assms(3) lt_text_too_long [OF assms(1)]])
qed (rule server_reads_lt [OF assms(2)])

theorem text_growth_ends_agent_witness:
  "read_frames (raw_text_line 200000 @ newline # []) =
      (zero_in\<lparr>m_T := ''text'', m_S := replicate 200000 (CHR ''<'')\<rparr>, True) # read_frames [] \<and>
    applyEvent (zero_in\<lparr>m_T := ''text'', m_S := replicate 200000 (CHR ''<'')\<rparr>) = [lt_text 200000] \<and>
    runAgentLoop (pipe_bytes ([CloseInj] @ lt_text 200000 # [MoveRel 1 1])) = map norm_call (filter (\<lambda>c. c \<noteq> CloseInj) [CloseInj])"
  by (rule text_growth_ends_agent) (simp_all add: call_short_def)

text \<open>
  C12: One hung agent cannot wedge injection for the others.  When a write under a deadline
  comes back, a fan-out with a positive timeout comes back too, has written the same bytes to
  every target under a deadline of its own, and reports all bytes written whatever happened.
\<close>

theorem fanout_reaches_all:
  assumes "0 < fo_timeout f" and "\<forall>w \<in> set (fo_ws f). conn_write (set_deadline w) b \<noteq> None"
  shows "fanoutWrite set_deadline conn_write f b =
    Some (f\<lparr>fo_ws := map (\<lambda>w. the (conn_write (set_deadline w) b)) (fo_ws f)\<rparr>, length b)"
  using assms fanout_loop_each [of "fo_ws f" conn_write set_deadline b] by (simp add: fanoutWrite_def)

theorem fanout_reaches_all_witness:
  "fanoutWrite demo_deadline demo_write \<lparr>fo_ws = [(''full'', False), ([], False)], fo_timeout = 2\<rparr> ''ev'' =
    Some (\<lparr>fo_ws = [(''full'', False), ([], False)], fo_timeout = 2\<rparr>\<lparr>fo_ws :=
      map (\<lambda>w. the (demo_write (demo_deadline w) ''ev'')) (fo_ws \<lparr>fo_ws = [(''full'', False), ([], False)], fo_timeout = 2\<rparr>)\<rparr>, length ''ev'')"
  by (rule fanout_reaches_all [of "\<lparr>fo_ws = [(''full'', False), ([], False)], fo_timeout = 2\<rparr>" demo_write demo_deadline])
    (auto simp: demo_write_def demo_deadline_def)

text \<open>Two ticks on a locked session: on the first no agent connects in time, on the second each does.\<close>

definition slow_tick :: tick where
  "slow_tick = \<lparr>tk_late = [], tk_sess = 1, tk_query = (1, write_int32 0 16), tk_died = [],
     tk_env = (\<lambda>_. \<lparr>se_token = True, se_spawn = True, se_accepts = []\<rparr>)\<rparr>"

definition good_tick :: tick where
  "good_tick = slow_tick\<lparr>tk_env := (\<lambda>_. \<lparr>se_token = True, se_spawn = True, se_accepts = [Connected]\<rparr>)\<rparr>"

text \<open>
  C13: Over any ticks, session changes, crashes and failed spawns, the monitor's table and
  the machine agree: every process started and not terminated is the process of exactly one
  agent in the table, every agent has an open connection of its own, the pipe injector's
  fan-out goes exactly to the connections of the agents in the table, and once the service is
  stopped no agent process is left.
\<close>

theorem monitor_accounts:
  "mon_inv (run_monitor ts stopped mon_init) \<and> writer_ok (run_monitor ts stopped mon_init) \<and>
    set (mo_procs (run_monitor ts True mon_init)) = {}"
  using run_monitor_inv [of ts stopped] killAll_all(1) [of "fold do_tick ts mon_init"] fold_tick_inv [of mon_init ts] mon_inv_init
  by (simp add: run_monitor_def Let_def)

text \<open>
  C14: One tick is enough: when the lock state is known and the spawns that are needed
  succeed, the desktops with an agent after the tick are exactly the desired ones - Default
  alone when unlocked, Default and Winlogon when locked - whatever ran before.  A second tick that finds the
  same session, the same lock state and every agent alive changes nothing.
\<close>

theorem tick_reaches_desired:
  assumes "mon_inv m" and "writer_ok m" and "sessionLockState sess query = Some flags" and "mo_stale m = 0"
    and "want = (if flags = 0 then {''Default'', ''Winlogon''} else {''Default''})" and "\<forall>d \<in> want. spawn_ok (env d)"
  shows "dom (table (reconcile sess query died env m)) = want \<and>
    reconcile sess query {} env' (reconcile sess query died env m) = reconcile sess query died env m"
proof -
  have w: "set (desiredDesktops flags) = want" by (simp add: assms(5) set_desiredDesktops)
  have D: "dom (table (reconcile sess query died env m)) = set (desiredDesktops flags)"
    using reconcile_desired [OF assms(1-4)] assms(6) by (simp add: w)
  moreover have "reconcile sess query {} env' (reconcile sess query died env m) = reconcile sess query died env m"
    by (rule reconcile_steady [OF conjunct1 [OF reconcile_inv [OF assms(1,2)]] assms(3) reconcile_session [OF assms(1-3), symmetric] D]) simp
  ultimately show ?thesis by (simp add: w)
qed

theorem tick_reaches_desired_witness:
  "dom (table (do_tick good_tick mon_init)) = {''Default'', ''Winlogon''} \<and>
    do_tick good_tick (do_tick good_tick mon_init) = do_tick good_tick mon_init"
  using tick_reaches_desired [of mon_init 1 "(1, write_int32 0 16)" 0 "{''Default'', ''Winlogon''}" "tk_env good_tick" "{}" "tk_env good_tick"] mon_inv_init
  by (simp add: do_tick_def good_tick_def slow_tick_def spawn_ok_def sessionLockState_reply wtsNoSession_def, simp add: mon_init_def)

text \<open>
  C15: An \<open>Accept\<close> that was given up on starves the monitor.  Once one spawned agent did not
  connect in time, no later tick adds an agent to the table, although its process starts
  and connects: the connection goes to the \<open>Accept\<close> nobody listens to any more, and the one called for it is given up on
  in turn.  This goes on, over any ticks, for as long as no \<open>Accept\<close> ends but with the connection, or the failure, of an
  agent just started.  It is over once a late agent, a stranger or an error of the listener has ended each that was given
  up on: the next tick then binds the desired agents.
\<close>

theorem timed_out_accept_starves:
  assumes "m = fold do_tick ts mon_init" and "m' = fold do_tick ts' m" and "0 < mo_stale m"
    and "\<forall>t \<in> set ts'. tk_late t = [] \<and> (\<forall>d. length (se_accepts (tk_env t d)) \<le> 1)"
  shows "dom (table m') \<subseteq> dom (table m) \<and> mo_stale m \<le> mo_stale m' \<and>
    (\<forall>t flags. mo_stale m' \<le> length (tk_late t) \<and> sessionLockState (tk_sess t) (tk_query t) = Some flags \<and> (\<forall>d. spawn_ok (tk_env t d)) \<longrightarrow>
      dom (table (do_tick t m')) = (if flags = 0 then {''Default'', ''Winlogon''} else {''Default''}) \<and> mo_stale (do_tick t m') = 0)"
proof -
  have I: "mon_inv m" "writer_ok m" using fold_tick_inv [of mon_init ts] mon_inv_init assms(1) by simp_all
  then have I': "mon_inv m'" "writer_ok m'" using fold_tick_inv [OF I, of ts'] assms(2) by simp_all
  have "\<forall>t \<in> set ts'. own_connections t" using assms(4) by (simp add: own_connections_def own_accepts_def)
  from fold_tick_starved [OF I assms(3) this] do_tick_desired [OF I'] show ?thesis
    by (simp add: assms(2) set_desiredDesktops)
qed

theorem timed_out_accept_starves_witness:
  "0 < mo_stale (fold do_tick [slow_tick] mon_init) \<and>
    dom (table (fold do_tick [good_tick, good_tick] (fold do_tick [slow_tick] mon_init))) \<subseteq> dom (table (fold do_tick [slow_tick] mon_init)) \<and>
    dom (table (do_tick (good_tick\<lparr>tk_late := replicate 9 AcceptFailed\<rparr>) (fold do_tick [good_tick] (fold do_tick [slow_tick] mon_init)))) =
      {''Default'', ''Winlogon''}"
proof -
  have s: "mo_stale (fold do_tick [slow_tick] mon_init) = 2"
    by (simp add: do_tick_def slow_tick_def reconcile_def sessionLockState_reply wtsNoSession_def mon_init_def desiredDesktops_def
      desktopForFlags_def wtsStateLock_def Let_def planAgents_def killAll_def spawnOne_def end_proc_def rebindWriters_def List.map_filter_def)
  have g: "tk_late good_tick = [] \<and> (\<forall>d. length (se_accepts (tk_env good_tick d)) \<le> 1)"
    by (simp add: good_tick_def slow_tick_def)
  have "mo_stale (fold do_tick [good_tick] (fold do_tick [slow_tick] mon_init)) \<le> 9"
    by (simp add: do_tick_def good_tick_def slow_tick_def reconcile_def sessionLockState_reply wtsNoSession_def mon_init_def desiredDesktops_def
      desktopForFlags_def wtsStateLock_def Let_def planAgents_def killAll_def spawnOne_def late_accept_def end_proc_def rebindWriters_def List.map_filter_def)
  moreover have "sessionLockState (tk_sess good_tick) (tk_query good_tick) = Some 0" "spawn_ok (tk_env good_tick d)" for d
    by (simp_all add: good_tick_def slow_tick_def sessionLockState_reply wtsNoSession_def spawn_ok_def)
  ultimately show ?thesis
    using s g timed_out_accept_starves [OF refl refl, of "[slow_tick]" "[good_tick, good_tick]"]
      timed_out_accept_starves [OF refl refl, of "[slow_tick]" "[good_tick]"]
    by simp
qed

section \<open>The standalone controller\<close>

text \<open>
  C16: Over any starts, stops and reconfigurations in which no rebind finds both the new and
  the old port taken, the controller and the network agree: while it runs there is exactly one
  listener, on the configured port, at most one announcement, of the configured name and
  port, and the server has the configured password and name; while it is stopped nothing is
  open and nothing announced.
\<close>

theorem controller_consistent:
  assumes "no_double_failure ops (newServingController cfg, net_init)"
  shows "ctl_inv (fold ctl_step ops (newServingController cfg, net_init)) \<and>
    clean (fold ctl_step ops (newServingController cfg, net_init))"
  using ctl_run_inv [OF _ _ assms] ctl_inv_new by blast

definition demo_cfg :: serverConfig where
  "demo_cfg = \<lparr>sc_Password = ''pw'', sc_Port = 27500, sc_Name = ''pc''\<rparr>"

theorem controller_consistent_witness:
  "ctl_inv (fold ctl_step [OpStart [27500] True, OpApply [27501] True (demo_cfg\<lparr>sc_Port := 27501\<rparr>), OpStop] (newServingController demo_cfg, net_init)) \<and>
    clean (fold ctl_step [OpStart [27500] True, OpApply [27501] True (demo_cfg\<lparr>sc_Port := 27501\<rparr>), OpStop] (newServingController demo_cfg, net_init))"
  by (rule controller_consistent) (simp add: both_fail_def)

text \<open>
  C17: A reconfiguration keeps serving.  \<open>Apply\<close> on a running controller whose new port can be had, or is the
  old one, serves the new configuration, on the listener it has if the port is the same.  When only the new port is taken it
  serves on the old port, on a listener of its own, under the old name, still announced, with the new password, and says so in its
  configuration.  Only when both binds fail does it stop, with no listener left.
\<close>

theorem apply_keeps_serving:
  assumes "ctl_inv (c, o')" and "ct_running c"
  shows "(\<not> needsRebind (ct_cfg c) nc \<or> can (sc_Port nc) \<longrightarrow> serves (Apply can ok nc (c, o')) nc) \<and>
    (\<not> needsRebind (ct_cfg c) nc \<longrightarrow> listeners (snd (Apply can ok nc (c, o'))) = listeners o') \<and>
    (needsRebind (ct_cfg c) nc \<and> \<not> can (sc_Port nc) \<and> can (sc_Port (ct_cfg c)) \<longrightarrow>
      serves (Apply can ok nc (c, o')) (nc\<lparr>sc_Port := sc_Port (ct_cfg c), sc_Name := sc_Name (ct_cfg c)\<rparr>) \<and>
      anns (snd (Apply can ok nc (c, o'))) = anns o') \<and>
    (needsRebind (ct_cfg c) nc \<and> \<not> can (sc_Port nc) \<and> \<not> can (sc_Port (ct_cfg c)) \<longrightarrow>
      \<not> ct_running (fst (Apply can ok nc (c, o'))) \<and> ct_ln (fst (Apply can ok nc (c, o'))) = None \<and>
      listeners (snd (Apply can ok nc (c, o'))) = Map.empty)"
proof -
  let ?s = "Apply can ok nc (c, o')"
  have inv: "ctl_inv ?s" by (rule Apply_inv(1) [OF assms(1)])
  have run: "ct_running (fst ?s) \<longleftrightarrow> \<not> both_fail can nc c" using Apply_inv(3) [OF assms(1)] assms(2) by simp
  have "serves ?s nc" if "needsRebind (ct_cfg c) nc \<longrightarrow> can (sc_Port nc)"
    using serves_inv [OF inv] run Apply_taken [OF assms, of nc can ok] that by (simp add: both_fail_def)
  moreover have "serves ?s (nc\<lparr>sc_Port := sc_Port (ct_cfg c), sc_Name := sc_Name (ct_cfg c)\<rparr>) \<and> anns (snd ?s) = anns o'"
    if "needsRebind (ct_cfg c) nc" "\<not> can (sc_Port nc)" "can (sc_Port (ct_cfg c))"
    using serves_inv [OF inv] run Apply_rollback [OF assms that] that by (simp add: both_fail_def)
  moreover have "\<not> ct_running (fst ?s) \<longrightarrow> ct_ln (fst ?s) = None \<and> listeners (snd ?s) = Map.empty"
    using inv by (cases ?s) (simp add: ctl_inv_def)
  moreover have "listeners (snd ?s) = listeners o'" if "\<not> needsRebind (ct_cfg c) nc"
    using Apply_taken [OF assms, of nc can ok] that by blast
  ultimately show ?thesis using run assms(2) by (auto simp: both_fail_def)
qed

definition demo_ctl :: "servingController \<times> netos" where
  "demo_ctl = (\<lparr>ct_cfg = demo_cfg, ct_srv = Some (''pw'', ''pc''), ct_ln = Some 0, ct_zc = Some 1, ct_running = True\<rparr>,
     \<lparr>no_next = 2, no_listeners = [(0, 27500)], no_anns = [(1, ''pc'', 27500)]\<rparr>)"

lemma demo_ctl_inv: "ctl_inv (fst demo_ctl, snd demo_ctl)"
  by (simp add: demo_ctl_def ctl_inv_def demo_cfg_def net_defs)

theorem apply_keeps_serving_witness:
  "serves (Apply (\<lambda>p. p = 27500) True (demo_cfg\<lparr>sc_Port := 80, sc_Password := ''new''\<rparr>) demo_ctl) (demo_cfg\<lparr>sc_Password := ''new''\<rparr>) \<and>
    anns (snd (Apply (\<lambda>p. p = 27500) True (demo_cfg\<lparr>sc_Port := 80, sc_Password := ''new''\<rparr>) demo_ctl)) 1 = Some (''pc'', 27500)"
  using apply_keeps_serving [OF demo_ctl_inv, of "demo_cfg\<lparr>sc_Port := 80, sc_Password := ''new''\<rparr>" "\<lambda>p. p = 27500" True]
  by (simp add: demo_ctl_def demo_cfg_def needsRebind_def anns_def)

text \<open>
  C18: The stopped state after two failed binds is not clean.  The controller stops, but its
  announcement stays; stopping it again changes nothing, and the next successful start
  forgets the old announcement, which then stays on the network for good beside the new one.
\<close>

theorem double_failure_leaks_announcement:
  assumes "ctl_inv (c, o')" and "both_fail can nc c" and "ct_zc c = Some z"
  shows "let (c1, o1) = Apply can ok nc (c, o'); ((c2, o2), r) = Start can2 True (c1, o1) in
    \<not> ct_running c1 \<and> anns o1 z \<noteq> None \<and> Stop (c1, o1) = (c1, o1) \<and>
    (r \<longrightarrow> ct_zc c2 \<noteq> Some z \<and> anns o2 z \<noteq> None \<and> anns (snd (Stop (c2, o2))) z \<noteq> None)"
proof -
  obtain c1 o1 where A: "Apply can ok nc (c, o') = (c1, o1)" by fastforce
  obtain c2 o2 r where S: "Start can2 True (c1, o1) = ((c2, o2), r)" by (metis prod.exhaust)
  note B = Apply_both_fail [OF assms, of ok, unfolded A fst_conv snd_conv]
  have I: "ctl_inv (c1, o1)" using Apply_inv(1) [OF assms(1), of can ok nc] by (simp add: A)
  have "r \<longrightarrow> ct_zc c2 \<noteq> Some z \<and> anns o2 z \<noteq> None \<and> anns (snd (Stop (c2, o2))) z \<noteq> None"
    using Start_orphan [OF I B(3) S, of z] B(1) by simp
  with A S B show ?thesis by (simp add: Stop_def)
qed

theorem double_failure_leaks_announcement_witness:
  "let (c1, o1) = Apply (\<lambda>p. False) True (demo_cfg\<lparr>sc_Port := 80\<rparr>) (fst demo_ctl, snd demo_ctl);
       ((c2, o2), r) = Start (\<lambda>p. True) True (c1, o1) in
    \<not> ct_running c1 \<and> r \<and> ct_zc c2 \<noteq> Some 1 \<and> anns (snd (Stop (c2, o2))) 1 \<noteq> None"
proof -
  have b: "both_fail (\<lambda>p. False) (demo_cfg\<lparr>sc_Port := 80\<rparr>) (fst demo_ctl)"
    by (simp add: demo_ctl_def demo_cfg_def needsRebind_def both_fail_def)
  have z: "ct_zc (fst demo_ctl) = Some 1" by (simp add: demo_ctl_def)
  obtain c1 o1 where A: "Apply (\<lambda>p. False) True (demo_cfg\<lparr>sc_Port := 80\<rparr>) (fst demo_ctl, snd demo_ctl) = (c1, o1)" by fastforce
  obtain c2 o2 r where S: "Start (\<lambda>p. True) True (c1, o1) = ((c2, o2), r)" by (metis prod.exhaust)
  note T = double_failure_leaks_announcement [OF demo_ctl_inv b z, of True "\<lambda>p. True", unfolded A S Let_def prod.case]
  have "no_listeners o1 = []"
    using A by (auto simp: Apply_def Let_def needsRebind_def demo_ctl_def demo_cfg_def net_listen_def close_opt_def
      close_listener_def go_delete_def)
  then have r using S by (auto simp: Start_def Let_def net_listen_def split: prod.splits option.splits if_splits)
  with T show ?thesis unfolding A S Let_def prod.case by blast
qed

section \<open>Injection on Windows\<close>

lemma demo_hi: "runes ''hi'' = [104, 105]"
  by code_simp

text \<open>
  C19: Absolute coordinates are always legal.  Whatever calls arrive, with whatever arguments
  and on whatever sane monitor layouts, every mouse event with MOUSEEVENTF_ABSOLUTE that
  reaches SendInput has both coordinates within 0 to 65535.
\<close>

theorem absolute_coordinates_legal:
  assumes "\<forall>(e, c) \<in> set ecs. screen_ok e"
  shows "all_legal (snd (inject_all win_inject w ecs))"
  unfolding all_legal_iff
  by (rule win_inject_all_legal [of ecs w "fst (inject_all win_inject w ecs)"]) (use assms in auto)

theorem absolute_coordinates_legal_witness:
  "all_legal (snd (inject_all win_inject newSecureInjector [(demo_env, MoveRel 5 5), (demo_env, MoveAbs 70000 3)]))"
  by (rule absolute_coordinates_legal) (simp add: demo_screen)

text \<open>
  C20: Pointer arithmetic, exactly.  A move of the secure injector takes the pointer from where it is - tracked,
  or asked for when nothing is tracked yet - by the delta, wrapped to 32 bits, and stops at the edges of the virtual
  screen; the event sent carries that position scaled to 0..65535 on each axis.  \<open>MoveAbs\<close> wraps its
  coordinates too before it clamps them.  What fits in 32 bits is not changed by wrapping; from \<open>2^31\<close> on the
  pointer goes to the other edge.
\<close>

theorem tracked_pointer_exact:
  assumes "virtualScreen e = (ox, oy, cw, ch)" and "axis_ok ox cw" and "axis_ok oy ch" and "start_pointer e w = (x, y)"
    and "x' = max (sint ox) (min (wrap32 (sint x + sint dx)) (sint ox + sint cw - 1))"
    and "y' = max (sint oy) (min (wrap32 (sint y + sint dy)) (sint oy + sint ch - 1))"
  shows "(\<exists>w' m. absMove e w dx dy = (w', MouseIn m) \<and> start_pointer e' w' = (wi_x w', wi_y w') \<and>
      sint (wi_x w') = x' \<and> sint (wi_y w') = y' \<and>
      sint (mi_dx m) = (x' - sint ox) * 65535 div max (sint cw - 1) 1 \<and> sint (mi_dy m) = (y' - sint oy) * 65535 div max (sint ch - 1) 1) \<and>
    (\<exists>m. win_MoveAbs dx dy = [[MouseIn m]] \<and>
      sint (mi_dx m) = max 0 (min (wrap32 (sint dx)) 65535) \<and> sint (mi_dy m) = max 0 (min (wrap32 (sint dy)) 65535)) \<and>
    (\<forall>i. (fits32 i \<longrightarrow> wrap32 i = i) \<and> (2 ^ 31 \<le> i \<and> i < 2 ^ 32 \<longrightarrow> wrap32 i < 0))"
proof -
  note M = absMove_exact [OF assms(1-4), unfolded axis_pos_def axis_coord_def, OF assms(5,6)]
  have "wrap32 i < 0" if "2 ^ 31 \<le> i" "i < 2 ^ 32" for i
    using wrap32_above [OF that] that by simp
  then have "\<forall>i. (fits32 i \<longrightarrow> wrap32 i = i) \<and> (2 ^ 31 \<le> i \<and> i < 2 ^ 32 \<longrightarrow> wrap32 i < 0)" using wrap32_fits by blast
  moreover have "\<exists>m. win_MoveAbs dx dy = [[MouseIn m]] \<and>
      sint (mi_dx m) = max 0 (min (wrap32 (sint dx)) 65535) \<and> sint (mi_dy m) = max 0 (min (wrap32 (sint dy)) 65535)"
    by (simp add: win_MoveAbs_coord abs_coord_exact)
  ultimately show ?thesis using M by blast
qed

theorem tracked_pointer_exact_witness:
  "\<exists>w' m. absMove demo_env demo_pointer 0x7FFFFFFF (- 7) = (w', MouseIn m) \<and> sint (wi_x w') = 0 \<and> sint (wi_y w') = 93 \<and> sint (mi_dx m) = 0"
proof -
  have "start_pointer demo_env demo_pointer = (100, 100)" by (simp add: start_pointer_def demo_pointer_def)
  from tracked_pointer_exact [OF demo_screen(1,3,4) this, of 0 "0x7FFFFFFF" 93 "- 7"]
  show ?thesis by (force simp: wrap32_def)
qed

text \<open>
  C21: Text arrives as typed.  On Windows the events of \<open>Text\<close> are key strokes, each character pressed and
  released before the next one; their units, read as UTF-16, are the runes of the string, surrogate pairs included, and
  afterwards nothing is down that was not down before, and of what was down only the characters typed are up.
  On macOS the units are the same, and a text of less than \<open>2^31\<close> of them is posted as one press and one release.
\<close>

theorem text_arrives:
  "(\<exists>us. strokes (concat (win_Text s)) = Some us \<and> utf16_read us = runes s \<and>
      held (concat (win_Text s)) K = K - UnicodeUnit ` set us) \<and>
    utf16_read (mac_units s) = runes s \<and>
    (runes s \<noteq> [] \<and> length (mac_units s) < 2 ^ 31 \<longrightarrow>
      map (c_post fma b p) (mac_Text s) = [[UnicodeKey True (mac_units s), UnicodeKey False (mac_units s)]])"
proof -
  have r: "utf16_read (concat (map utf16Units (runes s))) = runes s" by (rule utf16_read_runes)
  have "mac_units s \<noteq> []" if "runes s \<noteq> []" using that r by (metis mac_units_eq utf16_read.simps(1))
  with mac_Text_posts [of s fma b p] show ?thesis
    by (simp add: win_Text_strokes win_Text_held r mac_units_eq)
qed

theorem text_arrives_witness:
  "held (concat (win_Text ''hi'')) {VirtualKey 0x10} = {VirtualKey 0x10} \<and>
    map (c_post True \<lparr>rc_x = 0, rc_y = 0, rc_width = 1440, rc_height = 900\<rparr> (3, 4)) (mac_Text ''hi'') =
      [[UnicodeKey True (mac_units ''hi''), UnicodeKey False (mac_units ''hi'')]]"
proof -
  have "runes ''hi'' \<noteq> []" "length (mac_units ''hi'') < 2 ^ 31" by (simp_all add: mac_units_eq demo_hi utf16Units_def)
  with text_arrives [of "''hi''" "{VirtualKey 0x10}" True "\<lparr>rc_x = 0, rc_y = 0, rc_width = 1440, rc_height = 900\<rparr>" "(3, 4)"]
  show ?thesis by auto
qed

text \<open>
  C22: A chord: pressing a mapped key with modifiers leaves exactly the key and the modifiers
  down besides what was down before; releasing it restores the keyboard.
\<close>

theorem chord_restores_keyboard:
  assumes "sint c \<in> protocol_codes" and "VirtualKey (vkFor c) \<notin> K" and "K \<inter> mods_of m = {}"
  shows "held (concat (win_Key c m True)) K = insert (VirtualKey (vkFor c)) (K \<union> mods_of m) \<and>
    held (concat (win_Key c m False)) (held (concat (win_Key c m True)) K) = K"
proof -
  have "vkFor c \<noteq> 0" using assms(1) vkFor_zero_iff by blast
  with assms(2,3) show ?thesis by (intro conjI win_Key_down win_Key_chord)
qed

theorem chord_restores_keyboard_witness:
  "held (concat (win_Key 67 1 True)) {UnicodeUnit 67} = insert (VirtualKey (vkFor 67)) ({UnicodeUnit 67} \<union> mods_of 1) \<and>
    held (concat (win_Key 67 1 False)) (held (concat (win_Key 67 1 True)) {UnicodeUnit 67}) = {UnicodeUnit 67}"
  by (rule chord_restores_keyboard) (simp_all add: protocol_codes_def mods_of_def)

text \<open>
  C23: The key tables.  On Windows a code has a virtual key exactly when the protocol documents it, no
  two codes share one, and none is a modifier's; macOS maps exactly A, C, V, X and Z of the letters,
  the function, arrow, editing and navigation keys, and drops the other letters, the digits and the
  media keys, which the protocol documents.
\<close>

theorem key_tables_exact:
  "(vkFor c \<noteq> 0 \<longleftrightarrow> sint c \<in> protocol_codes) \<and> (vkFor c = vkFor d \<and> vkFor c \<noteq> 0 \<longrightarrow> c = d) \<and> vkFor c \<notin> set mod_vks \<and>
   (mac_Key c m down \<noteq> [] \<longleftrightarrow> sint c \<in> mac_codes) \<and> mac_codes \<subset> protocol_codes \<and> {48..57} \<union> {200..205} \<subseteq> protocol_codes - mac_codes"
proof -
  have "mac_codes \<subseteq> protocol_codes" by (auto simp: mac_codes_def protocol_codes_def)
  moreover have "{48..57} \<union> {200..205} \<subseteq> protocol_codes - mac_codes" by (auto simp: mac_codes_def protocol_codes_def)
  ultimately have "(mac_Key c m down \<noteq> [] \<longleftrightarrow> sint c \<in> mac_codes) \<and> mac_codes \<subset> protocol_codes \<and> {48..57} \<union> {200..205} \<subseteq> protocol_codes - mac_codes"
    using macKey_neg_iff [of c] by (auto simp: mac_Key_def Let_def)
  then show ?thesis using vkFor_zero_iff vkFor_inject vkFor_not_mod by blast
qed

theorem key_tables_exact_witness: "vkFor 67 \<noteq> 0 \<and> vkFor 67 \<noteq> vkFor 65 \<and> vkFor 67 \<notin> set mod_vks \<and> mac_Key 67 0 True \<noteq> []"
proof -
  have c: "sint (67 :: goint) \<in> protocol_codes" "sint (67 :: goint) \<in> mac_codes" by (simp_all add: protocol_codes_def mac_codes_def)
  have "(67 :: goint) \<noteq> 65" by simp
  with c show ?thesis using key_tables_exact [where c = 67 and d = 65 and m = 0 and down = True] by blast
qed

text \<open>
  C24: On macOS \<open>MoveAbs\<close> lands on the main display: whatever the rounding of the doubles, fused or
  not, a coordinate of 0..65535 gives a point inside the bounds of the display, 0 its
  first edge exactly and 65535 its last.
\<close>

theorem mac_moveabs_on_display:
  assumes "display_ok b" and "0 \<le> sint nx" and "sint nx \<le> 65535" and "0 \<le> sint ny" and "sint ny \<le> 65535"
  shows "\<exists>x y. concat (map (c_post fma b p) (snd (mac_inject () () (MoveAbs nx ny)))) = [MouseEvent MouseMoved (x, y) ButtonLeft] \<and>
    rc_x b \<le> x \<and> x \<le> rc_x b + rc_width b \<and> rc_y b \<le> y \<and> y \<le> rc_y b + rc_height b \<and>
    (sint nx = 0 \<longrightarrow> x = rc_x b) \<and> (sint nx = 65535 \<longrightarrow> x = rc_x b + rc_width b) \<and>
    (sint ny = 0 \<longrightarrow> y = rc_y b) \<and> (sint ny = 65535 \<longrightarrow> y = rc_y b + rc_height b)"
  by (rule mac_moveabs [OF assms])

theorem mac_moveabs_on_display_witness:
  "\<exists>x y. concat (map (c_post True \<lparr>rc_x = 0, rc_y = 0, rc_width = 1440, rc_height = 900\<rparr> (3, 4)) (snd (mac_inject () () (MoveAbs 0 65535)))) =
      [MouseEvent MouseMoved (x, y) ButtonLeft] \<and> x = 0 \<and> y = 900"
proof -
  have d: "display_ok \<lparr>rc_x = 0, rc_y = 0, rc_width = 1440, rc_height = 900\<rparr>"
    unfolding display_ok_def
    by (rule exI [of _ 0], rule exI [of _ 0], rule exI [of _ 1440], rule exI [of _ 900]) simp
  show ?thesis using mac_moveabs_on_display [OF d, of 0 65535 True "(3, 4)"] by fastforce
qed

section \<open>Configuration, command lines and administration\<close>

text \<open>
  C25: What the user saves in the panel is what the service serves.  When the service is
  installed and the elevated child that ``save and apply'' starts ends without an error, a
  service that starts afterwards has the password typed, listens on the port typed and
  announces the trimmed name - its own default if that is empty; and if the service was
  running it has been started anew.
\<close>

theorem saved_config_served:
  assumes "readConn (fl_port f) (fl_pass f) = Some (port, pass)"
    and "CHR 0x00 \<notin> set (fl_pass f)" and "CHR 0x00 \<notin> set (fl_name f)"
    and "elevated_child e q host exe (last (pa_children (onApply can ok True er exe f p))) m = Some (Inr (Finished, m'))"
    and "re_open e'" and "listenInjectPipe listen (ac_pipe cfg0) = Some lsn"
  shows "\<exists>c. runServiceCore e' (ma_hklm m') listen ann_ok exe rm cfg0 = Some c \<and>
    sv_password (co_srv c) = fl_pass f \<and> co_port c = port \<and>
    sv_name (co_srv c) = (if TrimSpace (fl_name f) = [] then ac_name cfg0 else TrimSpace (fl_name f)) \<and>
    {ListenTCP port 5000, Announce (sv_name (co_srv c)) port} \<subseteq> set (co_actions c) \<and>
    (serviceRunning q m \<longrightarrow> (\<exists>s. ma_svc m' = Some s \<and> sr_state s = SERVICE_START_PENDING))"
proof -
  define cfg where "cfg = (default_config host)\<lparr>ac_applyConfig := True, ac_pass := pass, ac_port := port, ac_name := TrimSpace (fl_name f)\<rparr>"
  note R = readConn_ok [OF assms(1)]
  have "CHR 0x00 \<notin> set (TrimSpace (fl_name f))" using assms(3) set_TrimSpace by blast
  with assms(4) R assms(2) have A: "applyConfigElevated e q cfg m = Some (Inr (), m')"
    by (auto simp: onApply_child [OF assms(1)] child_apply cfg_def finish_ok)
  note W = applyConfigElevated_ok [OF A]
  have "service_config e' (ma_hklm m') cfg0 =
      cfg0\<lparr>ac_pass := pass, ac_port := port, ac_name := (if TrimSpace (fl_name f) = [] then ac_name cfg0 else TrimSpace (fl_name f))\<rparr>"
    using service_config_written [OF conjunct1 [OF W] assms(5)] R by (simp add: cfg_def)
  with R conjunct2 [OF W] assms(6) show ?thesis by (simp add: runServiceCore_def Let_def)
qed

definition demo_scm :: scm_env where
  "demo_scm = \<lparr>sm_reg = \<lparr>re_open = True, re_set = (\<lambda>_. True)\<rparr>, sm_connect = True, sm_create = True, sm_start = True,
     sm_control = True, sm_delete = True, sm_config = True, sm_update = True, sm_reply = (\<lambda>k. Some (if k < 2 then 3 else 1)),
     sm_now = (\<lambda>k. 300 * int k)\<rparr>"

definition demo_machine :: machine where
  "demo_machine = \<lparr>ma_hklm = None, ma_svc = Some \<lparr>sr_StartType = 2, sr_state = 4, sr_path = ''rm.exe'', sr_args = [''-service'']\<rparr>\<rparr>"

definition demo_query :: query_env where
  "demo_query = \<lparr>qe_scm = True, qe_query = True, qe_config = True\<rparr>"

definition demo_fields :: fields where
  "demo_fields = \<lparr>fl_port = '' 8080'', fl_pass = ''a b'', fl_name = ''my pc ''\<rparr>"

definition demo_panel :: panel where
  "demo_panel = \<lparr>pa_ctl = (newServingController demo_cfg, net_init), pa_run = None, pa_children = []\<rparr>"

lemma demo_trim: "TrimSpace '' 8080'' = ''8080''" "TrimSpace ''my pc '' = ''my pc''"
  by (simp_all add: TrimSpace_def chunks_ascii_Cons is_space_rune_def)

lemma demo_conn: "readConn (fl_port demo_fields) (fl_pass demo_fields) = Some (8080, ''a b'')"
  by (simp add: readConn_def demo_fields_def demo_trim Atoi_def parse_int_def is_digit_def digits_val_def)

lemma demo_applied:
  "elevated_child demo_scm demo_query ''host'' ''rm.exe''
     (last (pa_children (onApply (\<lambda>p. True) True True (sm_reg demo_scm) ''rm.exe'' demo_fields demo_panel))) demo_machine =
   Some (Inr (Finished, \<lparr>ma_hklm = Some [(''Port'', REG_DWORD 8080), (''Name'', REG_SZ ''my pc''), (''Password'', REG_SZ ''a b'')],
     ma_svc = Some \<lparr>sr_StartType = 2, sr_state = 2, sr_path = ''rm.exe'', sr_args = [''-service'']\<rparr>\<rparr>))"
proof -
  have "last (pa_children (onApply (\<lambda>p. True) True True (sm_reg demo_scm) ''rm.exe'' demo_fields demo_panel)) =
      elevatedSelf (apply_args ''a b'' 8080 ''my pc'')"
    using onApply_child [OF demo_conn] demo_trim(2) by (simp add: demo_fields_def)
  then show ?thesis
    by (simp add: child_apply finish_def applyConfigElevated_def writeConfig_def SetStringValue_def set_value_def
        demo_scm_def demo_machine_def serviceRunning_def demo_query_def svc_states restartService_def stopService_def
        svc_Stop_def stop_wait.simps startService_def svc_Start_def start_types Let_def)
qed

theorem saved_config_served_witness:
  "\<exists>c. runServiceCore (sm_reg demo_scm) (Some [(''Port'', REG_DWORD 8080), (''Name'', REG_SZ ''my pc''), (''Password'', REG_SZ ''a b'')])
      (\<lambda>name sddl. Some ()) True ''rm.exe'' [] (default_config ''host'') = Some c \<and>
    sv_password (co_srv c) = ''a b'' \<and> co_port c = 8080 \<and> sv_name (co_srv c) = ''my pc'' \<and>
    Announce ''my pc'' 8080 \<in> set (co_actions c)"
proof -
  have n: "CHR 0x00 \<notin> set (fl_pass demo_fields)" "CHR 0x00 \<notin> set (fl_name demo_fields)" by (simp_all add: demo_fields_def)
  have o: "re_open (sm_reg demo_scm)" by (simp add: demo_scm_def)
  have l: "listenInjectPipe (\<lambda>name sddl. Some ()) (ac_pipe (default_config ''host'')) = Some ()" by (simp add: listenInjectPipe_def)
  from saved_config_served [OF demo_conn n demo_applied o l, where ann_ok = True and rm = "[]"] demo_trim(2)
  show ?thesis unfolding machine.simps by (auto simp: demo_fields_def)
qed

text \<open>
  C26: Quoting is lossless: whatever the arguments are - empty, with blanks, quotes or
  backslashes anywhere - the child that is started with them reads exactly them.
\<close>

theorem command_line_exact: "commandLineToArgv (elevatedArgLine args) = args"
  by (rule argv_elevatedArgLine)

text \<open>
  C27: The autostart entry brings back the configuration it was written with: the process
  Windows starts from it at login runs in the user interface mode, with the password and the
  port it was given, and the name too unless it is blank.
\<close>

theorem autostart_roundtrip:
  "hd (commandLineToArgv (autostartCmd exe pass port name)) = exe \<and>
   (\<exists>cfg. main_config host (tl (commandLineToArgv (autostartCmd exe pass port name))) = Inr cfg \<and>
     mode cfg = ''ui'' \<and> ac_pass cfg = pass \<and> ac_port cfg = port \<and>
     ac_name cfg = (if TrimSpace name = [] then sanitizeName host else name))"
  using autostartCmd_config [of host exe pass port name]
  by (simp add: autostartCmd_argv mode_def default_config_def zero_config_def)

text \<open>
  C28: The agent of a desktop gets what the service meant for it.  When the launch for a
  desktop succeeds, the process is bound to that desktop, its command line makes it an agent that
  connects to the service's pipe, and it injects with the absolute (secure) injector exactly if the desktop
  is not Default.  The path of the executable must not be empty, hold a quote or end in a
  backslash, the pipe name must not be empty or hold a quote or a blank: the service does not
  quote it.
\<close>

theorem spawned_agent_config:
  assumes "launchAgent e exe pipe il sess desk s = (Inr (h, l), s')"
    and "exe \<noteq> []" and "dquote \<notin> set exe" and "last exe \<noteq> backslash"
    and "pipe \<noteq> []" and "dquote \<notin> set pipe" and "\<not> list_ex blank pipe"
  shows "ln_desk l = ''WinSta0'' @ [backslash] @ desk \<and>
    (\<exists>cfg. main_config host (tl (commandLineToArgv (ln_cmd l))) = Inr cfg \<and> mode cfg = ''agent'' \<and> ac_pipe cfg = pipe \<and>
      map_option ag_inj (runAgent (\<lambda>_ name timeout. if name = pipe then Some bytes else None) cfg) = Some (if desk = ''Default'' then newInjector else newSecureInjector))"
proof -
  have "dial_loop (\<lambda>_. dialInjectPipe (\<lambda>name timeout. if name = pipe then Some bytes else None) pipe) 0 20 = Some bytes"
    by (simp add: dialInjectPipe_def numeral_eq_Suc)
  with launchAgent_request [OF assms(1)] agentCmd_config [OF assms(2-7)] agent_config_mode show ?thesis
    by (auto simp: agentDesk_def runAgent_def agent_config_def)
qed

definition demo_launch :: launch_env where
  "demo_launch = \<lparr>le_tokens = \<lparr>te_openToken = True, te_lookup = True, te_adjust = True, te_query = True, te_dup = True, te_openProcess = True\<rparr>,
     le_snapshot = Some [\<lparr>pe_ExeFile = ''Winlogon.EXE'', pe_ProcessID = 7, pe_session = Some 1\<rparr>], le_envBlock = True, le_create = True\<rparr>"

definition demo_handles :: handles where
  "demo_handles = \<lparr>hd_next = 5, hd_open = []\<rparr>"

lemma demo_found: "fold_ascii ''Winlogon.EXE'' = fold_ascii ''winlogon.exe''"
  by code_simp

lemma demo_launched:
  "launchAgent demo_launch ''rm.exe'' ''p'' False 1 ''Winlogon'' demo_handles =
    (Inr (10, \<lparr>ln_token = 8, ln_desk = agentDesk ''Winlogon'', ln_cmd = agentCmd ''rm.exe'' ''p'' True False\<rparr>), \<lparr>hd_next = 12, hd_open = [10]\<rparr>)"
  by (simp add: launchAgent_def demo_launch_def demo_handles_def tokenStrategyFor_def winlogonTokenForSession_def
      findProcessInSession_def demo_found acquire_def release_def duplicatePrimary_def spawnAgentOnDesktop_def Let_def
      agentDesk_def agentCmd_def)

theorem spawned_agent_config_witness:
  "ln_desk \<lparr>ln_token = 8, ln_desk = agentDesk ''Winlogon'', ln_cmd = agentCmd ''rm.exe'' ''p'' True False\<rparr> = ''WinSta0'' @ [backslash] @ ''Winlogon'' \<and>
    (\<exists>cfg. main_config ''host'' (tl (commandLineToArgv (ln_cmd \<lparr>ln_token = 8, ln_desk = agentDesk ''Winlogon'', ln_cmd = agentCmd ''rm.exe'' ''p'' True False\<rparr>))) = Inr cfg \<and>
      mode cfg = ''agent'' \<and> ac_pipe cfg = ''p'' \<and>
      map_option ag_inj (runAgent (\<lambda>_ name timeout. if name = ''p'' then Some [] else None) cfg) = Some (if ''Winlogon'' = ''Default'' then newInjector else newSecureInjector))"
  by (rule spawned_agent_config [OF demo_launched]) (simp_all add: blank_def)

text \<open>
  C29: No launch loses a handle.  Whatever of its Win32 calls fails, the launch of an agent
  leaves open the process it returns, if it returns one, and besides it exactly what was open
  before.
\<close>

theorem launch_loses_no_handle:
  assumes "handles_ok s" and "launchAgent e exe pipe il sess desk s = (r, s')"
  shows "hd_open s' = (case r of Inl _ \<Rightarrow> hd_open s | Inr (h, _) \<Rightarrow> h # hd_open s) \<and> handles_ok s'"
  using launchAgent_balanced [OF assms] by (auto simp: balanced_def split: sum.splits)

theorem launch_loses_no_handle_witness:
  "hd_open \<lparr>hd_next = 12, hd_open = [10]\<rparr> =
    (case Inr (10, \<lparr>ln_token = 8, ln_desk = agentDesk ''Winlogon'', ln_cmd = agentCmd ''rm.exe'' ''p'' True False\<rparr>) :: spawn_error + nat \<times> launch of
       Inl _ \<Rightarrow> hd_open demo_handles | Inr (h, _) \<Rightarrow> h # hd_open demo_handles) \<and> handles_ok \<lparr>hd_next = 12, hd_open = [10]\<rparr>"
  by (rule launch_loses_no_handle [OF _ demo_launched]) (simp add: demo_handles_def handles_ok_def)

text \<open>
  C30: The service takes the port over.  Somebody holds the port until the time \<open>R\<close>; if \<open>R\<close>, and
  the time one attempt takes, leave the deadline of \<open>listenTCPRetry\<close> in the future, it returns,
  and returns a listener.
\<close>

theorem service_takes_port_over:
  assumes "\<forall>k. a k \<le> now (Suc k) \<and> now (Suc k) \<le> a k + d \<and> now (Suc k) + 200 \<le> a (Suc k)"
    and "\<forall>k. listen k = (if R \<le> a k then Some found else None)" and "R + d \<le> now 0 + patience"
  shows "listenTCPRetry listen now patience = Some (Some found)"
  by (rule listenTCPRetry_binds [of a now d R]) (use assms in auto)

theorem service_takes_port_over_witness:
  "listenTCPRetry (\<lambda>k. if 1000 \<le> 250 * int k then Some ''ln'' else None) (\<lambda>k. 250 * (int k - 1) + 40) 5000 = Some (Some ''ln'')"
  by (rule service_takes_port_over [of "\<lambda>k. 250 * int k" _ 50 _ 1000]) simp_all

text \<open>
  C31: The waits end.  On a clock that reaches the deadline the stop, the restart and the
  elevated reconfiguration of the service return, whatever the service answers meanwhile.
\<close>

theorem waits_return:
  assumes "sm_now e 0 + 10000 \<le> sm_now e (Suc n)"
  shows "stopService e m \<noteq> None \<and> restartService e m \<noteq> None \<and> applyConfigElevated e q cfg m \<noteq> None"
proof -
  have w: "\<exists>ok st'. stop_wait (sm_reply e) (\<lambda>k. sm_now e (Suc k)) (sm_now e 0 + 10000) 0 st = Some (ok, st')" for st
    using stop_wait_returns [where now = "\<lambda>k. sm_now e (Suc k)", OF assms le0] by fastforce
  have S: "\<exists>r m1. stopService e m' = Some (r, m1)" for m'
  proof (cases "\<exists>s st. ma_svc m' = Some s \<and> svc_Stop e s = Some st")
    case True
    then obtain s st where "ma_svc m' = Some s" "svc_Stop e s = Some st" by blast
    with w [of st] show ?thesis by (auto simp: stopService_def Let_def)
  qed (auto simp: stopService_def split: option.splits)
  have R: "restartService e m' \<noteq> None" for m' using S [of m'] by (auto simp: restartService_def)
  from S [of m] R show ?thesis by (auto simp: applyConfigElevated_def Let_def split: prod.splits)
qed

theorem waits_return_witness:
  "stopService (demo_scm\<lparr>sm_reply := \<lambda>_. Some 3\<rparr>) demo_machine \<noteq> None \<and> restartService (demo_scm\<lparr>sm_reply := \<lambda>_. Some 3\<rparr>) demo_machine \<noteq> None \<and>
    applyConfigElevated (demo_scm\<lparr>sm_reply := \<lambda>_. Some 3\<rparr>) demo_query zero_config demo_machine \<noteq> None"
  by (rule waits_return [of _ 40]) (simp add: demo_scm_def)

text \<open>
  C32: The panel and the service do not fight for the port.  Whatever the ticks before
  answered, after a tick that saw the service running the panel holds no listener and no
  announcement; after one that did not, it listens on the configured port and no other, if the
  machine gives it.
\<close>

theorem panel_yields_port:
  assumes "can (sc_Port cfg)"
  shows "listeners (snd (runArbiterHeadless (ts @ [(can, ok, True)]) (newServingController cfg, net_init))) = Map.empty \<and>
    anns (snd (runArbiterHeadless (ts @ [(can, ok, True)]) (newServingController cfg, net_init))) = Map.empty \<and>
    (\<exists>l. listeners (snd (runArbiterHeadless (ts @ [(can, ok, False)]) (newServingController cfg, net_init))) = [l \<mapsto> sc_Port cfg])"
proof -
  define s where "s = runArbiterHeadless ts (newServingController cfg, net_init)"
  have I: "ctl_inv s" "clean s" "ct_cfg (fst s) = cfg"
    using runArbiterHeadless_inv [OF conjunct1 [OF ctl_inv_new] conjunct2 [OF ctl_inv_new], of ts cfg]
    by (simp_all add: s_def newServingController_def)
  obtain c o' where s: "s = (c, o')" by fastforce
  have step: "runArbiterHeadless (ts @ [(can, ok, r)]) (newServingController cfg, net_init) = arbitrate can ok r (c, o')" for r
    by (simp add: runArbiterHeadless_def s [symmetric] s_def)
  have "clean (arbitrate can ok True (c, o')) \<and> \<not> ct_running (fst (arbitrate can ok True (c, o')))"
    using Stop_inv I s by (simp add: arbitrate_def wantStandalone_def)
  then have "anns (snd (arbitrate can ok True (c, o'))) = Map.empty"
    by (cases "arbitrate can ok True (c, o')") (auto simp: clean_def)
  with arbitrate_port [of c o' True can ok] arbitrate_port [of c o' False can ok] I assms show ?thesis
    unfolding step by (simp add: s)
qed

theorem panel_yields_port_witness:
  "listeners (snd (runArbiterHeadless ([(\<lambda>p. True, True, False)] @ [(\<lambda>p. True, True, True)]) (newServingController demo_cfg, net_init))) = Map.empty \<and>
    anns (snd (runArbiterHeadless ([(\<lambda>p. True, True, False)] @ [(\<lambda>p. True, True, True)]) (newServingController demo_cfg, net_init))) = Map.empty \<and>
    (\<exists>l. listeners (snd (runArbiterHeadless ([(\<lambda>p. True, True, False)] @ [(\<lambda>p. True, True, False)]) (newServingController demo_cfg, net_init))) =
      [l \<mapsto> sc_Port demo_cfg])"
  by (rule panel_yields_port) simp

text \<open>
  C33: The panel lists the service's clients.  When the service runs, a tick asks its status pipe,
  and the devices shown are the clients of the service's registry at that moment, in its order,
  with their names in valid UTF-8, their addresses and the instants they connected - all of them or, when the
  payload was cut short anywhere or came too late, none, never a part or a wrong one; the
  count is theirs.  Connections of the years 1970 to 9999 and zones of whole minutes are within what JSON can carry.
\<close>

theorem panel_lists_service_clients:
  assumes "serviceRunning (te_q t) (te_at_running t)" and "te_pipe t = Some (serve_status zone r sent, in_time)"
    and "\<forall>c \<in> set (Snapshot r). 0 \<le> cl_Since c \<and> cl_Since c < 253402214400 * 10 ^ 9 \<and> 60 dvd zone (cl_Since c) \<and> \<bar>zone (cl_Since c)\<bar> < 86400"
    and "shown = (if in_time \<and> length (encodeClients zone (Snapshot r)) \<le> sent then map shown_client (Snapshot r) else [])"
  shows "case panel_tick t (w, p, guard) of (w', p', guard') \<Rightarrow> wd_devices w' = shown \<and> wd_devCount w' = devCount_text (length shown)"
proof -
  have q: "(case queryStatusPipe (te_pipe t) of Some list \<Rightarrow> list | None \<Rightarrow> []) = shown"
    unfolding assms(2,4) using assms(3) by (intro query_all_or_nothing json_time_range) auto
  have "\<not> isRunning (fst (arbitrate can ok True cs))" for can ok cs by (rule arbitrate_stops)
  then show ?thesis
    using assms(1) q by (auto simp: panel_tick_def Let_def applyPanelState_effects split: prod.splits)
qed

lemma demo_host: "TrimSpace ''host'' = ''host''"
  by (simp add: TrimSpace_def chunks_ascii_Cons is_space_rune_def)

definition demo_registry :: "unit registry" where
  "demo_registry = \<lparr>rg_clients = [(1, \<lparr>cl_Name = ''phone'', cl_Addr = ''10.0.0.2'', cl_Since = 1750000000 * 10 ^ 9 + 5, cl_seq = 1\<rparr>)],
     rg_nextID = 1, rg_onChange = None\<rparr>"

definition demo_tick :: tick_env where
  "demo_tick = \<lparr>te_can = \<lambda>p. True, te_ann = True, te_q = demo_query, te_at_running = demo_machine, te_at_state = demo_machine,
     te_at_type = demo_machine, te_local = [], te_pipe = Some (serve_status (\<lambda>t. 28800) demo_registry (length (encodeClients (\<lambda>t. 28800) (Snapshot demo_registry))), True)\<rparr>"

theorem panel_lists_service_clients_witness:
  "case panel_tick demo_tick (widgets_created 0, demo_panel, False) of (w', p', guard') \<Rightarrow>
    wd_devices w' = map shown_client (Snapshot demo_registry) \<and> wd_devCount w' = devCount_text (length (map shown_client (Snapshot demo_registry)))"
  by (rule panel_lists_service_clients [where zone = "\<lambda>t. 28800" and in_time = True
        and sent = "length (encodeClients (\<lambda>t. 28800) (Snapshot demo_registry))" and r = demo_registry])
    (simp_all add: demo_tick_def demo_query_def demo_machine_def serviceRunning_def svc_states, simp add: demo_registry_def Snapshot_sort_key)

text \<open>
  C34: No child gets a command line it cannot read.  Whatever is typed and clicked, in any order, every elevated child
  the panel starts reads from its command line exactly one administrative command, with a
  password that is not empty and a port of 1..65535 where it takes them, and a start type of
  the box where it sets one.
\<close>

theorem panel_children_understood:
  assumes "no_NUL (ac_pass cfg)" and "no_NUL (ac_name cfg)" and "pa_children p = []" and "\<forall>ev \<in> set evs. typed_event ev"
    and "child \<in> set (pa_children (pu_panel (fold (panel_step tray ips) evs (panel_created e tray row clip cfg p))))"
  shows "child_ok host child"
proof -
  have "typed_panel host (panel_created e tray row clip cfg p)"
    using assms(1-3) by (simp add: typed_panel_def typed_fields_def panel_created_def)
  from typed_panel_run [OF this assms(4)] assms(5) show ?thesis by (auto simp: typed_panel_def)
qed

theorem panel_children_understood_witness: "child_ok ''host'' (elevatedSelf [''-stop-service''])"
  by (rule panel_children_understood [where evs = "[PTypePort ''80'', PStop]" and tray = True and ips = "DetectIPs None" and e = "sm_reg demo_scm"
        and row = 0 and clip = "[]" and cfg = "default_config ''host''" and p = demo_panel])
    (simp_all add: default_config_def zero_config_def demo_panel_def panel_step_def panel_enabled_def panel_created_def
      widgets_created_def onStop_def elevate_def sanitizeName_def demo_host)

text \<open>
  C35: The panel tells the truth.  From its first tick on, over any events, the number it shows is the number of
  rows, it never offers both to install and to remove or both to start and to stop the service,
  the button beside the password says what it will do, the start-type guard is down, and,
  as long as the Run key answers, the check mark says what the key holds.  A tick itself
  starts no child and leaves the Run key alone.
\<close>

theorem panel_tells_truth:
  assumes "run_ok e" and "typed_fields (pu_fields (panel_created e True row clip cfg p))" and "pa_run p \<noteq> None"
    and "\<forall>ev \<in> set evs. typed_event ev \<and> run_event ev"
    and "u = fold (panel_step True ips) (PTick t # evs) (panel_created e True row clip cfg p)"
  shows "panel_ok u \<and> buttons_ok (pu_live u) \<and> pu_login u = autostart_set (pu_panel u) \<and>
    pa_children (pu_panel (panel_step True ips (PTick t') u)) = pa_children (pu_panel u) \<and>
    pa_run (pu_panel (panel_step True ips (PTick t') u)) = pa_run (pu_panel u)"
proof -
  let ?u0 = "panel_created e True row clip cfg p"
  have ok: "panel_ok u \<and> buttons_ok (pu_live u)"
    unfolding assms(5) fold_simps(2) using panel_first_tick by (intro panel_ok_run) blast+
  have "re_open e" using assms(1) by (simp add: run_ok_def)
  then have "login_ok ?u0" using assms(2,3) by (simp add: login_ok_def panel_created_def autostart_set_on)
  then have "login_ok u" unfolding assms(5) using assms(4) by (intro login_ok_run) auto
  with ok show ?thesis
    using panel_tick_panel by (auto simp: login_ok_def panel_step_def onTick_def split: prod.splits)
qed

definition demo_end :: panel_ui where
  "demo_end = fold (panel_step True (DetectIPs None)) [PTick demo_tick, PMenuLogin (sm_reg demo_scm) ''rm.exe'', PStop]
     (panel_created (sm_reg demo_scm) True 0 [] (default_config ''host'') (demo_panel\<lparr>pa_run := Some []\<rparr>))"

theorem panel_tells_truth_witness:
  "panel_ok demo_end \<and> buttons_ok (pu_live demo_end) \<and> pu_login demo_end = autostart_set (pu_panel demo_end) \<and>
    pa_children (pu_panel (panel_step True (DetectIPs None) (PTick demo_tick) demo_end)) = pa_children (pu_panel demo_end) \<and>
    pa_run (pu_panel (panel_step True (DetectIPs None) (PTick demo_tick) demo_end)) = pa_run (pu_panel demo_end)"
  by (rule panel_tells_truth [where e = "sm_reg demo_scm" and row = 0 and clip = "[]" and cfg = "default_config ''host''" and t = demo_tick
        and p = "demo_panel\<lparr>pa_run := Some []\<rparr>" and evs = "[PMenuLogin (sm_reg demo_scm) ''rm.exe'', PStop]"])
    (simp_all add: demo_end_def run_ok_def demo_scm_def typed_fields_def panel_created_def default_config_def zero_config_def sanitizeName_def demo_host)

text \<open>A window whose registry has a device: joined and not drawn yet, and drawn.\<close>

definition demo_watched :: "unit registry" where
  "demo_watched = SetOnChange (Some ()) NewClientRegistry"

definition demo_joined :: display where
  "demo_joined =
    \<lparr>dp_reg = fst (Register 7 ''phone'' ''10.0.0.7:5000'' demo_watched), dp_ops = 1, dp_queue = 0,
     dp_ui = Some (ui_start (sm_reg demo_scm) LabelRunning [] 0 [] None)\<rparr>"

definition demo_drawn :: display where
  "demo_drawn = demo_joined
    \<lparr>dp_ops := 0, dp_ui := Some (ui_refresh (Snapshot (dp_reg demo_joined)) 9 (the (dp_ui demo_joined)))\<rparr>"

lemma demo_watched_empty: "Snapshot demo_watched = []" "rg_onChange demo_watched = Some ()"
  by (simp_all add: demo_watched_def SetOnChange_def NewClientRegistry_def Snapshot_sort_key)

lemma demo_joined_reachable: "display_reachable tray pass port ips demo_joined"
proof -
  let ?step = "display_step tray pass port ips"
  let ?sub = "display_init\<lparr>dp_reg := demo_watched\<rparr>"
  let ?pop = "?sub\<lparr>dp_ui := Some (ui_start (sm_reg demo_scm) LabelRunning [] 0 [] None)\<rparr>"
  have a: "?step display_init ?sub"
    using display_step.subscribe [of display_init] by (simp add: display_init_def demo_watched_def)
  have b: "?step ?sub ?pop"
    using display_step.populate [of ?sub] demo_watched_empty by (fastforce simp: display_init_def)
  have c: "?step ?pop demo_joined"
    using display_step.register [of 7 "''phone''" "''10.0.0.7:5000''" ?pop]
    by (cases "Register 7 ''phone'' ''10.0.0.7:5000'' demo_watched") (simp add: demo_joined_def display_init_def)
  from display_reachable_step [OF display_reachable_step [OF display_reachable_step [OF display_reachable_init a] b] c]
  show ?thesis .
qed

lemma demo_drawn_reachable: "display_reachable tray pass port ips demo_drawn"
proof -
  let ?step = "display_step tray pass port ips"
  let ?told = "demo_joined\<lparr>dp_ops := 0, dp_queue := 1\<rparr>"
  have "rg_onChange (dp_reg demo_joined) = Some ()"
    by (simp add: demo_joined_def Register_def Let_def demo_watched_empty)
  then have a: "?step demo_joined ?told"
    using display_step.notify [of demo_joined 0] by (simp add: demo_joined_def notify_def)
  have b: "?step ?told demo_drawn"
    using display_step.refresh [of ?told 0 "the (dp_ui demo_joined)" tray pass port ips 9]
    by (simp add: demo_drawn_def demo_joined_def ui_step_def ui_enabled_def ui_start_def ui_refresh_def Let_def)
  from display_reachable_step [OF display_reachable_step [OF demo_joined_reachable a] b] show ?thesis .
qed

text \<open>
  C36: The window of the single process follows the registry.  Connections may come and go while the window is set
  up and later, in any order with what the user does and with the refreshes the GUI thread runs.  As long as the
  process lives, the window misses no change: once no notification and no refresh is pending, its rows, its count and the clients behind them are
  those of the registry; and what is pending can always run to its end without another change.
\<close>

theorem display_consistent:
  assumes "display_reachable tray pass port ips d" and "dp_ui d = Some u" and "\<not> tu_exited u"
  shows "(dp_ops d = 0 \<and> dp_queue d = 0 \<longrightarrow> shows_registry d u) \<and>
    (\<exists>d' u'. (display_step tray pass port ips)\<^sup>*\<^sup>* d d' \<and> dp_reg d' = dp_reg d \<and> dp_ops d' = 0 \<and> dp_queue d' = 0 \<and>
       dp_ui d' = Some u' \<and> shows_registry d' u')"
proof -
  have inv: "display_inv d" using assms(1) by (rule display_reachable_inv)
  show ?thesis using display_settled [OF inv assms(2,3)] display_drains [OF inv assms(2,3)] by simp
qed

theorem display_consistent_witness:
  "shows_registry demo_drawn (the (dp_ui demo_drawn)) \<and> tu_count (the (dp_ui demo_drawn)) = devCount_text 1 \<and>
   (\<exists>d' u'. (display_step True ''secret'' 9978 \<lparr>ip_Primary = ''10.0.0.2'', ip_Secondary = []\<rparr>)\<^sup>*\<^sup>* demo_joined d' \<and> dp_reg d' = dp_reg demo_joined \<and>
     dp_ops d' = 0 \<and> dp_queue d' = 0 \<and> dp_ui d' = Some u' \<and> shows_registry d' u')"
proof -
  have "shows_registry demo_drawn (the (dp_ui demo_drawn))"
    using display_consistent [OF demo_drawn_reachable, of "the (dp_ui demo_drawn)"]
    by (simp add: demo_drawn_def demo_joined_def ui_start_def ui_refresh_def Let_def)
  moreover have "tu_count (the (dp_ui demo_drawn)) = devCount_text 1"
    by (simp add: demo_drawn_def demo_joined_def ui_start_def ui_refresh_def Let_def Snapshot_sort_key Register_def
        demo_watched_def SetOnChange_def NewClientRegistry_def go_insert_def go_delete_def)
  moreover have "dp_ui demo_joined = Some (the (dp_ui demo_joined))" "\<not> tu_exited (the (dp_ui demo_joined))"
    by (simp_all add: demo_joined_def ui_start_def ui_refresh_def Let_def)
  ultimately show ?thesis using display_consistent [OF demo_joined_reachable] by blast
qed

text \<open>
  C37: Without a tray icon a closed window is lost.  If the icon could not be created, closing the
  window hides it for good in either program: nothing that can happen afterwards shows it again or ends the
  process.
\<close>

theorem window_lost_without_tray:
  "\<not> wn_visible (pu_win (fold (panel_step False ips) (pre @ PClose # post) (panel_created e False row clip cfg p))) \<and>
   \<not> pu_exited (fold (panel_step False ips) (pre @ PClose # post) (panel_created e False row clip cfg p)) \<and>
   \<not> wn_visible (tu_win (fold (ui_step False pass port ips) (pre' @ CloseWindow # post') (ui_start e state snapshot now clip run))) \<and>
   \<not> tu_exited (fold (ui_step False pass port ips) (pre' @ CloseWindow # post') (ui_start e state snapshot now clip run))"
  using panel_close_no_tray [of "panel_created e False row clip cfg p"] ui_close_no_tray [of "ui_start e state snapshot now clip run"]
  by (simp add: panel_created_def ui_start_def ui_refresh_def Let_def)

text \<open>
  C38: The start type chosen is the start type set, and shown.  When the user picks a row the box did not stand on and the elevated
  child this starts ends without an error, the service has the start type of that row; and
  the next refresh of the panel that finds this service, whatever happened in between, puts the enabled box on that row, names the
  start type in the status, and starts no child of its own.
\<close>

theorem start_type_choice:
  assumes "panel_enabled tray ips u (PPick i)" and "wd_combo (pu_live u) \<noteq> i" and "\<not> pu_guard u"
    and "elevated_child e q host exe (last (pa_children (pu_panel (panel_step tray ips (PPick i) u)))) m = Some (Inr (Finished, m'))"
    and "qe_scm (te_q t)" and "qe_config (te_q t)" and "te_at_type t = m'"
    and "v = fold (panel_step tray ips) evs (panel_step tray ips (PPick i) u)" and "\<not> pu_exited v"
    and "v' = panel_step tray ips (PTick t) v"
  shows "serviceStartType (te_q t) m' = (startTypeByIndex i, True) \<and>
    wd_combo (pu_live v') = i \<and> wd_comboEnabled (pu_live v') \<and>
    wd_status (pu_live v') = status_text (serviceState (te_q t) (te_at_state t)) (startTypeByIndex i) True \<and>
    pa_children (pu_panel v') = pa_children (pu_panel v)"
proof -
  have i: "i \<in> {0, 1, 2}" using assms(1) by (auto simp: panel_enabled_def startTypeCombo_def)
  then have idx: "startTypeIndex (startTypeByIndex i) = i"
    by (auto simp: startTypeByIndex_def startTypeCombo_def startTypeIndex_cases start_types)
  have "pu_panel (panel_step tray ips (PPick i) u) = onCombo False i (pu_panel u)"
    using assms(1-3) by (simp add: panel_step_def onPick_def setCurrentIndex_def)
  then have "setStartType e (startTypeByIndex i) m = (Inr (), m')"
    using assms(4) by (simp add: onCombo_def elevate_def child_set_start_type finish_ok)
  then have st: "serviceStartType (te_q t) m' = (startTypeByIndex i, True)"
    using assms(5,6) by (auto simp: setStartType_def serviceStartType_def split: if_splits option.splits)
  have "v' = onTick t v" using assms(9,10) by (simp add: panel_step_def panel_enabled_def)
  moreover have "0 \<le> i" using i by auto
  ultimately show ?thesis
    using st idx assms(7) by (simp add: onTick_def panel_tick_def applyPanelState_effects Let_def)
qed

definition demo_open :: panel_ui where
  "demo_open = panel_created (sm_reg demo_scm) True 0 [] (default_config ''host'') demo_panel"

definition demo_manual :: machine where
  "demo_manual = demo_machine\<lparr>ma_svc := Some \<lparr>sr_StartType = 3, sr_state = 4, sr_path = ''rm.exe'', sr_args = [''-service'']\<rparr>\<rparr>"

lemma demo_pick:
  "panel_enabled True (DetectIPs None) demo_open (PPick 1)" "wd_combo (pu_live demo_open) \<noteq> 1" "\<not> pu_guard demo_open"
  by (simp_all add: panel_enabled_def demo_open_def panel_created_def widgets_created_def startTypeCombo_def)

lemma demo_chosen:
  "elevated_child demo_scm demo_query ''host'' ''rm.exe''
     (last (pa_children (pu_panel (panel_step True (DetectIPs None) (PPick 1) demo_open)))) demo_machine = Some (Inr (Finished, demo_manual))"
proof -
  have "pu_panel (panel_step True (DetectIPs None) (PPick 1) demo_open) = onCombo False 1 (pu_panel demo_open)"
    using demo_pick by (simp add: panel_step_def onPick_def setCurrentIndex_def)
  then have "last (pa_children (pu_panel (panel_step True (DetectIPs None) (PPick 1) demo_open))) =
      elevatedSelf [''-set-start-type'', startTypeArg (startTypeByIndex 1)]"
    by (simp add: onCombo_def elevate_def)
  moreover have "startTypeByIndex 1 = 3" by (simp add: startTypeByIndex_def startTypeCombo_def start_types)
  ultimately show ?thesis
    using child_set_start_type [of demo_scm demo_query "''host''" "''rm.exe''" 1 demo_machine]
    by (simp add: finish_def setStartType_def demo_scm_def demo_machine_def demo_manual_def)
qed

theorem start_type_choice_witness:
  "serviceStartType demo_query demo_manual = (startTypeByIndex 1, True) \<and>
   wd_combo (pu_live (panel_step True (DetectIPs None) (PTick (demo_tick\<lparr>te_at_type := demo_manual\<rparr>))
     (fold (panel_step True (DetectIPs None)) [PClose] (panel_step True (DetectIPs None) (PPick 1) demo_open)))) = 1"
  using start_type_choice [OF demo_pick demo_chosen, of "demo_tick\<lparr>te_at_type := demo_manual\<rparr>" _ "[PClose]"]
  by (simp add: demo_tick_def demo_query_def, simp add: panel_step_def onPick_def demo_open_def panel_created_def onClosing_def hideWindow_def split: prod.splits)

text \<open>
  C39: The address shown can be reached where the service announces itself.  When a physical
  adapter has a private address, the recommended address is one of an adapter the service
  announces itself on; and the panel shows every usable address exactly once.
\<close>

theorem primary_is_announced:
  assumes "phys_ips (map iface_of ifs) \<noteq> []"
  shows "\<exists>as names i. announceIfaces (Some ifs) = Some (as, names) \<and> i \<in> set as \<and>
    ip_Primary (DetectIPs (Some ifs)) \<in> ip_String ` set (usable (iface_of i)) \<and>
    mset (ip_Primary (DetectIPs (Some ifs)) # ip_Secondary (DetectIPs (Some ifs))) =
      mset (concat (map (\<lambda>i. map ip_String (usable (iface_of i))) ifs))"
proof -
  let ?fs = "map iface_of ifs"
  obtain p ps where ps: "phys_ips ?fs = p # ps" using assms by (cases "phys_ips ?fs") auto
  have P: "DetectIPs (Some ifs) = \<lparr>ip_Primary = p, ip_Secondary = ps @ other_ips ?fs\<rparr>"
    by (simp add: DetectIPs_def pickIPs_lists ps)
  obtain i where i: "i \<in> set ifs" "keepAnnounceIface (iface_of i)" "p \<in> ip_String ` set (usable (iface_of i))"
    using phys_ip_announced [of p ?fs] ps by auto
  have "mset (p # ps @ other_ips ?fs) = mset (concat (map (\<lambda>i. map ip_String (usable (iface_of i))) ifs))"
    using mset_ips [of ?fs] ps by (simp add: comp_def)
  with i show ?thesis by (auto simp: P announceIfaces_def Let_def filter_empty_conv)
qed

definition demo_ifs :: "net_iface list" where
  "demo_ifs = [\<lparr>ni_Name = ''vEthernet'', ni_Flags = 1, ni_Addrs = Some [IPNet (map byte_chr [172, 20, 0, 1])]\<rparr>,
     \<lparr>ni_Name = ''eth0'', ni_Flags = 1, ni_Addrs = Some [OtherAddr, IPNet (map byte_chr [192, 168, 1, 5])]\<rparr>]"

theorem primary_is_announced_witness:
  "\<exists>as names i. announceIfaces (Some demo_ifs) = Some (as, names) \<and> i \<in> set as \<and>
    ip_Primary (DetectIPs (Some demo_ifs)) \<in> ip_String ` set (usable (iface_of i)) \<and>
    mset (ip_Primary (DetectIPs (Some demo_ifs)) # ip_Secondary (DetectIPs (Some demo_ifs))) =
      mset (concat (map (\<lambda>i. map ip_String (usable (iface_of i))) demo_ifs))"
proof (rule primary_is_announced)
  show "phys_ips (map iface_of demo_ifs) \<noteq> []" by code_simp
qed

text \<open>
  C40: The injection log does not tell a text.  Two texts of as many UTF-16 units are logged
  alike, verbose or not, whether SendInput takes them or not.
\<close>

theorem text_not_logged:
  assumes "length (text_units s) = length (text_units t)"
  shows "log_batches (map (\<lambda>b. (b, answer)) (win_Text s)) st = log_batches (map (\<lambda>b. (b, answer)) (win_Text t)) st"
  by (rule log_text) (rule assms)

theorem text_not_logged_witness:
  "log_batches (map (\<lambda>b. (b, 5, 8, ''ok'')) (win_Text ''1234'')) \<lparr>il_verbose = True, il_warned = False, il_lastMove = 0\<rparr> =
   log_batches (map (\<lambda>b. (b, 5, 8, ''ok'')) (win_Text ''9876'')) \<lparr>il_verbose = True, il_warned = False, il_lastMove = 0\<rparr>"
  by (rule text_not_logged) (simp add: text_units_def runes_def chunks_ascii_Cons utf16Units_def)

end
